(* ===== verification/Prelude.thy ===== *)
theory Prelude
  imports Main "HOL-Library.Word" "HOL-Library.Finite_Map" "HOL-Library.Sublist"
    "HOL-Library.List_Lexorder" "HOL-Library.Char_ord"
begin

text \<open>
  What the Go runtime gives every component of shunt, and the lemmas the components share.

  \<^item> Strings are byte strings: \<open>string\<close>, ordered bytewise (\<open>List_Lexorder\<close> over \<open>Char_ord\<close>),
    as \<^verbatim>\<open>strings.Compare\<close> and \<^verbatim>\<open>slices.Sort\<close> order them.
  \<^item> A Go map is a finite map \<open>('k, 'v) fmap\<close>. Where the code tells a nil map or slice from an empty
    one, the field is an \<open>option\<close> and \<open>goMap\<close>, \<open>goSlice\<close> read it the way Go reads nil.
  \<^item> Reading a missing key gives the zero value (\<open>getStr\<close> for strings).
  \<^item> Iterating over a map in sorted key order is iterating over \<open>sortedKeys\<close>.
\<close>

unbundle bit_operations_syntax

named_theorems shunt_simps \<open>equations that evaluate the model's record helpers\<close>

type_synonym u64 = "64 word"

subsection \<open>Nil-able maps and slices\<close>

definition goMap :: "('k, 'v) fmap option \<Rightarrow> ('k, 'v) fmap" where
  "goMap m = (case m of None \<Rightarrow> fmempty | Some m' \<Rightarrow> m')"

definition goSlice :: "'a list option \<Rightarrow> 'a list" where
  "goSlice s = (case s of None \<Rightarrow> [] | Some xs \<Rightarrow> xs)"

definition getStr :: "('k, string) fmap \<Rightarrow> 'k \<Rightarrow> string" where
  "getStr m k = (case fmlookup m k of None \<Rightarrow> '''' | Some v \<Rightarrow> v)"

definition hasKey :: "('k, 'v) fmap \<Rightarrow> 'k \<Rightarrow> bool" where
  "hasKey m k = (fmlookup m k \<noteq> None)"

definition mapLen :: "('k, 'v) fmap \<Rightarrow> nat" where
  "mapLen m = fcard (fmdom m)"

definition sortedKeys :: "('k::linorder, 'v) fmap \<Rightarrow> 'k list" where
  "sortedKeys m = sorted_list_of_fset (fmdom m)"

lemma goMap_simps [simp]: "goMap None = fmempty" "goMap (Some m) = m"
  by (simp_all add: goMap_def)

lemma goSlice_simps [simp]: "goSlice None = []" "goSlice (Some xs) = xs"
  by (simp_all add: goSlice_def)

lemma hasKey_iff [simp]: "hasKey m k \<longleftrightarrow> k |\<in>| fmdom m"
  by (auto simp: hasKey_def fmlookup_dom_iff)

lemma getStr_fmupd [simp]: "getStr (fmupd k v m) k' = (if k = k' then v else getStr m k')"
  by (simp add: getStr_def)

lemma getStr_fmempty [simp]: "getStr fmempty k = ''''"
  by (simp add: getStr_def)

lemma getStr_fmdrop: "getStr (fmdrop k m) k' = (if k = k' then '''' else getStr m k')"
  by (simp add: getStr_def)

lemma mapLen_fmempty [simp]: "mapLen fmempty = 0"
  by (simp add: mapLen_def)

lemma mapLen_fmupd: "mapLen (fmupd k v m) = (if hasKey m k then mapLen m else Suc (mapLen m))"
  by (auto simp: mapLen_def fcard_finsert_if finsert_absorb)

lemma set_sortedKeys [simp]: "set (sortedKeys m) = fset (fmdom m)"
  by (simp add: sortedKeys_def sorted_list_of_fset_simps)

lemma distinct_sortedKeys [simp]: "distinct (sortedKeys m)"
  by (simp add: sortedKeys_def sorted_list_of_fset.rep_eq)

lemma sorted_sortedKeys [simp]: "sorted (sortedKeys m)"
  by (simp add: sortedKeys_def sorted_list_of_fset.rep_eq)

lemma sortedKeys_eq_Nil [simp]: "sortedKeys m = [] \<longleftrightarrow> m = fmempty"
proof
  assume "sortedKeys m = []"
  then have "fset (fmdom m) = {}"
    by (metis set_sortedKeys empty_set)
  then have "fmdom m = {||}" by (metis bot_fset.rep_eq fset_inject)
  then show "m = fmempty" by (metis fmap_ext fmdom_notI fmdom_notD fmempty_lookup fempty_iff)
qed (simp add: sortedKeys_def sorted_list_of_fset.rep_eq)

lemma sortedKeys_fmempty [simp]: "sortedKeys fmempty = []"
  by simp

subsection \<open>Guards\<close>

text \<open>A sequence of early returns: the reason of the first condition that holds, or \<open>None\<close>.\<close>

fun refuse :: "(bool \<times> 'r) list \<Rightarrow> 'r option" where
  "refuse [] = None"
| "refuse ((c, r) # gs) = (if c then Some r else refuse gs)"

declare refuse.simps(2) [simp del]

lemma refuse_None [simp]: "refuse ((c, r) # gs) = None \<longleftrightarrow> \<not> c \<and> refuse gs = None"
  by (simp add: refuse.simps(2))

lemma refuse_Some: "refuse gs = Some r \<Longrightarrow> (True, r) \<in> set gs"
  by (induction gs) (auto simp: refuse.simps(2) split: if_splits)

subsection \<open>Byte classes\<close>

definition isLower :: "char \<Rightarrow> bool" where
  "isLower c \<longleftrightarrow> CHR ''a'' \<le> c \<and> c \<le> CHR ''z''"

definition isUpper :: "char \<Rightarrow> bool" where
  "isUpper c \<longleftrightarrow> CHR ''A'' \<le> c \<and> c \<le> CHR ''Z''"

definition isDigit :: "char \<Rightarrow> bool" where
  "isDigit c \<longleftrightarrow> CHR ''0'' \<le> c \<and> c \<le> CHR ''9''"

subsection \<open>Words\<close>

text \<open>The size of the hash space as a number, kept folded so that arithmetic does not expand it.\<close>

definition hash_space :: nat where
  "hash_space = 2 ^ 64"

lemma unat_less_space [simp]: "unat (h::u64) < hash_space"
  unfolding hash_space_def by (rule order.strict_trans2 [OF unsigned_less]) simp

lemma unat_neq_space [simp]: "unat (h::u64) \<noteq> hash_space" "hash_space \<noteq> unat h"
    "\<not> hash_space \<le> unat h" "0 < hash_space"
  using unat_less_space [of h] by (simp_all del: unat_less_space)

lemma Suc_unat_max: "Suc (unat (-1 :: u64)) = hash_space"
  unfolding hash_space_def
  by (simp only: unsigned_minus_1_eq_mask mask_eq_exp_minus_1) (simp only: len_bit0 len_num1 mult_1_right, simp)

lemma Suc_unat_eq_space [simp]: "Suc (unat x) = hash_space \<longleftrightarrow> x = (-1 :: u64)"
  by (metis Suc_unat_max nat.inject word_unat_eq_iff)

lemma Suc_unat_le_space [simp]: "Suc (unat (x :: u64)) \<le> hash_space"
  by (simp add: Suc_le_eq)

text \<open>Successors in the 64-bit hash space, away from its end.\<close>

lemma unat_add_one_u64: "x \<noteq> -1 \<Longrightarrow> unat (x + 1 :: u64) = Suc (unat x)"
  by (metis add.commute add_eq_0_iff unatSuc)

lemma less_add_one_u64: "x \<noteq> -1 \<Longrightarrow> (y::u64) < x + 1 \<longleftrightarrow> y \<le> x"
  by (simp add: word_less_nat_alt word_le_nat_alt unat_add_one_u64 less_Suc_eq_le)

lemma add_one_le_u64: "x \<noteq> -1 \<Longrightarrow> x + 1 \<le> (y::u64) \<longleftrightarrow> x < y"
  by (simp add: word_less_nat_alt word_le_nat_alt unat_add_one_u64 Suc_le_eq)

lemma add_one_inj_u64: "x + 1 = y + 1 \<longleftrightarrow> x = (y::u64)"
  by simp

lemma le_minus_one_u64 [simp]: "(x::u64) \<le> -1"
  by (simp add: word_n1_ge)

lemma minus_one_le_u64 [simp]: "-1 \<le> (x::u64) \<longleftrightarrow> x = -1"
  by (meson dual_order.antisym le_minus_one_u64 order_refl)

lemma sub_one_less_u64: "0 < (x::u64) \<Longrightarrow> y \<le> x - 1 \<longleftrightarrow> y < x"
  by (metis diff_add_cancel less_add_one_u64 less_irrefl add_eq_0_iff
      add.inverse_inverse)

end
