(* ===== verification/Config.thy ===== *)
theory Config
  imports Prelude
begin

text \<open>
  \<^verbatim>\<open>internal/config\<close>, as far as the directory depends on it: drain barriers (\<^verbatim>\<open>barrier.go\<close>) and
  cluster definitions with their defaults and checks (\<^verbatim>\<open>config.go\<close>, \<^verbatim>\<open>validate.go\<close>).

  A check returns the errors it adds, in order; \<^verbatim>\<open>e.add(key, format, args)\<close> is the pair of the key and a
  \<open>vmsg\<close>, one constructor per format string. The empty list is Go's nil error.
\<close>

subsection \<open>Barriers\<close>

record barrier =
  bID :: string
  bKind :: string

definition BarrierMutations :: string where "BarrierMutations = ''mutations''"

definition BarrierSource :: string where "BarrierSource = ''source''"

lemma barrier_kinds_distinct [simp]: "BarrierMutations \<noteq> BarrierSource" "BarrierSource \<noteq> BarrierMutations"
  by (simp_all add: BarrierMutations_def BarrierSource_def)

definition ValidBarrierID :: "string \<Rightarrow> bool" where
  "ValidBarrierID i \<longleftrightarrow>
     i \<noteq> '''' \<and> length i \<le> 64 \<and>
     list_all (\<lambda>c. isLower c \<or> isUpper c \<or> isDigit c \<or> c = CHR ''.'' \<or> c = CHR ''_'' \<or> c = CHR '':'' \<or> c = CHR ''-'') i"

datatype barrier_error = BadBarrierID string | BadBarrierKind string

definition validateBarrierOf :: "barrier \<Rightarrow> barrier_error option" where
  "validateBarrierOf b =
     (if \<not> ValidBarrierID (bID b) then Some (BadBarrierID (bID b))
      else if bKind b \<noteq> BarrierMutations \<and> bKind b \<noteq> BarrierSource then Some (BadBarrierKind (bKind b))
      else None)"

subsection \<open>Clusters\<close>

record cluster_tls =
  tlsCA :: string
  tlsInsecureSkipVerify :: bool

record credentials =
  crAccessKey :: string
  crSecretRef :: string

record capabilities =
  capEnforcesSHA256 :: "bool option"
  capUnsignedTrailer :: "bool option"
  capConditionalWrite :: "bool option"
  capConditionalDelete :: "bool option"

record cluster =
  cType :: string
  cScheme :: string
  cRegion :: string
  cEndpointMode :: string
  cEndpoints :: "string list"
  cEndpoint :: string
  cTLS :: cluster_tls
  cCredentials :: credentials
  cStorageClasses :: string
  cStorageClass :: string
  cAccess :: string
  cCapabilities :: capabilities
  cReadOnly :: bool
  cRejectWrites :: bool
  cBarrier :: "barrier option"

definition EnforcesSHA256Or :: "capabilities \<Rightarrow> bool \<Rightarrow> bool" where
  "EnforcesSHA256Or c def = (case capEnforcesSHA256 c of None \<Rightarrow> def | Some b \<Rightarrow> b)"

definition UnsignedTrailerOr :: "capabilities \<Rightarrow> bool \<Rightarrow> bool" where
  "UnsignedTrailerOr c def = (case capUnsignedTrailer c of None \<Rightarrow> def | Some b \<Rightarrow> b)"

definition ConditionalWriteOr :: "capabilities \<Rightarrow> bool \<Rightarrow> bool" where
  "ConditionalWriteOr c def = (case capConditionalWrite c of None \<Rightarrow> def | Some b \<Rightarrow> b)"

definition ConditionalDeleteOr :: "capabilities \<Rightarrow> bool \<Rightarrow> bool" where
  "ConditionalDeleteOr c def = (case capConditionalDelete c of None \<Rightarrow> def | Some b \<Rightarrow> b)"

definition ApplyClusterDefaults :: "(string, cluster) fmap \<Rightarrow> (string, cluster) fmap" where
  "ApplyClusterDefaults m =
     fmmap (\<lambda>cl. if cEndpointMode cl = '''' then cl\<lparr>cEndpointMode := ''static''\<rparr> else cl) m"

subsection \<open>Validation errors\<close>

datatype vmsg =
    Required
  | RequiredOneOf "string list"
  | NotOneOf string "string list"
  | UnknownCluster string
  | BadBarrier barrier_error
  | ClusterBarrierKind string
  | EndpointsRequiredStatic
  | EndpointNotInStatic
  | EndpointRequiredDNS
  | EndpointsNotInDNS
  | EndpointHasScheme nat
  | TLSWithHTTP
  | BadSecretRef string
  | StorageClassRequired
  | AccessRequired "string list"
  | RestoreOnlyArchive "string list" string
  | NotOnNative

type_synonym verror = "string \<times> vmsg"

definition oneOf :: "string \<Rightarrow> string \<Rightarrow> string list \<Rightarrow> bool \<times> verror list" where
  "oneOf key val allowed =
     (if val \<in> set allowed then (True, [])
      else (False, [(key, if val = '''' then RequiredOneOf allowed else NotOneOf val allowed)]))"

definition clusterTypes :: "string list" where "clusterTypes = [''vast'', ''minio'', ''aws'', ''s3'']"

definition schemes :: "string list" where "schemes = [''https'', ''http'']"

definition endpointModes :: "string list" where "endpointModes = [''static'', ''dns'']"

definition storageClasses :: "string list" where "storageClasses = [''native'', ''emulated'']"

definition accessModes :: "string list" where "accessModes = [''instant'', ''restore-required'']"

definition archiveClasses :: "string list" where "archiveClasses = [''GLACIER'', ''DEEP_ARCHIVE'']"

definition validateStorageClassPairing :: "string \<Rightarrow> cluster \<Rightarrow> verror list" where
  "validateStorageClassPairing k cl =
     (if cStorageClass cl = '''' \<and> cAccess cl = '''' then []
      else if cStorageClass cl = '''' then [(k @ ''.storage_class'', StorageClassRequired)]
      else if cAccess cl = '''' then [(k @ ''.access'', AccessRequired accessModes)]
      else let (ok, e) = oneOf (k @ ''.access'') (cAccess cl) accessModes in
        if \<not> ok then e
        else (if cAccess cl = ''restore-required'' \<and> cStorageClass cl \<notin> set archiveClasses
              then [(k @ ''.access'', RestoreOnlyArchive archiveClasses (cStorageClass cl))] else [])
           @ (if cStorageClasses cl = ''native'' then [(k @ ''.storage_class'', NotOnNative)] else []))"

text \<open>One iteration of the loop of \<^verbatim>\<open>validateClusters\<close>. The key \<^verbatim>\<open>endpoints[i]\<close> is the key of the list with
  the index in the message.\<close>

definition validateCluster :: "string \<Rightarrow> cluster \<Rightarrow> verror list" where
  "validateCluster k cl =
     snd (oneOf (k @ ''.type'') (cType cl) clusterTypes)
   @ snd (oneOf (k @ ''.scheme'') (cScheme cl) schemes)
   @ (if cRegion cl = '''' then [(k @ ''.region'', Required)] else [])
   @ (case cBarrier cl of
        None \<Rightarrow> []
      | Some b \<Rightarrow>
          (case validateBarrierOf b of
             Some err \<Rightarrow> [(k @ ''.barrier'', BadBarrier err)]
           | None \<Rightarrow> if bKind b \<noteq> BarrierMutations then [(k @ ''.barrier.kind'', ClusterBarrierKind (bKind b))] else []))
   @ (let (ok, e) = oneOf (k @ ''.endpoint_mode'') (cEndpointMode cl) endpointModes in
      if \<not> ok then e
      else if cEndpointMode cl = ''static'' then
          (if cEndpoints cl = [] then [(k @ ''.endpoints'', EndpointsRequiredStatic)] else [])
        @ (if cEndpoint cl \<noteq> '''' then [(k @ ''.endpoint'', EndpointNotInStatic)] else [])
      else if cEndpointMode cl = ''dns'' then
          (if cEndpoint cl = '''' then [(k @ ''.endpoint'', EndpointRequiredDNS)] else [])
        @ (if cEndpoints cl \<noteq> [] then [(k @ ''.endpoints'', EndpointsNotInDNS)] else [])
      else [])
   @ concat (map (\<lambda>(i, ep). if sublist ''://'' ep then [(k @ ''.endpoints'', EndpointHasScheme i)] else [])
       (enumerate 0 (cEndpoints cl)))
   @ (if cScheme cl = ''http'' \<and> (tlsCA (cTLS cl) \<noteq> '''' \<or> tlsInsecureSkipVerify (cTLS cl))
      then [(k @ ''.tls'', TLSWithHTTP)] else [])
   @ (if crAccessKey (cCredentials cl) = '''' then [(k @ ''.credentials.access_key'', Required)] else [])
   @ (let ref = crSecretRef (cCredentials cl) in
      if ref = '''' then [(k @ ''.credentials.secret_ref'', Required)]
      else if \<not> prefix ''env:'' ref \<and> \<not> prefix ''file:'' ref \<and> \<not> prefix ''control:'' ref
      then [(k @ ''.credentials.secret_ref'', BadSecretRef ref)] else [])
   @ (if cStorageClasses cl \<noteq> '''' then snd (oneOf (k @ ''.storage_classes'') (cStorageClasses cl) storageClasses) else [])
   @ validateStorageClassPairing k cl"

definition ValidateClusters :: "string \<Rightarrow> (string, cluster) fmap \<Rightarrow> verror list" where
  "ValidateClusters pre clusters =
     concat (map (\<lambda>name. validateCluster (pre @ ''.'' @ name) (the (fmlookup clusters name))) (sortedKeys clusters))"

lemma fst_oneOf [simp]: "fst (oneOf key val allowed) \<longleftrightarrow> val \<in> set allowed"
  by (simp add: oneOf_def)

lemma snd_oneOf_Nil [simp]: "snd (oneOf key val allowed) = [] \<longleftrightarrow> val \<in> set allowed"
  by (simp add: oneOf_def)

lemma ValidateClusters_Nil:
  "ValidateClusters pre clusters = [] \<longleftrightarrow>
   (\<forall>name cl. fmlookup clusters name = Some cl \<longrightarrow> validateCluster (pre @ ''.'' @ name) cl = [])"
  unfolding ValidateClusters_def concat_eq_Nil_conv
  by (auto simp: fmlookup_dom_iff) (metis fmdomI option.sel)

text \<open>What an accepted cluster is: it has exactly one way to be reached, a barrier that closes
  mutations, and an archive class wherever restores are required.\<close>

lemma ApplyClusterDefaults_idem: "ApplyClusterDefaults (ApplyClusterDefaults m) = ApplyClusterDefaults m"
  by (rule fmap_ext) (auto simp: ApplyClusterDefaults_def option.map_comp intro!: option.map_cong)

lemma validateCluster_reach:
  assumes "validateCluster k cl = []"
  shows "(cEndpointMode cl = ''static'' \<and> cEndpoints cl \<noteq> [] \<and> cEndpoint cl = '''') \<or>
         (cEndpointMode cl = ''dns'' \<and> cEndpoints cl = [] \<and> cEndpoint cl \<noteq> '''')"
  using assms unfolding validateCluster_def
  by (auto simp: oneOf_def endpointModes_def Let_def split: if_splits)

lemma validateCluster_barrier:
  assumes "validateCluster k cl = []" "cBarrier cl = Some b"
  shows "ValidBarrierID (bID b) \<and> bKind b = BarrierMutations"
  using assms unfolding validateCluster_def
  by (auto simp: validateBarrierOf_def split: if_splits)

lemma validateCluster_restore:
  assumes "validateCluster k cl = []" "cAccess cl = ''restore-required''"
  shows "cStorageClass cl \<in> set archiveClasses \<and> cStorageClasses cl \<noteq> ''native''"
  using assms unfolding validateCluster_def validateStorageClassPairing_def
  by (auto simp: oneOf_def accessModes_def Let_def split: if_splits)

end
