(* ===== verification/S3_Ops.thy ===== *)
theory S3_Ops
  imports Prelude
begin

text \<open>
  \<^verbatim>\<open>internal/s3\<close>: the operations of the S3 API (\<^verbatim>\<open>op.go\<close>), the table that classifies a request into one
  of them (\<^verbatim>\<open>classify.go\<close>), the parsing of bucket and key from host and path (\<^verbatim>\<open>request.go\<close>), the rules for
  bucket names (\<^verbatim>\<open>bucketname.go\<close>) and the length bound on listing keys (\<^verbatim>\<open>listingkey.go\<close>).

  An operation is its number, as \<^verbatim>\<open>type Op uint16\<close> with its \<^verbatim>\<open>iota\<close> constants has it. A request is what the
  parser reads of \<^verbatim>\<open>*http.Request\<close>: the method, the host, the escaped path, and the query and header as
  the maps that \<^verbatim>\<open>net/http\<close> hands over (header keys in canonical form).
\<close>

subsection \<open>Operations\<close>

type_synonym op = nat

abbreviation (input) OpUnknown :: op where "OpUnknown \<equiv> 0"
abbreviation (input) OpPreflight :: op where "OpPreflight \<equiv> 1"
abbreviation (input) OpListBuckets :: op where "OpListBuckets \<equiv> 2"
abbreviation (input) OpCreateBucket :: op where "OpCreateBucket \<equiv> 3"
abbreviation (input) OpDeleteBucket :: op where "OpDeleteBucket \<equiv> 4"
abbreviation (input) OpHeadBucket :: op where "OpHeadBucket \<equiv> 5"
abbreviation (input) OpListObjects :: op where "OpListObjects \<equiv> 6"
abbreviation (input) OpListObjectsV2 :: op where "OpListObjectsV2 \<equiv> 7"
abbreviation (input) OpListObjectVersions :: op where "OpListObjectVersions \<equiv> 8"
abbreviation (input) OpListMultipartUploads :: op where "OpListMultipartUploads \<equiv> 9"
abbreviation (input) OpDeleteObjects :: op where "OpDeleteObjects \<equiv> 10"
abbreviation (input) OpPostObject :: op where "OpPostObject \<equiv> 11"
abbreviation (input) OpGetBucketLocation :: op where "OpGetBucketLocation \<equiv> 12"
abbreviation (input) OpGetBucketAcl :: op where "OpGetBucketAcl \<equiv> 13"
abbreviation (input) OpPutBucketAcl :: op where "OpPutBucketAcl \<equiv> 14"
abbreviation (input) OpGetBucketCors :: op where "OpGetBucketCors \<equiv> 15"
abbreviation (input) OpPutBucketCors :: op where "OpPutBucketCors \<equiv> 16"
abbreviation (input) OpDeleteBucketCors :: op where "OpDeleteBucketCors \<equiv> 17"
abbreviation (input) OpGetBucketLifecycleConfiguration :: op where "OpGetBucketLifecycleConfiguration \<equiv> 18"
abbreviation (input) OpPutBucketLifecycleConfiguration :: op where "OpPutBucketLifecycleConfiguration \<equiv> 19"
abbreviation (input) OpDeleteBucketLifecycle :: op where "OpDeleteBucketLifecycle \<equiv> 20"
abbreviation (input) OpGetBucketLogging :: op where "OpGetBucketLogging \<equiv> 21"
abbreviation (input) OpPutBucketLogging :: op where "OpPutBucketLogging \<equiv> 22"
abbreviation (input) OpGetBucketNotificationConfiguration :: op where "OpGetBucketNotificationConfiguration \<equiv> 23"
abbreviation (input) OpPutBucketNotificationConfiguration :: op where "OpPutBucketNotificationConfiguration \<equiv> 24"
abbreviation (input) OpGetObjectLockConfiguration :: op where "OpGetObjectLockConfiguration \<equiv> 25"
abbreviation (input) OpPutObjectLockConfiguration :: op where "OpPutObjectLockConfiguration \<equiv> 26"
abbreviation (input) OpGetBucketOwnershipControls :: op where "OpGetBucketOwnershipControls \<equiv> 27"
abbreviation (input) OpPutBucketOwnershipControls :: op where "OpPutBucketOwnershipControls \<equiv> 28"
abbreviation (input) OpDeleteBucketOwnershipControls :: op where "OpDeleteBucketOwnershipControls \<equiv> 29"
abbreviation (input) OpGetBucketPolicy :: op where "OpGetBucketPolicy \<equiv> 30"
abbreviation (input) OpPutBucketPolicy :: op where "OpPutBucketPolicy \<equiv> 31"
abbreviation (input) OpDeleteBucketPolicy :: op where "OpDeleteBucketPolicy \<equiv> 32"
abbreviation (input) OpGetBucketPolicyStatus :: op where "OpGetBucketPolicyStatus \<equiv> 33"
abbreviation (input) OpGetBucketReplication :: op where "OpGetBucketReplication \<equiv> 34"
abbreviation (input) OpPutBucketReplication :: op where "OpPutBucketReplication \<equiv> 35"
abbreviation (input) OpDeleteBucketReplication :: op where "OpDeleteBucketReplication \<equiv> 36"
abbreviation (input) OpGetBucketRequestPayment :: op where "OpGetBucketRequestPayment \<equiv> 37"
abbreviation (input) OpPutBucketRequestPayment :: op where "OpPutBucketRequestPayment \<equiv> 38"
abbreviation (input) OpGetBucketTagging :: op where "OpGetBucketTagging \<equiv> 39"
abbreviation (input) OpPutBucketTagging :: op where "OpPutBucketTagging \<equiv> 40"
abbreviation (input) OpDeleteBucketTagging :: op where "OpDeleteBucketTagging \<equiv> 41"
abbreviation (input) OpGetBucketVersioning :: op where "OpGetBucketVersioning \<equiv> 42"
abbreviation (input) OpPutBucketVersioning :: op where "OpPutBucketVersioning \<equiv> 43"
abbreviation (input) OpGetBucketWebsite :: op where "OpGetBucketWebsite \<equiv> 44"
abbreviation (input) OpPutBucketWebsite :: op where "OpPutBucketWebsite \<equiv> 45"
abbreviation (input) OpDeleteBucketWebsite :: op where "OpDeleteBucketWebsite \<equiv> 46"
abbreviation (input) OpGetBucketEncryption :: op where "OpGetBucketEncryption \<equiv> 47"
abbreviation (input) OpPutBucketEncryption :: op where "OpPutBucketEncryption \<equiv> 48"
abbreviation (input) OpDeleteBucketEncryption :: op where "OpDeleteBucketEncryption \<equiv> 49"
abbreviation (input) OpGetBucketAccelerateConfiguration :: op where "OpGetBucketAccelerateConfiguration \<equiv> 50"
abbreviation (input) OpPutBucketAccelerateConfiguration :: op where "OpPutBucketAccelerateConfiguration \<equiv> 51"
abbreviation (input) OpGetPublicAccessBlock :: op where "OpGetPublicAccessBlock \<equiv> 52"
abbreviation (input) OpPutPublicAccessBlock :: op where "OpPutPublicAccessBlock \<equiv> 53"
abbreviation (input) OpDeletePublicAccessBlock :: op where "OpDeletePublicAccessBlock \<equiv> 54"
abbreviation (input) OpGetBucketAnalyticsConfiguration :: op where "OpGetBucketAnalyticsConfiguration \<equiv> 55"
abbreviation (input) OpPutBucketAnalyticsConfiguration :: op where "OpPutBucketAnalyticsConfiguration \<equiv> 56"
abbreviation (input) OpDeleteBucketAnalyticsConfiguration :: op where "OpDeleteBucketAnalyticsConfiguration \<equiv> 57"
abbreviation (input) OpListBucketAnalyticsConfigurations :: op where "OpListBucketAnalyticsConfigurations \<equiv> 58"
abbreviation (input) OpGetBucketIntelligentTieringConfiguration :: op where "OpGetBucketIntelligentTieringConfiguration \<equiv> 59"
abbreviation (input) OpPutBucketIntelligentTieringConfiguration :: op where "OpPutBucketIntelligentTieringConfiguration \<equiv> 60"
abbreviation (input) OpDeleteBucketIntelligentTieringConfiguration :: op where "OpDeleteBucketIntelligentTieringConfiguration \<equiv> 61"
abbreviation (input) OpListBucketIntelligentTieringConfigurations :: op where "OpListBucketIntelligentTieringConfigurations \<equiv> 62"
abbreviation (input) OpGetBucketInventoryConfiguration :: op where "OpGetBucketInventoryConfiguration \<equiv> 63"
abbreviation (input) OpPutBucketInventoryConfiguration :: op where "OpPutBucketInventoryConfiguration \<equiv> 64"
abbreviation (input) OpDeleteBucketInventoryConfiguration :: op where "OpDeleteBucketInventoryConfiguration \<equiv> 65"
abbreviation (input) OpListBucketInventoryConfigurations :: op where "OpListBucketInventoryConfigurations \<equiv> 66"
abbreviation (input) OpGetBucketMetricsConfiguration :: op where "OpGetBucketMetricsConfiguration \<equiv> 67"
abbreviation (input) OpPutBucketMetricsConfiguration :: op where "OpPutBucketMetricsConfiguration \<equiv> 68"
abbreviation (input) OpDeleteBucketMetricsConfiguration :: op where "OpDeleteBucketMetricsConfiguration \<equiv> 69"
abbreviation (input) OpListBucketMetricsConfigurations :: op where "OpListBucketMetricsConfigurations \<equiv> 70"
abbreviation (input) OpGetObject :: op where "OpGetObject \<equiv> 71"
abbreviation (input) OpHeadObject :: op where "OpHeadObject \<equiv> 72"
abbreviation (input) OpPutObject :: op where "OpPutObject \<equiv> 73"
abbreviation (input) OpCopyObject :: op where "OpCopyObject \<equiv> 74"
abbreviation (input) OpDeleteObject :: op where "OpDeleteObject \<equiv> 75"
abbreviation (input) OpGetObjectAcl :: op where "OpGetObjectAcl \<equiv> 76"
abbreviation (input) OpPutObjectAcl :: op where "OpPutObjectAcl \<equiv> 77"
abbreviation (input) OpGetObjectAttributes :: op where "OpGetObjectAttributes \<equiv> 78"
abbreviation (input) OpGetObjectTagging :: op where "OpGetObjectTagging \<equiv> 79"
abbreviation (input) OpPutObjectTagging :: op where "OpPutObjectTagging \<equiv> 80"
abbreviation (input) OpDeleteObjectTagging :: op where "OpDeleteObjectTagging \<equiv> 81"
abbreviation (input) OpGetObjectLegalHold :: op where "OpGetObjectLegalHold \<equiv> 82"
abbreviation (input) OpPutObjectLegalHold :: op where "OpPutObjectLegalHold \<equiv> 83"
abbreviation (input) OpGetObjectRetention :: op where "OpGetObjectRetention \<equiv> 84"
abbreviation (input) OpPutObjectRetention :: op where "OpPutObjectRetention \<equiv> 85"
abbreviation (input) OpGetObjectTorrent :: op where "OpGetObjectTorrent \<equiv> 86"
abbreviation (input) OpRestoreObject :: op where "OpRestoreObject \<equiv> 87"
abbreviation (input) OpSelectObjectContent :: op where "OpSelectObjectContent \<equiv> 88"
abbreviation (input) OpCreateMultipartUpload :: op where "OpCreateMultipartUpload \<equiv> 89"
abbreviation (input) OpUploadPart :: op where "OpUploadPart \<equiv> 90"
abbreviation (input) OpUploadPartCopy :: op where "OpUploadPartCopy \<equiv> 91"
abbreviation (input) OpCompleteMultipartUpload :: op where "OpCompleteMultipartUpload \<equiv> 92"
abbreviation (input) OpAbortMultipartUpload :: op where "OpAbortMultipartUpload \<equiv> 93"
abbreviation (input) OpListParts :: op where "OpListParts \<equiv> 94"

definition opCount :: nat where "opCount = 95"

definition opNames :: "string list" where
  "opNames =
     [''Unknown'', ''Preflight'', ''ListBuckets'', ''CreateBucket'', ''DeleteBucket'', ''HeadBucket'',
      ''ListObjects'', ''ListObjectsV2'', ''ListObjectVersions'', ''ListMultipartUploads'',
      ''DeleteObjects'', ''PostObject'', ''GetBucketLocation'', ''GetBucketAcl'', ''PutBucketAcl'',
      ''GetBucketCors'', ''PutBucketCors'', ''DeleteBucketCors'', ''GetBucketLifecycleConfiguration'',
      ''PutBucketLifecycleConfiguration'', ''DeleteBucketLifecycle'', ''GetBucketLogging'',
      ''PutBucketLogging'', ''GetBucketNotificationConfiguration'', ''PutBucketNotificationConfiguration'',
      ''GetObjectLockConfiguration'', ''PutObjectLockConfiguration'', ''GetBucketOwnershipControls'',
      ''PutBucketOwnershipControls'', ''DeleteBucketOwnershipControls'', ''GetBucketPolicy'',
      ''PutBucketPolicy'', ''DeleteBucketPolicy'', ''GetBucketPolicyStatus'', ''GetBucketReplication'',
      ''PutBucketReplication'', ''DeleteBucketReplication'', ''GetBucketRequestPayment'',
      ''PutBucketRequestPayment'', ''GetBucketTagging'', ''PutBucketTagging'', ''DeleteBucketTagging'',
      ''GetBucketVersioning'', ''PutBucketVersioning'', ''GetBucketWebsite'', ''PutBucketWebsite'',
      ''DeleteBucketWebsite'', ''GetBucketEncryption'', ''PutBucketEncryption'', ''DeleteBucketEncryption'',
      ''GetBucketAccelerateConfiguration'', ''PutBucketAccelerateConfiguration'', ''GetPublicAccessBlock'',
      ''PutPublicAccessBlock'', ''DeletePublicAccessBlock'', ''GetBucketAnalyticsConfiguration'',
      ''PutBucketAnalyticsConfiguration'', ''DeleteBucketAnalyticsConfiguration'',
      ''ListBucketAnalyticsConfigurations'', ''GetBucketIntelligentTieringConfiguration'',
      ''PutBucketIntelligentTieringConfiguration'', ''DeleteBucketIntelligentTieringConfiguration'',
      ''ListBucketIntelligentTieringConfigurations'', ''GetBucketInventoryConfiguration'',
      ''PutBucketInventoryConfiguration'', ''DeleteBucketInventoryConfiguration'',
      ''ListBucketInventoryConfigurations'', ''GetBucketMetricsConfiguration'',
      ''PutBucketMetricsConfiguration'', ''DeleteBucketMetricsConfiguration'',
      ''ListBucketMetricsConfigurations'', ''GetObject'', ''HeadObject'', ''PutObject'', ''CopyObject'',
      ''DeleteObject'', ''GetObjectAcl'', ''PutObjectAcl'', ''GetObjectAttributes'', ''GetObjectTagging'',
      ''PutObjectTagging'', ''DeleteObjectTagging'', ''GetObjectLegalHold'', ''PutObjectLegalHold'',
      ''GetObjectRetention'', ''PutObjectRetention'', ''GetObjectTorrent'', ''RestoreObject'',
      ''SelectObjectContent'', ''CreateMultipartUpload'', ''UploadPart'', ''UploadPartCopy'',
      ''CompleteMultipartUpload'', ''AbortMultipartUpload'', ''ListParts'']"

definition Ops :: "op list" where
  "Ops = filter (\<lambda>o'. opNames ! o' \<noteq> '''') [0..<opCount]"

definition opString :: "op \<Rightarrow> string" where
  "opString o' = (if o' < opCount \<and> opNames ! o' \<noteq> '''' then opNames ! o' else ''Unknown'')"

definition IsData :: "op \<Rightarrow> bool" where
  "IsData o' \<longleftrightarrow>
     o' \<in> {OpGetObject, OpPutObject, OpUploadPart, OpPostObject, OpSelectObjectContent,
            OpCopyObject, OpUploadPartCopy, OpUnknown}"

definition IsUnknown :: "op \<Rightarrow> bool" where
  "IsUnknown o' \<longleftrightarrow> o' = OpUnknown"

subsection \<open>The classifier table\<close>

datatype level = LevelService | LevelBucket | LevelObject

record rule =
  rlMethod :: string
  rlLevel :: level
  rlQuery :: "string list"
  rlValue :: "string \<times> string"
  rlHeader :: string
  rlOp :: op

definition hdrCopySource :: string where "hdrCopySource = ''X-Amz-Copy-Source''"

type_synonym subresource = "string \<times> op \<times> op \<times> op"

definition bucketSubresources :: "subresource list" where
  "bucketSubresources =
     [(''location'', OpGetBucketLocation, 0, 0),
      (''tagging'', OpGetBucketTagging, OpPutBucketTagging, OpDeleteBucketTagging),
      (''ownershipControls'', OpGetBucketOwnershipControls, OpPutBucketOwnershipControls, OpDeleteBucketOwnershipControls),
      (''versioning'', OpGetBucketVersioning, OpPutBucketVersioning, 0),
      (''policyStatus'', OpGetBucketPolicyStatus, 0, 0),
      (''policy'', OpGetBucketPolicy, OpPutBucketPolicy, OpDeleteBucketPolicy),
      (''cors'', OpGetBucketCors, OpPutBucketCors, OpDeleteBucketCors),
      (''object-lock'', OpGetObjectLockConfiguration, OpPutObjectLockConfiguration, 0),
      (''acl'', OpGetBucketAcl, OpPutBucketAcl, 0),
      (''uploads'', OpListMultipartUploads, 0, 0),
      (''versions'', OpListObjectVersions, 0, 0),
      (''encryption'', OpGetBucketEncryption, OpPutBucketEncryption, OpDeleteBucketEncryption),
      (''lifecycle'', OpGetBucketLifecycleConfiguration, OpPutBucketLifecycleConfiguration, OpDeleteBucketLifecycle),
      (''logging'', OpGetBucketLogging, OpPutBucketLogging, 0),
      (''requestPayment'', OpGetBucketRequestPayment, OpPutBucketRequestPayment, 0),
      (''replication'', OpGetBucketReplication, OpPutBucketReplication, OpDeleteBucketReplication),
      (''publicAccessBlock'', OpGetPublicAccessBlock, OpPutPublicAccessBlock, OpDeletePublicAccessBlock),
      (''notification'', OpGetBucketNotificationConfiguration, OpPutBucketNotificationConfiguration, 0),
      (''accelerate'', OpGetBucketAccelerateConfiguration, OpPutBucketAccelerateConfiguration, 0),
      (''website'', OpGetBucketWebsite, OpPutBucketWebsite, OpDeleteBucketWebsite)]"

type_synonym configured = "string \<times> op \<times> op \<times> op \<times> op"

definition bucketConfigured :: "configured list" where
  "bucketConfigured =
     [(''analytics'', OpGetBucketAnalyticsConfiguration, OpListBucketAnalyticsConfigurations,
       OpPutBucketAnalyticsConfiguration, OpDeleteBucketAnalyticsConfiguration),
      (''intelligent-tiering'', OpGetBucketIntelligentTieringConfiguration, OpListBucketIntelligentTieringConfigurations,
       OpPutBucketIntelligentTieringConfiguration, OpDeleteBucketIntelligentTieringConfiguration),
      (''inventory'', OpGetBucketInventoryConfiguration, OpListBucketInventoryConfigurations,
       OpPutBucketInventoryConfiguration, OpDeleteBucketInventoryConfiguration),
      (''metrics'', OpGetBucketMetricsConfiguration, OpListBucketMetricsConfigurations,
       OpPutBucketMetricsConfiguration, OpDeleteBucketMetricsConfiguration)]"

abbreviation (input) row :: "string \<Rightarrow> level \<Rightarrow> string list \<Rightarrow> op \<Rightarrow> rule" where
  "row m l q o' \<equiv> \<lparr>rlMethod = m, rlLevel = l, rlQuery = q, rlValue = ('''', ''''), rlHeader = '''', rlOp = o'\<rparr>"

definition configuredRules :: "configured \<Rightarrow> rule list" where
  "configuredRules c = (case c of (key, get, ls, put, d) \<Rightarrow>
     [row ''GET'' LevelBucket [key, ''id''] get, row ''GET'' LevelBucket [key] ls,
      row ''PUT'' LevelBucket [key] put, row ''DELETE'' LevelBucket [key] d])"

definition subresourceRules :: "subresource \<Rightarrow> rule list" where
  "subresourceRules s = (case s of (key, get, put, d) \<Rightarrow>
     (if get \<noteq> 0 then [row ''GET'' LevelBucket [key] get] else [])
   @ (if put \<noteq> 0 then [row ''PUT'' LevelBucket [key] put] else [])
   @ (if d \<noteq> 0 then [row ''DELETE'' LevelBucket [key] d] else []))"

definition bucketFallbackRules :: "rule list" where
  "bucketFallbackRules =
     [(row ''GET'' LevelBucket [] OpListObjectsV2)\<lparr>rlValue := (''list-type'', ''2'')\<rparr>,
      row ''GET'' LevelBucket [] OpListObjects,
      row ''HEAD'' LevelBucket [] OpHeadBucket,
      row ''PUT'' LevelBucket [] OpCreateBucket,
      row ''DELETE'' LevelBucket [] OpDeleteBucket,
      row ''POST'' LevelBucket [''delete''] OpDeleteObjects,
      row ''POST'' LevelBucket [] OpPostObject]"

definition objectRules :: "rule list" where
  "objectRules =
     [row ''GET'' LevelObject [''acl''] OpGetObjectAcl,
      row ''GET'' LevelObject [''attributes''] OpGetObjectAttributes,
      row ''GET'' LevelObject [''legal-hold''] OpGetObjectLegalHold,
      row ''GET'' LevelObject [''retention''] OpGetObjectRetention,
      row ''GET'' LevelObject [''tagging''] OpGetObjectTagging,
      row ''GET'' LevelObject [''uploadId''] OpListParts,
      row ''GET'' LevelObject [''torrent''] OpGetObjectTorrent,
      row ''GET'' LevelObject [''uploads''] OpUnknown,
      row ''GET'' LevelObject [''versions''] OpUnknown,
      row ''GET'' LevelObject [] OpGetObject,
      row ''HEAD'' LevelObject [] OpHeadObject,
      row ''DELETE'' LevelObject [''uploadId''] OpAbortMultipartUpload,
      row ''DELETE'' LevelObject [''tagging''] OpDeleteObjectTagging,
      row ''DELETE'' LevelObject [] OpDeleteObject,
      row ''POST'' LevelObject [''uploads''] OpCreateMultipartUpload,
      row ''POST'' LevelObject [''uploadId''] OpCompleteMultipartUpload,
      row ''POST'' LevelObject [''restore''] OpRestoreObject,
      (row ''POST'' LevelObject [''select''] OpSelectObjectContent)\<lparr>rlValue := (''select-type'', ''2'')\<rparr>,
      row ''PUT'' LevelObject [''tagging''] OpPutObjectTagging,
      row ''PUT'' LevelObject [''retention''] OpPutObjectRetention,
      row ''PUT'' LevelObject [''legal-hold''] OpPutObjectLegalHold,
      row ''PUT'' LevelObject [''acl''] OpPutObjectAcl,
      (row ''PUT'' LevelObject [''uploadId'', ''partNumber''] OpUploadPartCopy)\<lparr>rlHeader := hdrCopySource\<rparr>,
      row ''PUT'' LevelObject [''uploadId'', ''partNumber''] OpUploadPart,
      (row ''PUT'' LevelObject [] OpCopyObject)\<lparr>rlHeader := hdrCopySource\<rparr>,
      row ''PUT'' LevelObject [] OpPutObject]"

definition rules :: "rule list" where
  "rules =
     [row ''GET'' LevelService [] OpListBuckets]
   @ concat (map configuredRules bucketConfigured)
   @ concat (map subresourceRules bucketSubresources)
   @ bucketFallbackRules
   @ objectRules"

text \<open>\<^verbatim>\<open>url.Values\<close> and \<^verbatim>\<open>http.Header\<close>: \<^verbatim>\<open>Get\<close> is the first value, or the empty string.\<close>

type_synonym urlvalues = "(string, string list) fmap"

definition getFirst :: "urlvalues \<Rightarrow> string \<Rightarrow> string" where
  "getFirst q k = (case fmlookup q k of Some (v # _) \<Rightarrow> v | _ \<Rightarrow> '''')"

definition matches :: "rule \<Rightarrow> urlvalues \<Rightarrow> urlvalues \<Rightarrow> bool" where
  "matches r q h \<longleftrightarrow>
     list_all (hasKey q) (rlQuery r)
   \<and> \<not> (fst (rlValue r) \<noteq> '''' \<and> getFirst q (fst (rlValue r)) \<noteq> snd (rlValue r))
   \<and> \<not> (rlHeader r \<noteq> '''' \<and> getFirst h (rlHeader r) = '''')"

fun firstRule :: "string \<Rightarrow> level \<Rightarrow> urlvalues \<Rightarrow> urlvalues \<Rightarrow> rule list \<Rightarrow> op" where
  "firstRule m l q h [] = OpUnknown"
| "firstRule m l q h (r # rs) =
     (if rlMethod r \<noteq> m \<or> rlLevel r \<noteq> l then firstRule m l q h rs
      else if \<not> matches r q h then firstRule m l q h rs
      else rlOp r)"

definition classify :: "string \<Rightarrow> level \<Rightarrow> urlvalues \<Rightarrow> urlvalues \<Rightarrow> op" where
  "classify m l q h = (if m = ''OPTIONS'' then OpPreflight else firstRule m l q h rules)"

subsection \<open>Requests\<close>

datatype style = StylePath | StyleVirtualHost

record request_info =
  riBucket :: string
  riKey :: string
  riOp :: op
  riStyle :: style
  riLevel :: level
  riQuery :: urlvalues

record domains =
  dSuffixes :: "string list"
  dBare :: "string list"

text \<open>The library functions the parser calls. Lower-casing is that of ASCII, which is what a host header
  may hold. \<open>splitHostPort\<close> is \<^verbatim>\<open>net.SplitHostPort\<close> and \<open>pathUnescape\<close> is \<^verbatim>\<open>url.PathUnescape\<close>, with
  \<open>None\<close> for an error.\<close>

definition toLower :: "string \<Rightarrow> string" where
  "toLower s = map (\<lambda>c. if isUpper c then char_of (of_char c + (32::nat)) else c) s"

definition trimPrefix :: "string \<Rightarrow> string \<Rightarrow> string" where
  "trimPrefix s p = (if prefix p s then drop (length p) s else s)"

definition trimSuffix :: "string \<Rightarrow> string \<Rightarrow> string" where
  "trimSuffix s p = (if suffix p s then take (length s - length p) s else s)"

definition splitHostPort :: "string \<Rightarrow> (string \<times> string) option" where
  "splitHostPort hp =
     (if CHR '':'' \<notin> set hp then None
      else let i = length hp - 1 - length (takeWhile (\<lambda>c. c \<noteq> CHR '':'') (rev hp)) in
        if hd hp = CHR ''['' then
          let e = length (takeWhile (\<lambda>c. c \<noteq> CHR '']'') hp) in
          if CHR '']'' \<notin> set hp \<or> e + 1 \<noteq> i \<or> CHR ''['' \<in> set (drop 1 hp) \<or> CHR '']'' \<in> set (drop (e + 1) hp)
          then None else Some (take (e - 1) (drop 1 hp), drop (i + 1) hp)
        else if CHR '':'' \<in> set (take i hp) \<or> CHR ''['' \<in> set hp \<or> CHR '']'' \<in> set hp
        then None else Some (take i hp, drop (i + 1) hp))"

definition unhex :: "char \<Rightarrow> nat option" where
  "unhex c = (let n = of_char c :: nat in
     if 48 \<le> n \<and> n \<le> 57 then Some (n - 48)
     else if 97 \<le> n \<and> n \<le> 102 then Some (n - 87)
     else if 65 \<le> n \<and> n \<le> 70 then Some (n - 55) else None)"

fun pathUnescape :: "string \<Rightarrow> string option" where
  "pathUnescape [] = Some []"
| "pathUnescape (c # cs) =
     (if c = CHR ''%'' then
        (case cs of
           a # b # rest \<Rightarrow>
             (case (unhex a, unhex b) of
                (Some x, Some y) \<Rightarrow> map_option ((#) (char_of (16 * x + y))) (pathUnescape rest)
              | _ \<Rightarrow> None)
         | _ \<Rightarrow> None)
      else map_option ((#) c) (pathUnescape cs))"

definition NewDomains :: "string list \<Rightarrow> domains" where
  "NewDomains entries =
     (let bases = concat (map (\<lambda>e. let e = toLower (trimSuffix e ''.'') in
                                   if e = '''' then [] else [trimPrefix e ''*.'']) entries)
      in \<lparr>dSuffixes = map ((@) ''.'') bases, dBare = bases\<rparr>)"

fun hostBucket :: "string \<Rightarrow> (string \<times> string) list \<Rightarrow> string" where
  "hostBucket host [] = ''''"
| "hostBucket host ((suf, bare) # ds) =
     (if host = bare then ''''
      else if suffix suf host \<and> length suf < length host then take (length host - length suf) host
      else hostBucket host ds)"

definition bucketFromHost :: "domains \<Rightarrow> string \<Rightarrow> string" where
  "bucketFromHost d host =
     (let host = toLower host;
          host = (case splitHostPort host of Some (h, _) \<Rightarrow> h | None \<Rightarrow> host)
      in hostBucket host (zip (dSuffixes d) (dBare d)))"

definition unescape :: "string \<Rightarrow> string" where
  "unescape s = (if CHR ''%'' \<notin> set s then s else case pathUnescape s of Some u \<Rightarrow> u | None \<Rightarrow> s)"

definition DecodeListingKey :: "string \<Rightarrow> string" where
  "DecodeListingKey s = (if CHR ''%'' \<notin> set s then s else case pathUnescape s of Some d \<Rightarrow> d | None \<Rightarrow> s)"

record http_request =
  hrMethod :: string
  hrHost :: string
  hrEscapedPath :: string
  hrQuery :: urlvalues
  hrHeader :: urlvalues

definition Parse :: "http_request \<Rightarrow> domains \<Rightarrow> request_info" where
  "Parse r d =
     (let info = \<lparr>riBucket = '''', riKey = '''', riOp = OpUnknown, riStyle = StylePath,
                  riLevel = LevelService, riQuery = hrQuery r\<rparr>;
          rest = trimPrefix (hrEscapedPath r) ''/'';
          b = bucketFromHost d (hrHost r);
          bucket = takeWhile (\<lambda>c. c \<noteq> CHR ''/'') rest;
          hasKey = (CHR ''/'' \<in> set rest);
          key = drop (length bucket + 1) rest;
          info =
            (if b \<noteq> '''' then
               let info = info\<lparr>riStyle := StyleVirtualHost, riBucket := b, riLevel := LevelBucket\<rparr>
               in if rest \<noteq> '''' then info\<lparr>riLevel := LevelObject, riKey := unescape rest\<rparr> else info
             else if bucket \<noteq> '''' then
               let info = info\<lparr>riBucket := bucket, riLevel := LevelBucket\<rparr>
               in if hasKey \<and> key \<noteq> '''' then info\<lparr>riLevel := LevelObject, riKey := unescape key\<rparr>
                  else if hasKey then info\<lparr>riLevel := LevelBucket\<rparr> else info
             else info)
      in info\<lparr>riOp := classify (hrMethod r) (riLevel info) (riQuery info) (hrHeader r)\<rparr>)"

subsection \<open>Bucket names and credential faults\<close>

definition reservedBucketPrefixes :: "string list" where
  "reservedBucketPrefixes = [''xn--'', ''sthree-'', ''amzn-s3-demo-'']"

definition reservedBucketSuffixes :: "string list" where
  "reservedBucketSuffixes = [''-s3alias'', ''--ol-s3'', ''.mrap'', ''--x-s3'', ''--table-s3'']"

text \<open>\<^verbatim>\<open>net.ParseIP\<close> of a string without a colon: four decimal fields up to 255, with no leading zero.\<close>

fun ipv4Fields :: "nat \<Rightarrow> nat \<Rightarrow> nat \<Rightarrow> string \<Rightarrow> bool" where
  "ipv4Fields pos digs val [] \<longleftrightarrow> pos = 3 \<and> 0 < digs"
| "ipv4Fields pos digs val (c # cs) \<longleftrightarrow>
     (if isDigit c then
        let val' = 10 * val + (of_char c - 48)
        in \<not> (digs = 1 \<and> val = 0) \<and> val' \<le> 255 \<and> ipv4Fields pos (digs + 1) val' cs
      else c = CHR ''.'' \<and> 0 < digs \<and> pos < 3 \<and> ipv4Fields (pos + 1) 0 0 cs)"

definition isIPv4 :: "string \<Rightarrow> bool" where
  "isIPv4 s = ipv4Fields 0 0 0 s"

definition bucketByteOK :: "string \<Rightarrow> nat \<Rightarrow> bool" where
  "bucketByteOK name i =
     (let c = name ! i in
      if isLower c \<or> isDigit c then True
      else if c = CHR ''.'' \<or> c = CHR ''-'' then
        \<not> (i = 0 \<or> i = length name - 1) \<and> \<not> (c = CHR ''.'' \<and> name ! (i - 1) = CHR ''.'')
      else False)"

definition ValidBucketName :: "string \<Rightarrow> bool" where
  "ValidBucketName name \<longleftrightarrow>
     3 \<le> length name \<and> length name \<le> 63
   \<and> list_all (bucketByteOK name) [0..<length name]
   \<and> \<not> isIPv4 name
   \<and> \<not> list_ex (\<lambda>p. prefix p name) reservedBucketPrefixes
   \<and> \<not> list_ex (\<lambda>s. suffix s name) reservedBucketSuffixes"

datatype credential_fault = FaultNone | FaultSignature | FaultUnknownKey

definition ClassifyCredentialError :: "string \<Rightarrow> string \<Rightarrow> credential_fault" where
  "ClassifyCredentialError code message =
     (if code = ''SignatureDoesNotMatch'' then FaultSignature
      else if code = ''InvalidAccessKeyId'' then FaultUnknownKey
      else if code = ''AccessDenied'' then
        (if sublist ''Invalid signature'' message then FaultSignature
         else if sublist ''No such key'' message then FaultUnknownKey else FaultNone)
      else FaultNone)"

subsection \<open>What the classifier gives\<close>

text \<open>The level an operation belongs to, read off the groups of \<^verbatim>\<open>op.go\<close>.\<close>

definition opLevel :: "op \<Rightarrow> level" where
  "opLevel o' = (if o' < OpCreateBucket then LevelService else if o' < OpGetObject then LevelBucket else LevelObject)"

lemma firstRule_cases:
  "firstRule m l q h rs = OpUnknown \<or>
   (\<exists>r \<in> set rs. rlMethod r = m \<and> rlLevel r = l \<and> matches r q h \<and> firstRule m l q h rs = rlOp r)"
  by (induction rs) auto

lemma rules_level: "list_all (\<lambda>r. rlOp r = OpUnknown \<or> opLevel (rlOp r) = rlLevel r) rules"
  by code_simp

lemma classify_level_cases:
  "classify m l q h = OpUnknown \<or> classify m l q h = OpPreflight \<or> opLevel (classify m l q h) = l"
proof (cases "m = ''OPTIONS''")
  case False
  then show ?thesis
    using firstRule_cases [of m l q h rules] rules_level by (auto simp: classify_def list_all_iff)
qed (simp add: classify_def)

lemma firstRule_append:
  "(\<And>r. r \<in> set rs \<Longrightarrow> rlMethod r = m \<Longrightarrow> rlLevel r \<noteq> l) \<Longrightarrow> firstRule m l q h (rs @ rs') = firstRule m l q h rs'"
  by (induction rs) auto

lemma classify_object: "m \<noteq> ''OPTIONS'' \<Longrightarrow> classify m LevelObject q h = firstRule m LevelObject q h objectRules"
proof -
  assume "m \<noteq> ''OPTIONS''"
  have "list_all (\<lambda>r. rlLevel r \<noteq> LevelObject)
     ([row ''GET'' LevelService [] OpListBuckets] @ concat (map configuredRules bucketConfigured)
      @ concat (map subresourceRules bucketSubresources) @ bucketFallbackRules)"
    by code_simp
  then have "firstRule m LevelObject q h
      (([row ''GET'' LevelService [] OpListBuckets] @ concat (map configuredRules bucketConfigured)
      @ concat (map subresourceRules bucketSubresources) @ bucketFallbackRules) @ objectRules)
    = firstRule m LevelObject q h objectRules"
    by (intro firstRule_append) (simp only: list_all_iff, blast)
  with \<open>m \<noteq> ''OPTIONS''\<close> show ?thesis by (simp add: classify_def rules_def)
qed

lemma classify_object_PUT:
  "classify ''PUT'' LevelObject q h =
     (if hasKey q ''tagging'' then OpPutObjectTagging
      else if hasKey q ''retention'' then OpPutObjectRetention
      else if hasKey q ''legal-hold'' then OpPutObjectLegalHold
      else if hasKey q ''acl'' then OpPutObjectAcl
      else if hasKey q ''uploadId'' \<and> hasKey q ''partNumber''
      then (if getFirst h hdrCopySource \<noteq> '''' then OpUploadPartCopy else OpUploadPart)
      else if getFirst h hdrCopySource \<noteq> '''' then OpCopyObject
      else OpPutObject)"
  by (simp add: classify_object objectRules_def matches_def hdrCopySource_def)

lemma opNames_total: "length opNames = opCount" "'''' \<notin> set opNames"
  by (simp_all add: opNames_def opCount_def)

text \<open>Every operation has a name, so \<open>Ops\<close> lists them all and \<open>opString\<close> reads the table.\<close>

lemma Ops_eq: "Ops = [0..<opCount]"
proof -
  have "opNames ! o' \<noteq> ''''" if "o' < opCount" for o'
    using that opNames_total nth_mem by metis
  then show ?thesis by (simp add: Ops_def filter_id_conv)
qed

lemma opString_eq: "o' \<in> set Ops \<Longrightarrow> opString o' = opNames ! o'"
  by (auto simp: Ops_def opString_def)

subsection \<open>What the parser gives\<close>

lemma pathUnescape_Nil: "pathUnescape s = Some [] \<Longrightarrow> s = []"
  by (cases s) (auto split: if_splits list.splits option.splits)

lemma unescape_Nil [simp]: "unescape s = [] \<longleftrightarrow> s = []"
  by (auto simp: unescape_def split: option.splits dest: pathUnescape_Nil)

lemma hostBucket_bound: "\<exists>suf. hostBucket host ds = '''' \<or> (hostBucket host ds \<noteq> '''' \<and> host = hostBucket host ds @ suf)"
proof (induction host ds rule: hostBucket.induct)
  case (2 host suf bare ds)
  then show ?case by (auto simp: suffix_def)
qed simp

lemma takeWhile_no_slash: "CHR ''/'' \<notin> set (takeWhile (\<lambda>c. c \<noteq> CHR ''/'') s)"
  by (metis set_takeWhileD)

lemma Parse_cases:
  "riLevel (Parse r d) = LevelService \<longleftrightarrow> riBucket (Parse r d) = ''''"
  "riLevel (Parse r d) = LevelObject \<longleftrightarrow> riKey (Parse r d) \<noteq> ''''"
  "riStyle (Parse r d) = StylePath \<Longrightarrow> CHR ''/'' \<notin> set (riBucket (Parse r d))"
  "riOp (Parse r d) = classify (hrMethod r) (riLevel (Parse r d)) (hrQuery r) (hrHeader r)"
  by (auto simp: Parse_def Let_def takeWhile_no_slash)

lemma Parse_double_slash:
  assumes "bucketFromHost d (hrHost r) = ''''" "prefix ''//'' (hrEscapedPath r)"
  shows "riLevel (Parse r d) = LevelService" "riOp (Parse r d) = classify (hrMethod r) LevelService (hrQuery r) (hrHeader r)"
  using assms by (auto simp: Parse_def Let_def trimPrefix_def prefix_def)

lemma ValidBucketName_chars:
  assumes "ValidBucketName name" "c \<in> set name"
  shows "isLower c \<or> isDigit c \<or> c = CHR ''.'' \<or> c = CHR ''-''"
proof -
  obtain i where i: "i < length name" "c = name ! i" using assms(2) by (metis in_set_conv_nth)
  then have "bucketByteOK name i" using assms(1) by (simp add: ValidBucketName_def list_all_iff)
  with i show ?thesis by (auto simp: bucketByteOK_def Let_def split: if_splits)
qed

lemma ValidBucketName_no_slash: "ValidBucketName name \<Longrightarrow> CHR ''/'' \<notin> set name"
  using ValidBucketName_chars [of name "CHR ''/''"] by (auto simp: isLower_def isDigit_def less_eq_char_def)

lemma ValidBucketName_nonempty: "\<not> ValidBucketName ''''"
  by (simp add: ValidBucketName_def)

end
