(* ===== verification/Float64.thy ===== *)
theory Float64
  imports Prelude "HOL-Library.Log_Nat"
begin

text \<open>
  Go's \<^verbatim>\<open>float64\<close> as far as shunt computes with it: ramp ratios, move shares, and the products
  and conversions that turn them into points of the 64-bit hash space.

  A value is a rational, an infinity or NaN; the sign of zero is not kept, since no code of shunt
  reads it. \<open>fround\<close> is IEEE 754 rounding to the nearest double, ties to even, with the subnormal
  range; every operation rounds its exact result with it. A conversion to \<^verbatim>\<open>uint64\<close> of a value
  out of range is implementation-defined in Go and \<open>undefined\<close> here: nothing can be proved of it.
\<close>

subsection \<open>Rounding\<close>

definition pow2 :: "int \<Rightarrow> rat" where
  "pow2 e = (if 0 \<le> e then of_int (2 ^ nat e) else 1 / of_int (2 ^ nat (- e)))"

text \<open>Round half to even, to an integer.\<close>

definition rne :: "rat \<Rightarrow> int" where
  "rne x = (let f = \<lfloor>x\<rfloor>; d = x - of_int f
            in if d < 1 / 2 then f else if 1 / 2 < d then f + 1 else if even f then f else f + 1)"

text \<open>The exponent of the leading bit of a positive rational.\<close>

definition lead_exp :: "rat \<Rightarrow> int" where
  "lead_exp x = (let (a, b) = quotient_of x; k = bitlen a - bitlen b
                 in if pow2 k \<le> x then k else k - 1)"

definition ulp_exp :: "rat \<Rightarrow> int" where
  "ulp_exp x = max (- 1074) (lead_exp x - 52)"

definition fround_pos :: "rat \<Rightarrow> rat" where
  "fround_pos x = of_int (rne (x / pow2 (ulp_exp x))) * pow2 (ulp_exp x)"

definition fround :: "rat \<Rightarrow> rat" where
  "fround x = (if x = 0 then 0 else if 0 < x then fround_pos x else - fround_pos (- x))"

subsection \<open>Values and operations\<close>

datatype float64 = Fin rat | PInf | NInf | NaN

fun flt :: "float64 \<Rightarrow> float64 \<Rightarrow> bool" where
  "flt (Fin x) (Fin y) = (x < y)"
| "flt NInf (Fin _) = True"
| "flt NInf PInf = True"
| "flt (Fin _) PInf = True"
| "flt _ _ = False"

fun feq :: "float64 \<Rightarrow> float64 \<Rightarrow> bool" where
  "feq NaN _ = False"
| "feq x y = (x = y)"

definition fle :: "float64 \<Rightarrow> float64 \<Rightarrow> bool" where
  "fle x y = (flt x y \<or> feq x y)"

definition isNaN :: "float64 \<Rightarrow> bool" where
  "isNaN x = (x = NaN)"

text \<open>A rounded result past the largest double is an infinity.\<close>

definition ofRat :: "rat \<Rightarrow> float64" where
  "ofRat x = (let y = fround x
              in if y \<noteq> 0 \<and> 1024 \<le> lead_exp \<bar>y\<bar> then (if 0 < y then PInf else NInf) else Fin y)"

fun fadd :: "float64 \<Rightarrow> float64 \<Rightarrow> float64" where
  "fadd (Fin x) (Fin y) = ofRat (x + y)"
| "fadd NaN _ = NaN"
| "fadd _ NaN = NaN"
| "fadd PInf NInf = NaN"
| "fadd NInf PInf = NaN"
| "fadd PInf _ = PInf"
| "fadd _ PInf = PInf"
| "fadd NInf _ = NInf"
| "fadd _ NInf = NInf"

definition infSign :: "rat \<Rightarrow> float64" where
  "infSign x = (if x = 0 then NaN else if 0 < x then PInf else NInf)"

fun fmul :: "float64 \<Rightarrow> float64 \<Rightarrow> float64" where
  "fmul (Fin x) (Fin y) = ofRat (x * y)"
| "fmul NaN _ = NaN"
| "fmul _ NaN = NaN"
| "fmul PInf PInf = PInf"
| "fmul NInf NInf = PInf"
| "fmul PInf NInf = NInf"
| "fmul NInf PInf = NInf"
| "fmul PInf (Fin x) = infSign x"
| "fmul (Fin x) PInf = infSign x"
| "fmul NInf (Fin x) = infSign (- x)"
| "fmul (Fin x) NInf = infSign (- x)"

text \<open>\<^verbatim>\<open>max\<close>, with NaN contagious, and \<^verbatim>\<open>math.Round\<close>, half away from zero.\<close>

definition fmax :: "float64 \<Rightarrow> float64 \<Rightarrow> float64" where
  "fmax x y = (if isNaN x \<or> isNaN y then NaN else if flt x y then y else x)"

definition mathRound :: "float64 \<Rightarrow> float64" where
  "mathRound x = (case x of
     Fin q \<Rightarrow> Fin (of_int (if 0 \<le> q then \<lfloor>q + 1 / 2\<rfloor> else \<lceil>q - 1 / 2\<rceil>))
   | _ \<Rightarrow> x)"

definition uval :: "u64 \<Rightarrow> rat" where
  "uval h = of_int (uint h)"

definition ofU64 :: "u64 \<Rightarrow> float64" where
  "ofU64 h = ofRat (uval h)"

definition toU64 :: "float64 \<Rightarrow> u64" where
  "toU64 x = (case x of
     Fin q \<Rightarrow> (let n = (if 0 \<le> q then \<lfloor>q\<rfloor> else \<lceil>q\<rceil>)
               in if 0 \<le> n \<and> n < 2 ^ 64 then word_of_int n else undefined)
   | _ \<Rightarrow> undefined)"

text \<open>Doubles: the rationals that rounding leaves alone.\<close>

definition isDouble :: "float64 \<Rightarrow> bool" where
  "isDouble x = (case x of Fin q \<Rightarrow> fround q = q | _ \<Rightarrow> True)"

subsection \<open>Rounding is monotone\<close>

lemma pow2_powi: "pow2 e = 2 powi e"
  by (simp add: pow2_def power_int_def field_simps)

lemma pow2_pos [simp]: "0 < pow2 e"
  by (simp add: pow2_powi)

lemma pow2_nonneg [simp]: "0 \<le> pow2 e"
  by (simp add: pow2_powi)

lemma pow2_neq_0 [simp]: "pow2 e \<noteq> 0"
  by (simp add: pow2_powi)

lemma pow2_add: "pow2 (a + b) = pow2 a * pow2 b"
  by (simp add: pow2_powi power_int_add)

lemma pow2_mono: "a \<le> b \<Longrightarrow> pow2 a \<le> pow2 b"
  by (simp add: pow2_powi power_int_increasing)

lemma pow2_int: "0 \<le> e \<Longrightarrow> pow2 e = of_int (2 ^ nat e)"
  by (simp add: pow2_def)

lemma of_int_less_pow2: "0 \<le> e \<Longrightarrow> n < 2 ^ nat e \<Longrightarrow> of_int n < pow2 e"
  by (simp only: pow2_int of_int_less_iff)

lemma of_int_le_pow2: "0 \<le> e \<Longrightarrow> n \<le> 2 ^ nat e \<Longrightarrow> of_int n \<le> pow2 e"
  by (simp only: pow2_int of_int_le_iff)

lemma pow2_le_of_int: "0 \<le> e \<Longrightarrow> 2 ^ nat e \<le> n \<Longrightarrow> pow2 e \<le> of_int n"
  by (simp only: pow2_int of_int_le_iff)

lemma pow2_split: "pow2 n = pow2 (n - u) * pow2 u"
  by (metis diff_add_cancel pow2_add)

lemma rne_between: "\<lfloor>x\<rfloor> \<le> rne x \<and> rne x \<le> \<lfloor>x\<rfloor> + 1"
  by (simp add: rne_def Let_def)

lemma rne_of_int [simp]: "rne (of_int n) = n"
  by (simp add: rne_def)

lemma rne_mono:
  assumes "x \<le> y"
  shows "rne x \<le> rne y"
proof (cases "\<lfloor>x\<rfloor> = \<lfloor>y\<rfloor>")
  case True
  with assms show ?thesis by (auto simp: rne_def Let_def)
next
  case False
  with assms have "\<lfloor>x\<rfloor> + 1 \<le> \<lfloor>y\<rfloor>" by (meson add1_zle_eq floor_mono order_less_le)
  then show ?thesis using rne_between [of x] rne_between [of y] by linarith
qed

lemma lead_exp_bounds:
  assumes "0 < x"
  shows "pow2 (lead_exp x) \<le> x" and "x < pow2 (lead_exp x + 1)"
proof -
  obtain a b where q: "quotient_of x = (a, b)" by fastforce
  then have b: "0 < b" and x: "x = of_int a / of_int b"
    by (auto intro: quotient_of_denom_pos quotient_of_div)
  with assms have a: "0 < a" by (simp add: zero_less_divide_iff)
  define k where "k = bitlen a - bitlen b"
  note A = bitlen_bounds [OF a] and B = bitlen_bounds [OF b]
  have la: "1 \<le> bitlen a" and lb: "1 \<le> bitlen b"
    using a b bitlen_le_iff_power [of a 0] bitlen_le_iff_power [of b 0] by (auto simp: not_le)
  have up: "x < pow2 (k + 1)"
  proof -
    have "of_int a < pow2 (bitlen a)"
      using A la by (intro of_int_less_pow2) simp_all
    also have "pow2 (bitlen a) = pow2 (k + 1) * pow2 (bitlen b - 1)"
      using pow2_split [of "bitlen a" "bitlen b - 1"] by (simp add: k_def algebra_simps)
    also have "\<dots> \<le> pow2 (k + 1) * of_int b"
      using B lb by (intro mult_left_mono pow2_le_of_int) (simp_all add: less_imp_le)
    finally show ?thesis using b x by (simp add: divide_less_eq)
  qed
  have lo: "pow2 (k - 1) \<le> x"
  proof -
    have "pow2 (k - 1) * of_int b \<le> pow2 (k - 1) * pow2 (bitlen b)"
      using B lb by (intro mult_left_mono of_int_le_pow2) (simp_all add: less_imp_le)
    also have "\<dots> = pow2 (bitlen a - 1)"
      using pow2_split [of "bitlen a - 1" "bitlen b"] by (simp add: k_def algebra_simps)
    also have "\<dots> \<le> of_int a"
      using A la by (intro pow2_le_of_int) simp_all
    finally show ?thesis using b x by (simp add: le_divide_eq)
  qed
  have "lead_exp x = (if pow2 k \<le> x then k else k - 1)"
    by (simp add: lead_exp_def q k_def)
  with up lo show "pow2 (lead_exp x) \<le> x" and "x < pow2 (lead_exp x + 1)"
    by (auto split: if_splits)
qed

lemma lead_exp_mono:
  assumes "0 < x" "x \<le> y"
  shows "lead_exp x \<le> lead_exp y"
proof (rule ccontr)
  assume "\<not> lead_exp x \<le> lead_exp y"
  then have "pow2 (lead_exp y + 1) \<le> pow2 (lead_exp x)" by (intro pow2_mono) simp
  with lead_exp_bounds [of x] lead_exp_bounds [of y] assms show False by linarith
qed

text \<open>No value at or below a power of two that the grid of \<open>x\<close> contains rounds past it.\<close>

lemma fround_pos_le_pow2:
  assumes "x \<le> pow2 n" "ulp_exp x \<le> n"
  shows "fround_pos x \<le> pow2 n"
proof -
  let ?u = "ulp_exp x"
  have n: "pow2 n = pow2 (n - ?u) * pow2 ?u" by (rule pow2_split)
  have "x / pow2 ?u \<le> pow2 (n - ?u)" using assms(1) by (simp add: divide_le_eq flip: n)
  also have "\<dots> = of_int (2 ^ nat (n - ?u))" using assms(2) by (simp add: pow2_int)
  finally have "rne (x / pow2 ?u) \<le> 2 ^ nat (n - ?u)"
    by (metis rne_mono rne_of_int)
  then have "of_int (rne (x / pow2 ?u)) \<le> pow2 (n - ?u)"
    using assms(2) by (intro of_int_le_pow2) simp_all
  then show ?thesis unfolding fround_pos_def by (subst n) (intro mult_right_mono, simp_all add: less_imp_le)
qed

lemma pow2_le_fround_pos:
  assumes "pow2 n \<le> x" "ulp_exp x \<le> n"
  shows "pow2 n \<le> fround_pos x"
proof -
  let ?u = "ulp_exp x"
  have n: "pow2 n = pow2 (n - ?u) * pow2 ?u" by (rule pow2_split)
  have "of_int (2 ^ nat (n - ?u)) = pow2 (n - ?u)" using assms(2) by (simp add: pow2_int)
  also have "\<dots> \<le> x / pow2 ?u" using assms(1) by (simp add: le_divide_eq flip: n)
  finally have "2 ^ nat (n - ?u) \<le> rne (x / pow2 ?u)"
    by (metis rne_mono rne_of_int)
  then have "pow2 (n - ?u) \<le> of_int (rne (x / pow2 ?u))"
    using assms(2) by (intro pow2_le_of_int) simp_all
  then show ?thesis unfolding fround_pos_def by (subst n) (intro mult_right_mono, simp_all add: less_imp_le)
qed

lemma fround_pos_mono:
  assumes "0 < x" "x \<le> y"
  shows "fround_pos x \<le> fround_pos y"
proof (cases "ulp_exp x = ulp_exp y")
  case True
  have "x / pow2 (ulp_exp y) \<le> y / pow2 (ulp_exp y)"
    using assms by (simp add: divide_right_mono less_imp_le)
  with True show ?thesis by (simp add: fround_pos_def rne_mono mult_right_mono)
next
  case False
  with lead_exp_mono [OF assms]
  have u: "ulp_exp x < ulp_exp y" "ulp_exp y = lead_exp y - 52" "lead_exp x < lead_exp y"
    by (auto simp: ulp_exp_def)
  have "x \<le> pow2 (lead_exp y)"
  proof -
    have "x < pow2 (lead_exp x + 1)" by (rule lead_exp_bounds(2) [OF assms(1)])
    also have "\<dots> \<le> pow2 (lead_exp y)" using u by (intro pow2_mono) simp
    finally show ?thesis by simp
  qed
  then have "fround_pos x \<le> pow2 (lead_exp y)" using u by (intro fround_pos_le_pow2) simp_all
  also have "\<dots> \<le> fround_pos y"
    using assms u by (intro pow2_le_fround_pos lead_exp_bounds) simp_all
  finally show ?thesis .
qed

lemma fround_pos_nonneg: "0 < x \<Longrightarrow> 0 \<le> fround_pos x"
  using rne_mono [of 0 "x / pow2 (ulp_exp x)"] rne_of_int [of 0] pow2_pos [of "ulp_exp x"]
  by (simp add: fround_pos_def zero_le_mult_iff)

lemma fround_mono: "x \<le> y \<Longrightarrow> fround x \<le> fround y"
  using fround_pos_mono [of x y] fround_pos_mono [of "- y" "- x"]
    fround_pos_nonneg [of "- x"] fround_pos_nonneg [of y]
  by (auto simp: fround_def)

lemma fround_0 [simp]: "fround 0 = 0"
  by (simp add: fround_def)

lemma fround_nonneg: "0 \<le> x \<Longrightarrow> 0 \<le> fround x"
  using fround_mono [of 0 x] by simp

subsection \<open>Results that stay finite\<close>

lemma pow2_less_iff [simp]: "pow2 a < pow2 b \<longleftrightarrow> a < b"
  by (metis linorder_not_less pow2_mono pow2_powi power_int_strict_increasing one_less_numeral_iff
      semiring_norm(76))

lemma pow2_le_iff [simp]: "pow2 a \<le> pow2 b \<longleftrightarrow> a \<le> b"
  by (simp flip: not_less)

lemma lead_exp_le: "0 < x \<Longrightarrow> x \<le> pow2 n \<Longrightarrow> lead_exp x \<le> n"
  using lead_exp_bounds(1) [of x] pow2_le_iff order_trans by blast

lemma fround_le_pow2:
  assumes "0 \<le> x" "x \<le> pow2 n" "- 1074 \<le> n"
  shows "fround x \<le> pow2 n"
proof (cases "x = 0")
  case False
  with assms have "lead_exp x \<le> n" by (intro lead_exp_le) simp_all
  with assms False show ?thesis by (simp add: fround_def fround_pos_le_pow2 ulp_exp_def)
qed simp

lemma ofRat_Fin:
  assumes "0 \<le> x" "x \<le> pow2 1000"
  shows "ofRat x = Fin (fround x)"
proof -
  have "0 \<le> fround x" "fround x \<le> pow2 1000"
    using assms fround_nonneg fround_le_pow2 by simp_all
  then have "fround x \<noteq> 0 \<Longrightarrow> lead_exp \<bar>fround x\<bar> \<le> 1000" by (intro lead_exp_le) simp_all
  then show ?thesis by (auto simp: ofRat_def Let_def)
qed

lemma pow2_64: "pow2 64 = 2 ^ 64"
  by (simp add: pow2_def)

lemma uval_nonneg [simp]: "0 \<le> uval h"
  unfolding uval_def by (subst of_int_0_le_iff) simp

lemma uval_less: "uval h < pow2 64"
  unfolding uval_def using uint_bounded [of h] by (intro of_int_less_pow2) simp_all

lemma uval_le: "uval h \<le> pow2 64"
  using uval_less [of h] by simp

lemma uval_mono: "h \<le> k \<longleftrightarrow> uval h \<le> uval k"
  unfolding uval_def word_le_def by (subst of_int_le_iff) simp

lemma pow2_64_le_1000: "pow2 64 \<le> pow2 1000" "pow2 65 \<le> pow2 1000"
  by simp_all

lemma ofU64_eq: "ofU64 h = Fin (fround (uval h))"
  unfolding ofU64_def
  by (rule ofRat_Fin) (use uval_le [of h] pow2_64_le_1000 in \<open>auto intro: order_trans\<close>)

lemma fround_uval_bounds: "0 \<le> fround (uval h)" "fround (uval h) \<le> pow2 64"
  by (simp_all add: fround_nonneg fround_le_pow2 uval_le)

lemma ofU64_max: "ofU64 (- 1) = Fin (pow2 64)"
  by code_simp

text \<open>The ratio of a ramp scaled to the hash space.\<close>

lemma fmul_ratio:
  assumes "0 \<le> q" "q \<le> 1" "0 \<le> x" "x \<le> pow2 65"
  shows "fmul (Fin q) (Fin x) = Fin (fround (q * x))"
proof -
  have "q * x \<le> 1 * pow2 65" using assms by (intro mult_mono) simp_all
  with pow2_64_le_1000 have "q * x \<le> pow2 1000" by linarith
  then show ?thesis using assms by (simp add: ofRat_Fin)
qed

lemma fmul_ratio_max:
  assumes "0 \<le> q" "q \<le> 1"
  shows "fmul (Fin q) (ofU64 (- 1)) = Fin (fround (q * pow2 64))"
  using assms by (subst ofU64_max, subst fmul_ratio) simp_all

lemma double_below_one:
  assumes "fround q = q" "0 < q" "q < 1"
  shows "q \<le> 1 - pow2 (- 53)"
proof (cases "q < pow2 (- 1)")
  case True
  then show ?thesis by (simp add: pow2_def)
next
  case False
  define n where "n = rne (q / pow2 (- 53))"
  have "pow2 (lead_exp q) < pow2 0"
    using assms lead_exp_bounds(1) [of q] by (simp add: pow2_def [of 0] del: pow2_less_iff)
  moreover have "pow2 (- 1) < pow2 (lead_exp q + 1)"
    using assms(2) False lead_exp_bounds(2) [of q] by linarith
  ultimately have "lead_exp q = - 1" unfolding pow2_less_iff by linarith
  then have "ulp_exp q = - 53" by (simp add: ulp_exp_def)
  then have q: "q = of_int n * pow2 (- 53)"
    using assms by (simp add: fround_def fround_pos_def n_def)
  with assms(3) have "of_int n < (of_int (2 ^ 53) :: rat)" by (simp add: pow2_def divide_less_eq)
  then have "n \<le> 2 ^ 53 - 1" by (simp only: of_int_less_iff)
  then have "of_int n \<le> (of_int (2 ^ 53 - 1) :: rat)" by (simp only: of_int_le_iff)
  then show ?thesis by (simp add: q pow2_def)
qed

lemma scaled_double_below:
  assumes "fround q = q" "0 < q" "q < 1"
  shows "fround (q * pow2 64) < pow2 64"
proof -
  have "q * pow2 64 \<le> (1 - pow2 (- 53)) * pow2 64"
    by (intro mult_right_mono double_below_one assms) simp_all
  then have "fround (q * pow2 64) \<le> fround ((1 - pow2 (- 53)) * pow2 64)" by (rule fround_mono)
  also have "\<dots> < pow2 64" by code_simp
  finally show ?thesis .
qed

lemma toU64_Fin: "0 \<le> x \<Longrightarrow> x < pow2 64 \<Longrightarrow> toU64 (Fin x) = word_of_int \<lfloor>x\<rfloor>"
  by (auto simp: toU64_def Let_def pow2_64 floor_less_iff)

lemma toU64_mono:
  assumes "0 \<le> x" "x \<le> y" "y < pow2 64"
  shows "toU64 (Fin x) \<le> toU64 (Fin y)"
proof -
  have "0 \<le> \<lfloor>x\<rfloor>" "\<lfloor>x\<rfloor> \<le> \<lfloor>y\<rfloor>" "\<lfloor>y\<rfloor> < 2 ^ 64"
    using assms by (simp_all add: floor_mono floor_less_iff pow2_64)
  then show ?thesis using assms
    by (simp add: toU64_Fin word_le_def uint_word_of_int_eq take_bit_int_eq_self)
qed

end
