(* ===== verification/Hash_Ranges.thy ===== *)
theory Hash_Ranges
  imports Float64
begin

text \<open>
  The 64-bit key hash space and the tables that split it among legs: \<^verbatim>\<open>HashRange\<close>, \<^verbatim>\<open>LeadingShare\<close>,
  \<^verbatim>\<open>Owner\<close>, \<^verbatim>\<open>EvenOwners\<close> and \<^verbatim>\<open>checkOwners\<close> of \<^verbatim>\<open>internal/directory/legs.go\<close>, \<^verbatim>\<open>OwnerIn\<close> of
  \<^verbatim>\<open>scopes.go\<close> and \<^verbatim>\<open>reassign\<close> of \<^verbatim>\<open>moves.go\<close>.

  A table that \<open>checkOwners\<close> accepts tiles the space: \<open>tile 0 owners hash_space\<close> says so over natural
  numbers, where no successor wraps. The lemmas show that the binary search of \<open>OwnerIn\<close> finds the
  one range that holds a hash, that \<open>EvenOwners\<close> and \<open>reassign\<close> give tables that tile, and what
  \<open>reassign\<close> changes. The locale \<open>owner_table\<close> states that contract for the components that route and
  move keys by it.
\<close>

subsection \<open>Points and ranges\<close>

record leg =
  lCluster :: string
  lBucket :: string

record hash_range =
  rgFrom :: u64
  rgTo :: u64

definition FullRange :: hash_range where
  "FullRange = \<lparr>rgFrom = 0, rgTo = -1\<rparr>"

definition inRg :: "hash_range \<Rightarrow> u64 \<Rightarrow> bool" where
  "inRg rg h \<longleftrightarrow> rgFrom rg \<le> h \<and> h \<le> rgTo rg"

text \<open>\<^verbatim>\<open>Hash.MarshalText\<close> (\<^verbatim>\<open>%016x\<close>) and \<^verbatim>\<open>Hash.UnmarshalText\<close>, with the part of
  \<^verbatim>\<open>strconv.ParseUint(s, 16, 64)\<close> it uses: 16 digits never overflow.\<close>

definition hexDigit :: "nat \<Rightarrow> char" where
  "hexDigit n = ''0123456789abcdef'' ! n"

definition MarshalText :: "u64 \<Rightarrow> string" where
  "MarshalText h = map (\<lambda>i. hexDigit (unat (take_bit 4 (drop_bit (4 * (15 - i)) h)))) [0..<16]"

definition hexVal :: "char \<Rightarrow> u64 option" where
  "hexVal c = (let n = of_char c :: nat in
     if 48 \<le> n \<and> n \<le> 57 then Some (of_nat (n - 48))
     else if 97 \<le> n \<and> n \<le> 102 then Some (of_nat (n - 87))
     else if 65 \<le> n \<and> n \<le> 70 then Some (of_nat (n - 55)) else None)"

fun parseHex :: "u64 \<Rightarrow> string \<Rightarrow> u64 option" where
  "parseHex acc [] = Some acc"
| "parseHex acc (c # cs) =
     (case hexVal c of None \<Rightarrow> None | Some d \<Rightarrow> parseHex (push_bit 4 acc OR d) cs)"

definition UnmarshalText :: "string \<Rightarrow> u64 option" where
  "UnmarshalText b = (if length b \<noteq> 16 then None else parseHex 0 b)"

text \<open>\<^verbatim>\<open>math/bits\<close>: 128-bit products, sums with carry, and the division that panics (\<open>None\<close>) when
  the quotient does not fit.\<close>

definition Mul64 :: "u64 \<Rightarrow> u64 \<Rightarrow> u64 \<times> u64" where
  "Mul64 x y = (word_of_int ((uint x * uint y) div 2 ^ 64), x * y)"

definition Add64 :: "u64 \<Rightarrow> u64 \<Rightarrow> u64 \<Rightarrow> u64 \<times> u64" where
  "Add64 x y c = (x + y + c, word_of_int ((uint x + uint y + uint c) div 2 ^ 64))"

definition Div64 :: "u64 \<Rightarrow> u64 \<Rightarrow> u64 \<Rightarrow> (u64 \<times> u64) option" where
  "Div64 hi lo y =
     (if y \<le> hi then None
      else let n = uint hi * 2 ^ 64 + uint lo
           in Some (word_of_int (n div uint y), word_of_int (n mod uint y)))"

definition LeadingShare :: "hash_range \<Rightarrow> float64 \<Rightarrow> hash_range option" where
  "LeadingShare r share =
     (if fle (Fin 1) share \<or> rgTo r < rgFrom r then Some r
      else let k = toU64 (fmax (Fin 1) (mathRound (fmul share (Fin 10000)))) in
        if 10000 \<le> k then Some r
        else let (hi, lo) = Mul64 (rgTo r - rgFrom r) k;
                 (lo, carry) = Add64 lo k 0;
                 hi = hi + carry
             in case Div64 hi lo 10000 of
                  None \<Rightarrow> None
                | Some (q, _) \<Rightarrow>
                    if q = 0 then Some \<lparr>rgFrom = rgFrom r, rgTo = rgFrom r\<rparr>
                    else Some \<lparr>rgFrom = rgFrom r, rgTo = rgFrom r + (q - 1)\<rparr>)"

subsection \<open>Owner tables\<close>

record owner =
  oFrom :: u64
  oTo :: u64
  oLeg :: string

text \<open>Dividing by \<open>len(legs)\<close> panics on no legs: \<open>None\<close>.\<close>

definition EvenOwners :: "string list \<Rightarrow> owner list option" where
  "EvenOwners legs =
     (let n = length legs in
      if n = 0 then None
      else let width = (-1 :: u64) div of_nat n in
        Some (map (\<lambda>i. \<lparr>oFrom = of_nat i * width,
                        oTo = (if i = n - 1 then -1 else of_nat (i + 1) * width - 1),
                        oLeg = legs ! i\<rparr>) [0..<n]))"

datatype owners_error =
    OwnersRequired
  | OwnersUnknownLeg nat string
  | OwnersStart u64
  | OwnersGap nat u64 u64
  | OwnersInverted nat
  | OwnersBeyond nat
  | OwnersStop u64

fun checkOwnersFrom :: "(string, leg) fmap \<Rightarrow> nat \<Rightarrow> u64 \<Rightarrow> owner list \<Rightarrow> owners_error option" where
  "checkOwnersFrom legs i next [] = Some (OwnersStop (next - 1))"
| "checkOwnersFrom legs i next (ow # os) =
     (if \<not> hasKey legs (oLeg ow) then Some (OwnersUnknownLeg i (oLeg ow))
      else if i = 0 \<and> oFrom ow \<noteq> 0 then Some (OwnersStart (oFrom ow))
      else if oFrom ow \<noteq> next then Some (OwnersGap i (oFrom ow) (next - 1))
      else if oTo ow < oFrom ow then Some (OwnersInverted i)
      else if oTo ow = -1 then (if os \<noteq> [] then Some (OwnersBeyond i) else None)
      else checkOwnersFrom legs (Suc i) (oTo ow + 1) os)"

definition checkOwners :: "owner list \<Rightarrow> (string, leg) fmap \<Rightarrow> owners_error option" where
  "checkOwners owners legs =
     (if owners = [] then Some OwnersRequired else checkOwnersFrom legs 0 0 owners)"

text \<open>\<^verbatim>\<open>sort.Search\<close>: the smallest index at which a monotone predicate holds, by bisection.\<close>

function goSearchIn :: "(nat \<Rightarrow> bool) \<Rightarrow> nat \<Rightarrow> nat \<Rightarrow> nat" where
  "goSearchIn f i j =
     (if i < j then let h = (i + j) div 2
                    in if \<not> f h then goSearchIn f (h + 1) j else goSearchIn f i h
      else i)"
  by pat_completeness auto
termination
  by (relation "measure (\<lambda>(f, i, j). j - i)") auto

declare goSearchIn.simps [simp del]

definition goSearch :: "nat \<Rightarrow> (nat \<Rightarrow> bool) \<Rightarrow> nat" where
  "goSearch n f = goSearchIn f 0 n"

definition OwnerIn :: "owner list \<Rightarrow> u64 \<Rightarrow> string" where
  "OwnerIn owners h =
     (let i = goSearch (length owners) (\<lambda>i. h \<le> oTo (owners ! i))
      in if i = length owners then '''' else oLeg (owners ! i))"

text \<open>\<^verbatim>\<open>reassign\<close>: its local \<^verbatim>\<open>add\<close> joins a range to the last one when the same leg owns both.\<close>

definition addOwner :: "owner list \<Rightarrow> owner \<Rightarrow> owner list" where
  "addOwner out ow =
     (if out \<noteq> [] \<and> oLeg (last out) = oLeg ow \<and> oTo (last out) + 1 = oFrom ow
      then butlast out @ [(last out)\<lparr>oTo := oTo ow\<rparr>]
      else out @ [ow])"

definition reassignStep :: "hash_range \<Rightarrow> string \<Rightarrow> owner list \<Rightarrow> owner \<Rightarrow> owner list" where
  "reassignStep rg leg out ow =
     (if oTo ow < rgFrom rg \<or> rgTo rg < oFrom ow then addOwner out ow
      else let out = (if oFrom ow < rgFrom rg
                      then addOwner out \<lparr>oFrom = oFrom ow, oTo = rgFrom rg - 1, oLeg = oLeg ow\<rparr> else out);
               out = (if oFrom ow \<le> rgFrom rg
                      then addOwner out \<lparr>oFrom = rgFrom rg, oTo = rgTo rg, oLeg = leg\<rparr> else out)
           in if rgTo rg < oTo ow
              then addOwner out \<lparr>oFrom = rgTo rg + 1, oTo = oTo ow, oLeg = oLeg ow\<rparr> else out)"

definition reassign :: "owner list \<Rightarrow> hash_range \<Rightarrow> string \<Rightarrow> owner list" where
  "reassign owners rg leg = foldl (reassignStep rg leg) [] owners"

subsection \<open>Tiling\<close>

fun tile :: "nat \<Rightarrow> owner list \<Rightarrow> nat \<Rightarrow> bool" where
  "tile s [] e = (s = e)"
| "tile s (ow # os) e =
     (unat (oFrom ow) = s \<and> s \<le> unat (oTo ow) \<and> tile (Suc (unat (oTo ow))) os e)"

text \<open>A linear reading of a table, the reference the binary search is compared with.\<close>

fun legAt :: "owner list \<Rightarrow> u64 \<Rightarrow> string" where
  "legAt [] h = ''''"
| "legAt (ow # os) h = (if h \<le> oTo ow then oLeg ow else legAt os h)"

definition partition_table :: "owner list \<Rightarrow> bool" where
  "partition_table os = tile 0 os hash_space"

lemma tile_append: "tile s (xs @ ys) e \<longleftrightarrow> (\<exists>m. tile s xs m \<and> tile m ys e)"
  by (induction xs arbitrary: s) auto

lemma tile_le: "tile s os e \<Longrightarrow> s \<le> e"
  by (induction os arbitrary: s) fastforce+

lemma tile_to_less: "tile s os e \<Longrightarrow> ow \<in> set os \<Longrightarrow> s \<le> unat (oFrom ow) \<and> unat (oTo ow) < e"
proof (induction os arbitrary: s)
  case (Cons x os)
  then have t: "tile (Suc (unat (oTo x))) os e" and s: "s = unat (oFrom x)" "s \<le> unat (oTo x)" by auto
  show ?case
  proof (cases "ow = x")
    case True
    with s tile_le [OF t] show ?thesis by simp
  next
    case False
    with Cons.prems Cons.IH [OF t] s show ?thesis by auto
  qed
qed simp

lemma tile_from_to: "tile s os e \<Longrightarrow> ow \<in> set os \<Longrightarrow> oFrom ow \<le> oTo ow"
  by (induction os arbitrary: s) (auto simp: word_le_nat_alt)

lemma legAt_append:
  "tile s xs m \<Longrightarrow> s \<le> unat h \<Longrightarrow> legAt (xs @ ys) h = (if unat h < m then legAt xs h else legAt ys h)"
proof (induction xs arbitrary: s)
  case (Cons ow xs)
  then have t: "tile (Suc (unat (oTo ow))) xs m" by simp
  show ?case
  proof (cases "h \<le> oTo ow")
    case True
    then have "unat h < m" using tile_le [OF t] by (simp add: word_le_nat_alt)
    with True show ?thesis by simp
  next
    case False
    then have "Suc (unat (oTo ow)) \<le> unat h" by (simp add: word_le_nat_alt)
    with Cons.IH [OF t] False show ?thesis by simp
  qed
qed simp

lemma tile_lookup:
  "tile s os e \<Longrightarrow> s \<le> unat h \<Longrightarrow> unat h < e \<Longrightarrow>
   \<exists>ow \<in> set os. oFrom ow \<le> h \<and> h \<le> oTo ow \<and> legAt os h = oLeg ow"
proof (induction os arbitrary: s)
  case (Cons ow os)
  show ?case
  proof (cases "h \<le> oTo ow")
    case True
    with Cons.prems show ?thesis by (auto simp: word_le_nat_alt)
  next
    case False
    then have "Suc (unat (oTo ow)) \<le> unat h" by (simp add: word_le_nat_alt)
    with Cons.IH [of "Suc (unat (oTo ow))"] Cons.prems False show ?thesis by auto
  qed
qed simp

lemma tile_legAt:
  "tile s os e \<Longrightarrow> ow \<in> set os \<Longrightarrow> oFrom ow \<le> h \<Longrightarrow> h \<le> oTo ow \<Longrightarrow> legAt os h = oLeg ow"
proof (induction os arbitrary: s)
  case (Cons x os)
  show ?case
  proof (cases "ow = x")
    case False
    with Cons.prems have ow: "ow \<in> set os" and t: "tile (Suc (unat (oTo x))) os e" by auto
    from tile_to_less [OF t ow] Cons.prems(3) have "\<not> h \<le> oTo x" by (simp add: word_le_nat_alt)
    with Cons.IH [OF t ow] Cons.prems show ?thesis by simp
  qed (use Cons.prems in simp)
qed simp

text \<open>What \<open>checkOwners\<close> accepts is exactly a tiling by known legs.\<close>

lemma checkOwnersFrom_iff:
  "next = 0 \<or> i \<noteq> 0 \<Longrightarrow>
   checkOwnersFrom legs i next os = None \<longleftrightarrow>
     os \<noteq> [] \<and> tile (unat next) os hash_space \<and> (\<forall>ow \<in> set os. hasKey legs (oLeg ow))"
proof (induction os arbitrary: i "next")
  case (Cons ow os)
  have from_eq: "unat (oFrom ow) = unat next \<longleftrightarrow> oFrom ow = next"
    by (simp add: word_unat_eq_iff)
  show ?case
  proof (cases "oTo ow = -1")
    case True
    have "tile (Suc (unat (-1 :: u64))) os hash_space \<longleftrightarrow> os = []"
    proof (cases os)
      case (Cons y ys)
      then show ?thesis using unat_less_space [of "oFrom y"] by (auto simp: Suc_unat_max)
    qed (simp add: Suc_unat_max)
    moreover have "\<not> (-1 :: u64) < next" by (simp add: not_less)
    ultimately show ?thesis using True Cons.prems from_eq by (auto simp: word_le_nat_alt [symmetric])
  next
    case False
    then have s: "unat (oTo ow + 1) = Suc (unat (oTo ow))" by (rule unat_add_one_u64)
    with False Cons.prems from_eq Cons.IH [of "oTo ow + 1" "Suc i"] s show ?thesis
      by (auto simp: word_less_nat_alt)
  qed
qed simp

lemma checkOwners_iff:
  "checkOwners os legs = None \<longleftrightarrow> partition_table os \<and> (\<forall>ow \<in> set os. hasKey legs (oLeg ow))"
  by (cases os) (auto simp: checkOwners_def checkOwnersFrom_iff partition_table_def simp del: checkOwnersFrom.simps)

subsection \<open>The binary search\<close>

lemma goSearchIn_step:
  assumes "i < j"
  shows "goSearchIn f i j = (if f ((i + j) div 2) then goSearchIn f i ((i + j) div 2)
                             else goSearchIn f (Suc ((i + j) div 2)) j)"
  using assms by (simp add: goSearchIn.simps [of f i j] Let_def)

lemma goSearchIn_spec:
  assumes mono: "\<And>a b. f a \<Longrightarrow> a \<le> b \<Longrightarrow> b < n \<Longrightarrow> f b"
  shows "i \<le> j \<Longrightarrow> j \<le> n \<Longrightarrow> \<forall>a < i. \<not> f a \<Longrightarrow> \<forall>b. j \<le> b \<longrightarrow> b < n \<longrightarrow> f b \<Longrightarrow>
         goSearchIn f i j \<le> n \<and> (\<forall>a < goSearchIn f i j. \<not> f a) \<and>
         (\<forall>b. goSearchIn f i j \<le> b \<longrightarrow> b < n \<longrightarrow> f b)"
proof (induction "j - i" arbitrary: i j rule: less_induct)
  case less
  show ?case
  proof (cases "i < j")
    case False
    with less.prems(1) have "i = j" by simp
    moreover have "goSearchIn f j j = j" by (simp add: goSearchIn.simps [of f j j])
    ultimately show ?thesis using less.prems(2-4) by (simp only:)
  next
    case True
    obtain h where h: "h = (i + j) div 2" "i \<le> h" "h < j" using True by simp
    show ?thesis
    proof (cases "f h")
      case fh: True
      have eq: "goSearchIn f i j = goSearchIn f i h"
        unfolding goSearchIn_step [OF True] h(1) [symmetric] using fh by (simp only: if_True)
      have hi: "\<forall>b. h \<le> b \<longrightarrow> b < n \<longrightarrow> f b" by (intro allI impI) (rule mono [OF fh])
      have "h - i < j - i" "h \<le> n" using h(2,3) less.prems(2) by linarith+
      then show ?thesis
        unfolding eq by (rule less.hyps [OF _ h(2) _ less.prems(3) hi])
    next
      case fh: False
      have eq: "goSearchIn f i j = goSearchIn f (Suc h) j"
        unfolding goSearchIn_step [OF True] h(1) [symmetric] using fh by (simp only: if_False)
      have lo: "\<forall>a < Suc h. \<not> f a"
      proof (intro allI impI notI)
        fix a assume "a < Suc h" "f a"
        then show False using fh mono [of a h] h(3) less.prems(2) by linarith
      qed
      have "j - Suc h < j - i" "Suc h \<le> j" using h(2,3) by linarith+
      then show ?thesis
        unfolding eq by (rule less.hyps [OF _ _ less.prems(2) lo less.prems(4)])
    qed
  qed
qed

lemma goSearch_spec:
  assumes "\<And>a b. f a \<Longrightarrow> a \<le> b \<Longrightarrow> b < n \<Longrightarrow> f b"
  shows "goSearch n f \<le> n \<and> (\<forall>a < goSearch n f. \<not> f a) \<and>
         (\<forall>b. goSearch n f \<le> b \<longrightarrow> b < n \<longrightarrow> f b)"
  unfolding goSearch_def by (rule goSearchIn_spec [OF assms]) simp_all

lemma legAt_first:
  "i \<le> length os \<Longrightarrow> (\<And>a. a < i \<Longrightarrow> \<not> h \<le> oTo (os ! a)) \<Longrightarrow> (i < length os \<Longrightarrow> h \<le> oTo (os ! i)) \<Longrightarrow>
   legAt os h = (if i = length os then '''' else oLeg (os ! i))"
proof (induction os arbitrary: i)
  case (Cons ow os)
  show ?case
  proof (cases i)
    case 0
    with Cons.prems show ?thesis by simp
  next
    case (Suc k)
    from Cons.prems(2) [of 0] Suc have "\<not> h \<le> oTo ow" by simp
    moreover have "legAt os h = (if k = length os then '''' else oLeg (os ! k))"
    proof (rule Cons.IH)
      show "\<not> h \<le> oTo (os ! a)" if "a < k" for a
        using Cons.prems(2) [of "Suc a"] Suc that by simp
    qed (use Cons.prems Suc in auto)
    ultimately show ?thesis using Suc by simp
  qed
qed simp

lemma tile_to_mono:
  "tile s os e \<Longrightarrow> a \<le> b \<Longrightarrow> b < length os \<Longrightarrow> oTo (os ! a) \<le> oTo (os ! b)"
proof (induction os arbitrary: s a b)
  case (Cons x os)
  then have t: "tile (Suc (unat (oTo x))) os e" by simp
  show ?case
  proof (cases a)
    case 0
    show ?thesis
    proof (cases b)
      case (Suc b')
      with Cons.prems have "os ! b' \<in> set os" by simp
      with tile_to_less [OF t] tile_le have "unat (oTo x) < unat (oFrom (os ! b'))" by fastforce
      moreover have "unat (oFrom (os ! b')) \<le> unat (oTo (os ! b'))"
        using t Suc Cons.prems(3)
      proof (induction os arbitrary: b' x b)
        case (Cons y ys)
        then show ?case by (cases b') auto
      qed simp
      ultimately show ?thesis using 0 Suc by (simp add: word_le_nat_alt)
    qed (use 0 in simp)
  next
    case (Suc a')
    with Cons.prems obtain b' where "b = Suc b'" "a' \<le> b'" "b' < length os" by (cases b) auto
    with Suc Cons.IH [OF t] show ?thesis by simp
  qed
qed simp

lemma OwnerIn_legAt:
  assumes "tile s os e"
  shows "OwnerIn os h = legAt os h"
proof -
  let ?f = "\<lambda>i. h \<le> oTo (os ! i)"
  have mono: "?f b" if "?f a" "a \<le> b" "b < length os" for a b
    using that tile_to_mono [OF assms] order_trans by blast
  have S: "goSearch (length os) ?f \<le> length os \<and> (\<forall>a < goSearch (length os) ?f. \<not> ?f a) \<and>
           (\<forall>b. goSearch (length os) ?f \<le> b \<longrightarrow> b < length os \<longrightarrow> ?f b)"
    by (rule goSearch_spec) (rule mono)
  show ?thesis
    unfolding OwnerIn_def Let_def by (rule legAt_first [symmetric]) (use S in blast)+
qed

lemma OwnerIn_partition:
  "partition_table os \<Longrightarrow> OwnerIn os h = legAt os h"
  by (simp add: partition_table_def OwnerIn_legAt)

lemma partition_lookup:
  "partition_table os \<Longrightarrow> \<exists>ow \<in> set os. oFrom ow \<le> h \<and> h \<le> oTo ow \<and> OwnerIn os h = oLeg ow"
  using tile_lookup [of 0 os hash_space h]
  by (simp add: partition_table_def OwnerIn_legAt)

lemma partition_owner:
  "partition_table os \<Longrightarrow> ow \<in> set os \<Longrightarrow> oFrom ow \<le> h \<Longrightarrow> h \<le> oTo ow \<Longrightarrow> OwnerIn os h = oLeg ow"
  using tile_legAt [of 0 os hash_space ow h] by (simp add: partition_table_def OwnerIn_legAt)

lemma tile_filter:
  "tile s os e \<Longrightarrow> unat h < s \<Longrightarrow> filter (\<lambda>ow. oFrom ow \<le> h \<and> h \<le> oTo ow) os = []"
  "tile s os e \<Longrightarrow> s \<le> unat h \<Longrightarrow> unat h < e \<Longrightarrow> \<exists>ow. filter (\<lambda>ow. oFrom ow \<le> h \<and> h \<le> oTo ow) os = [ow]"
proof (induction os arbitrary: s)
  case (Cons ow os)
  { case 1
    then show ?case using Cons.IH(1) [of "Suc (unat (oTo ow))"] by (auto simp: word_le_nat_alt)
  next
    case 2
    then show ?case using Cons.IH [of "Suc (unat (oTo ow))"] by (cases "h \<le> oTo ow") (auto simp: word_le_nat_alt)
  }
qed simp_all

lemma partition_filter: "partition_table os \<Longrightarrow> \<exists>ow. filter (\<lambda>ow. oFrom ow \<le> h \<and> h \<le> oTo ow) os = [ow]"
  by (rule tile_filter(2) [of 0 os hash_space]) (simp_all add: partition_table_def)

subsection \<open>Reassigning a range\<close>

lemma addOwner_tile:
  assumes t: "tile s out m" and ow: "unat (oFrom ow) = m" "oFrom ow \<le> oTo ow"
  shows "tile s (addOwner out ow) (Suc (unat (oTo ow)))"
    and "s \<le> unat h \<Longrightarrow> h \<le> oTo ow \<Longrightarrow>
         legAt (addOwner out ow) h = (if unat h < m then legAt out h else oLeg ow)"
proof -
  have le: "m \<le> unat (oTo ow)" using ow by (simp add: word_le_nat_alt)
  consider (join) xs l where "out = xs @ [l]" "oLeg l = oLeg ow"
      "addOwner out ow = xs @ [l\<lparr>oTo := oTo ow\<rparr>]"
    | (new) "addOwner out ow = out @ [ow]"
    by (cases out rule: rev_cases; cases "oLeg (last out) = oLeg ow \<and> oTo (last out) + 1 = oFrom ow")
      (auto simp: addOwner_def)
  then have "tile s (addOwner out ow) (Suc (unat (oTo ow))) \<and>
      (s \<le> unat h \<longrightarrow> h \<le> oTo ow \<longrightarrow>
       legAt (addOwner out ow) h = (if unat h < m then legAt out h else oLeg ow))"
  proof cases
    case join
    then obtain a where a: "tile s xs a" "unat (oFrom l) = a" "a \<le> unat (oTo l)" "m = Suc (unat (oTo l))"
      using t by (auto simp: tile_append)
    have "tile s (addOwner out ow) (Suc (unat (oTo ow)))"
      using a le join by (auto simp: tile_append intro!: exI [of _ a])
    moreover have "s \<le> unat h \<Longrightarrow> h \<le> oTo ow \<Longrightarrow>
        legAt (addOwner out ow) h = (if unat h < m then legAt out h else oLeg ow)"
      using a join by (auto simp: legAt_append [OF a(1)] word_le_nat_alt)
    ultimately show ?thesis by blast
  next
    case new
    have "tile s (out @ [ow]) (Suc (unat (oTo ow)))"
      using t ow le by (auto simp: tile_append intro!: exI [of _ m])
    then show ?thesis by (auto simp: new legAt_append [OF t])
  qed
  then show "tile s (addOwner out ow) (Suc (unat (oTo ow)))"
    and "s \<le> unat h \<Longrightarrow> h \<le> oTo ow \<Longrightarrow>
         legAt (addOwner out ow) h = (if unat h < m then legAt out h else oLeg ow)" by blast+
qed

text \<open>How far the output reaches once the input is read up to \<open>m\<close>: past \<open>m\<close> only while the
  reassigned range itself reaches past it.\<close>

definition reach :: "hash_range \<Rightarrow> nat \<Rightarrow> nat" where
  "reach rg m = (if unat (rgFrom rg) < m then max m (Suc (unat (rgTo rg))) else m)"

definition reassigned :: "hash_range \<Rightarrow> string \<Rightarrow> (u64 \<Rightarrow> string) \<Rightarrow> u64 \<Rightarrow> string" where
  "reassigned rg leg F h = (if inRg rg h then leg else F h)"

definition reassign_inv :: "hash_range \<Rightarrow> string \<Rightarrow> (u64 \<Rightarrow> string) \<Rightarrow> owner list \<Rightarrow> nat \<Rightarrow> bool" where
  "reassign_inv rg leg F out m \<longleftrightarrow>
     tile 0 out m \<and> (\<forall>h. unat h < m \<longrightarrow> legAt out h = reassigned rg leg F h)"

lemma addOwner_inv:
  assumes "reassign_inv rg leg F out m" "unat (oFrom ow) = m" "oFrom ow \<le> oTo ow"
    and "\<And>h. oFrom ow \<le> h \<Longrightarrow> h \<le> oTo ow \<Longrightarrow> reassigned rg leg F h = oLeg ow"
  shows "reassign_inv rg leg F (addOwner out ow) (Suc (unat (oTo ow)))"
  using assms addOwner_tile [of 0 out m ow]
  by (auto simp: reassign_inv_def less_Suc_eq_le word_le_nat_alt not_less)

lemma reassignStep_inv:
  assumes rg: "rgFrom rg \<le> rgTo rg"
    and inv: "reassign_inv rg leg F out (reach rg m)"
    and ow: "unat (oFrom ow) = m" "oFrom ow \<le> oTo ow"
    and F: "\<And>h. oFrom ow \<le> h \<Longrightarrow> h \<le> oTo ow \<Longrightarrow> F h = oLeg ow"
  shows "reassign_inv rg leg F (reassignStep rg leg out ow) (reach rg (Suc (unat (oTo ow))))"
proof -
  have rgn: "unat (rgFrom rg) \<le> unat (rgTo rg)" using rg by (simp add: word_le_nat_alt)
  have own: "m \<le> unat (oTo ow)" using ow by (simp add: word_le_nat_alt)
  let ?pre = "\<lparr>oFrom = oFrom ow, oTo = rgFrom rg - 1, oLeg = oLeg ow\<rparr>"
  let ?mid = "\<lparr>oFrom = rgFrom rg, oTo = rgTo rg, oLeg = leg\<rparr>"
  let ?post = "\<lparr>oFrom = rgTo rg + 1, oTo = oTo ow, oLeg = oLeg ow\<rparr>"
  show ?thesis
  proof (cases "oTo ow < rgFrom rg \<or> rgTo rg < oFrom ow")
    case True
    then have m: "reach rg m = m" "reach rg (Suc (unat (oTo ow))) = Suc (unat (oTo ow))"
      using ow own rgn by (auto simp: reach_def word_less_nat_alt)
    have "reassigned rg leg F h = oLeg ow" if "oFrom ow \<le> h" "h \<le> oTo ow" for h
      using that True F [OF that] by (auto simp: reassigned_def inRg_def)
    with addOwner_inv [OF inv [unfolded m] ow] True show ?thesis by (simp add: reassignStep_def m)
  next
    case False
    define out1 where "out1 = (if oFrom ow < rgFrom rg then addOwner out ?pre else out)"
    define out2 where "out2 = (if oFrom ow \<le> rgFrom rg then addOwner out1 ?mid else out1)"
    have step: "reassignStep rg leg out ow = (if rgTo rg < oTo ow then addOwner out2 ?post else out2)"
      using False by (simp add: reassignStep_def Let_def out1_def out2_def)
    have inv2: "reassign_inv rg leg F out2 (Suc (unat (rgTo rg)))"
    proof (cases "oFrom ow \<le> rgFrom rg")
      case le: True
      then have r: "reach rg m = m" using ow by (simp add: reach_def word_le_nat_alt)
      have inv1: "reassign_inv rg leg F out1 (unat (rgFrom rg))"
      proof (cases "oFrom ow < rgFrom rg")
        case True
        then have pos: "0 < rgFrom rg" by (metis word_gt_0 word_not_simps(1))
        then have "Suc (unat (rgFrom rg - 1)) = unat (rgFrom rg)"
          by (simp add: unat_minus_one word_gt_0 unat_gt_0)
        moreover have "reassigned rg leg F h = oLeg ow" if "oFrom ow \<le> h" "h \<le> rgFrom rg - 1" for h
        proof -
          have "h < rgFrom rg" using that(2) sub_one_less_u64 [OF pos] by simp
          moreover have "h \<le> oTo ow" using False \<open>h < rgFrom rg\<close> by auto
          ultimately show ?thesis using F [OF that(1)] by (auto simp: reassigned_def inRg_def)
        qed
        ultimately show ?thesis
          using addOwner_inv [OF inv [unfolded r], of ?pre] ow True sub_one_less_u64 [OF pos]
          by (simp add: out1_def)
      next
        case False
        with le have "oFrom ow = rgFrom rg" by simp
        with inv ow show ?thesis by (simp add: out1_def r)
      qed
      show ?thesis
        using addOwner_inv [OF inv1, of ?mid] rg le by (simp add: out2_def reassigned_def inRg_def)
    next
      case gt: False
      then have "reach rg m = Suc (unat (rgTo rg))"
        using False ow by (auto simp: reach_def word_less_nat_alt word_le_nat_alt)
      moreover have "\<not> oFrom ow < rgFrom rg" using gt by (simp add: not_less not_le)
      ultimately show ?thesis using gt inv by (simp add: out2_def out1_def)
    qed
    show ?thesis
    proof (cases "rgTo rg < oTo ow")
      case True
      then have r: "reach rg (Suc (unat (oTo ow))) = Suc (unat (oTo ow))"
        using False rgn by (auto simp: reach_def word_less_nat_alt)
      have ne: "rgTo rg \<noteq> -1" using True by auto
      have "oFrom ow \<le> h" if "rgTo rg + 1 \<le> h" for h
        using False that add_one_le_u64 [OF ne] by (meson le_less_trans less_imp_le not_le)
      then have "reassigned rg leg F h = oLeg ow" if "rgTo rg + 1 \<le> h" "h \<le> oTo ow" for h
        using that F add_one_le_u64 [OF ne] by (auto simp: reassigned_def inRg_def)
      then show ?thesis
        using addOwner_inv [OF inv2, of ?post] True add_one_le_u64 [OF ne]
        by (simp add: step r unat_add_one_u64 [OF ne])
    next
      case le: False
      then have "reach rg (Suc (unat (oTo ow))) = Suc (unat (rgTo rg))"
        using False by (auto simp: reach_def word_less_nat_alt)
      with le inv2 show ?thesis by (simp add: step)
    qed
  qed
qed

lemma reassign_fold:
  assumes "rgFrom rg \<le> rgTo rg" "reassign_inv rg leg F out (reach rg m)" "tile m os e"
    and "\<And>ow h. ow \<in> set os \<Longrightarrow> oFrom ow \<le> h \<Longrightarrow> h \<le> oTo ow \<Longrightarrow> F h = oLeg ow"
  shows "reassign_inv rg leg F (foldl (reassignStep rg leg) out os) (reach rg e)"
  using assms
proof (induction os arbitrary: out m)
  case (Cons ow os)
  have "reassign_inv rg leg F (reassignStep rg leg out ow) (reach rg (Suc (unat (oTo ow))))"
    using Cons.prems by (intro reassignStep_inv) (auto simp: word_le_nat_alt)
  then show ?case using Cons.IH Cons.prems by simp
qed simp

lemma reassign_partition:
  assumes rg: "rgFrom rg \<le> rgTo rg" and p: "partition_table os"
  shows "partition_table (reassign os rg leg)"
    and "OwnerIn (reassign os rg leg) h = (if inRg rg h then leg else OwnerIn os h)"
proof -
  have "reassign_inv rg leg (legAt os) [] (reach rg 0)"
    by (simp add: reassign_inv_def reach_def)
  moreover have "legAt os h = oLeg ow" if "ow \<in> set os" "oFrom ow \<le> h" "h \<le> oTo ow" for ow h
    using p that tile_legAt by (simp add: partition_table_def)
  ultimately have "reassign_inv rg leg (legAt os) (reassign os rg leg) (reach rg hash_space)"
    unfolding reassign_def using rg p by (intro reassign_fold) (auto simp: partition_table_def)
  moreover have "reach rg hash_space = hash_space"
    using Suc_unat_le_space [of "rgTo rg"] by (simp add: reach_def max_def del: Suc_unat_le_space)
  ultimately have "partition_table (reassign os rg leg)"
    and L: "legAt (reassign os rg leg) h = reassigned rg leg (legAt os) h"
    by (simp_all add: reassign_inv_def partition_table_def)
  then show "partition_table (reassign os rg leg)"
    and "OwnerIn (reassign os rg leg) h = (if inRg rg h then leg else OwnerIn os h)"
    using p by (simp_all add: OwnerIn_partition reassigned_def)
qed

subsection \<open>Equal shares and leading shares\<close>

lemma uint_of_int_u64: "0 \<le> n \<Longrightarrow> n < 2 ^ 64 \<Longrightarrow> uint (word_of_int n :: u64) = n"
  by (simp add: uint_word_of_int)

lemma uint_less_u64: "uint (x :: u64) < 2 ^ 64"
  using uint_bounded [of x] by simp

text \<open>The 128-bit product, sum and quotient of \<open>LeadingShare\<close> compute \<open>(width + 1) * k div 10000\<close>
  without overflow, and the division never panics.\<close>

lemma share_quotient:
  assumes "k < (10000 :: u64)"
  shows "Div64 (fst (Mul64 x k) + snd (Add64 (snd (Mul64 x k)) k 0)) (fst (Add64 (snd (Mul64 x k)) k 0)) 10000
         = Some (word_of_int (((uint x + 1) * uint k) div 10000),
                 word_of_int (((uint x + 1) * uint k) mod 10000))"
proof -
  define W K where "W = uint x" and "K = uint k"
  have K: "0 \<le> K" "K \<le> 9999" using assms by (simp_all add: K_def word_less_def)
  have W: "0 \<le> W" "W < 2 ^ 64" using uint_less_u64 [of x] by (simp_all add: W_def)
  define lo where "lo = (W * K) mod 2 ^ 64"
  have lo: "0 \<le> lo" "lo < 2 ^ 64" "uint (x * k) = lo"
    by (simp_all add: lo_def W_def K_def uint_word_ariths)
  define hi c where "hi = (W * K) div 2 ^ 64" and "c = (lo + K) div 2 ^ 64"
  have "W * K \<le> (2 ^ 64 - 1) * 9999" using W K by (intro mult_mono) simp_all
  then have hi: "0 \<le> hi" "hi \<le> 9998" using W K by (simp_all add: hi_def pos_imp_zdiv_nonneg_iff)
  have c: "0 \<le> c" "c \<le> 1" using lo K by (auto simp: c_def)
  have prod: "hi * 2 ^ 64 + lo = W * K" by (simp add: hi_def lo_def)
  have sum: "c * 2 ^ 64 + (lo + K) mod 2 ^ 64 = lo + K" by (simp add: c_def)
  have total: "(hi + c) * 2 ^ 64 + (lo + K) mod 2 ^ 64 = (W + 1) * K"
    using prod sum by (simp add: algebra_simps)
  have u_hi: "uint (fst (Mul64 x k)) = hi"
    unfolding Mul64_def fst_conv W_def [symmetric] K_def [symmetric] hi_def [symmetric]
    using hi by (intro uint_of_int_u64) simp_all
  have u_c: "uint (snd (Add64 (snd (Mul64 x k)) k 0)) = c"
    unfolding Mul64_def Add64_def snd_conv lo(3) K_def [symmetric] unsigned_0 add_0_right c_def [symmetric]
    using c by (intro uint_of_int_u64) simp_all
  have u_lo: "uint (fst (Add64 (snd (Mul64 x k)) k 0)) = (lo + K) mod 2 ^ 64"
    using lo(3) by (simp add: Mul64_def Add64_def uint_word_ariths flip: K_def)
  have u_sum: "uint (fst (Mul64 x k) + snd (Add64 (snd (Mul64 x k)) k 0)) = hi + c"
    using hi c by (simp add: uint_word_ariths(1) u_hi u_c)
  have "\<not> (10000 :: u64) \<le> fst (Mul64 x k) + snd (Add64 (snd (Mul64 x k)) k 0)"
    using hi c by (simp add: word_le_def u_sum)
  moreover have "uint (10000 :: u64) = 10000" by simp
  ultimately show ?thesis
    unfolding Div64_def Let_def u_sum u_lo total W_def [symmetric] K_def [symmetric] by simp
qed

definition shareK :: "float64 \<Rightarrow> u64" where
  "shareK share = toU64 (fmax (Fin 1) (mathRound (fmul share (Fin 10000))))"

lemma LeadingShare_eq:
  "LeadingShare r share =
     (if fle (Fin 1) share \<or> rgTo r < rgFrom r \<or> 10000 \<le> shareK share then Some r
      else let q = ((uint (rgTo r - rgFrom r) + 1) * uint (shareK share)) div 10000
           in Some \<lparr>rgFrom = rgFrom r, rgTo = rgFrom r + (if q = 0 then 0 else word_of_int (q - 1))\<rparr>)"
proof (cases "fle (Fin 1) share \<or> rgTo r < rgFrom r \<or> 10000 \<le> shareK share")
  case True
  then show ?thesis by (auto simp: LeadingShare_def shareK_def Let_def)
next
  case False
  define q where "q = ((uint (rgTo r - rgFrom r) + 1) * uint (shareK share)) div 10000"
  from False have k: "shareK share < 10000" by (simp add: not_le)
  have "uint (shareK share) \<le> 9999" using k by (simp add: word_less_def)
  then have "(uint (rgTo r - rgFrom r) + 1) * uint (shareK share) \<le> 2 ^ 64 * 9999"
    using uint_less_u64 [of "rgTo r - rgFrom r"] by (intro mult_mono) simp_all
  then have q: "0 \<le> q" "q < 2 ^ 64" by (simp_all add: q_def pos_imp_zdiv_nonneg_iff)
  then have q0: "(word_of_int q :: u64) = 0 \<longleftrightarrow> q = 0"
    using uint_of_int_u64 [of q] by (metis unsigned_0 word_of_int_0)
  have "(word_of_int q - 1 :: u64) = word_of_int (q - 1)"
    by (simp add: wi_hom_sub [symmetric])
  with False q0 show ?thesis
    using share_quotient [OF k, of "rgTo r - rgFrom r", folded q_def]
    by (simp add: LeadingShare_def Let_def split_beta q_def [symmetric] flip: shareK_def)
qed

lemma LeadingShare_bounds:
  assumes r: "rgFrom r \<le> rgTo r" and s: "LeadingShare r share = Some rg"
  shows "rgFrom rg = rgFrom r \<and> rgFrom rg \<le> rgTo rg \<and> rgTo rg \<le> rgTo r"
proof (cases "fle (Fin 1) share \<or> 10000 \<le> shareK share")
  case True
  with assms show ?thesis by (auto simp: LeadingShare_eq split: if_splits)
next
  case False
  define w where "w = uint (rgTo r - rgFrom r)"
  define q where "q = ((w + 1) * uint (shareK share)) div 10000"
  have w: "0 \<le> w" "w = uint (rgTo r) - uint (rgFrom r)"
    using r by (simp_all add: w_def uint_minus_simple_alt [symmetric] word_le_def uint_sub_if')
  have "uint (shareK share) \<le> 9999" using False by (simp add: word_less_def not_le)
  then have "(w + 1) * uint (shareK share) \<le> (w + 1) * 9999" using w by (intro mult_left_mono) simp_all
  then have q: "0 \<le> q" "q \<le> w" using w(1) by (simp_all add: q_def pos_imp_zdiv_nonneg_iff)
  define d where "d = (if q = 0 then 0 else q - 1)"
  have d: "0 \<le> d" "d \<le> w" using q w by (auto simp: d_def)
  have rg: "rg = \<lparr>rgFrom = rgFrom r, rgTo = rgFrom r + word_of_int d\<rparr>"
    using s False r by (auto simp: LeadingShare_eq Let_def not_less d_def q_def w_def split: if_splits)
  have "uint (rgFrom r + word_of_int d) = uint (rgFrom r) + d"
  proof -
    have "d + uint (rgFrom r) < 2 ^ 64" using d w uint_less_u64 [of "rgTo r"] by linarith
    moreover from this have "d < 2 ^ 64" using uint_ge_0 [of "rgFrom r"] by linarith
    ultimately show ?thesis using d
      by (subst uint_word_ariths(1), subst uint_of_int_u64) (simp_all add: algebra_simps)
  qed
  then show ?thesis using d w by (simp add: rg word_le_def)
qed

lemma LeadingShare_total: "\<exists>rg. LeadingShare r share = Some rg"
  by (simp add: LeadingShare_eq Let_def)

text \<open>\<open>EvenOwners\<close>: the ranges tile the space in the order given, and their widths differ by at most
  the number of legs.\<close>

definition width :: "owner \<Rightarrow> nat" where
  "width ow = unat (oTo ow) + 1 - unat (oFrom ow)"

definition evenAt :: "string list \<Rightarrow> nat \<Rightarrow> owner" where
  "evenAt legs i =
     (let w = (-1 :: u64) div of_nat (length legs) in
      \<lparr>oFrom = of_nat i * w, oTo = (if i = length legs - 1 then -1 else of_nat (i + 1) * w - 1), oLeg = legs ! i\<rparr>)"

definition evenWidth :: "string list \<Rightarrow> nat" where
  "evenWidth legs = (hash_space - 1) div length legs"

lemma EvenOwners_eq: "legs \<noteq> [] \<Longrightarrow> EvenOwners legs = Some (map (evenAt legs) [0..<length legs])"
  by (simp add: EvenOwners_def evenAt_def Let_def)

lemma evenWidth_pos: "legs \<noteq> [] \<Longrightarrow> length legs < hash_space \<Longrightarrow> 1 \<le> evenWidth legs"
  by (simp add: evenWidth_def Suc_le_eq div_greater_zero_iff)

lemma evenWidth_le: "length legs * evenWidth legs \<le> hash_space - 1"
  by (simp add: evenWidth_def mult.commute div_times_less_eq_dividend)

lemma evenWidth_last: "legs \<noteq> [] \<Longrightarrow> (length legs - 1) * evenWidth legs + evenWidth legs \<le> hash_space - 1"
  using evenWidth_le [of legs] by (cases "length legs") (simp_all add: algebra_simps)

lemma evenWidth_rest:
  assumes "legs \<noteq> []"
  shows "hash_space - 1 < (length legs - 1) * evenWidth legs + evenWidth legs + length legs"
proof -
  have "hash_space - 1 < Suc (evenWidth legs) * length legs"
    using assms by (simp add: evenWidth_def dividend_less_div_times)
  moreover have "Suc (evenWidth legs) * length legs = (length legs - 1) * evenWidth legs + evenWidth legs + length legs"
    using assms by (cases "length legs") (simp_all add: algebra_simps)
  ultimately show ?thesis by simp
qed

lemma unat_even_point:
  assumes n: "legs \<noteq> []" "length legs < hash_space" and i: "i \<le> length legs"
  shows "unat (of_nat i * ((-1 :: u64) div of_nat (length legs))) = i * evenWidth legs"
proof -
  define w where "w = (-1 :: u64) div of_nat (length legs)"
  have un: "unat (of_nat (length legs) :: u64) = length legs"
    using n(2) by (simp add: unat_of_nat hash_space_def)
  have W: "unat w = evenWidth legs"
    using Suc_unat_max un by (simp add: w_def evenWidth_def unat_div_distrib flip: Suc_unat_max)
  have "i * evenWidth legs \<le> length legs * evenWidth legs" using i by (rule mult_right_mono) simp
  then have "i * evenWidth legs < hash_space" using evenWidth_le [of legs] n(2) by linarith
  moreover have "i < hash_space" using i n by simp
  ultimately show ?thesis unfolding w_def [symmetric] by (simp add: unat_word_ariths unat_of_nat W hash_space_def)
qed

lemma evenAt_from:
  "legs \<noteq> [] \<Longrightarrow> length legs < hash_space \<Longrightarrow> i \<le> length legs \<Longrightarrow> unat (oFrom (evenAt legs i)) = i * evenWidth legs"
  by (simp add: evenAt_def Let_def unat_even_point del: of_nat_Suc)

lemma evenAt_to:
  assumes n: "legs \<noteq> []" "length legs < hash_space" and i: "i < length legs"
  shows "Suc (unat (oTo (evenAt legs i))) = (if i = length legs - 1 then hash_space else Suc i * evenWidth legs)"
proof (cases "i = length legs - 1")
  case False
  let ?p = "of_nat (i + 1) * ((-1 :: u64) div of_nat (length legs))"
  have p: "unat ?p = Suc i * evenWidth legs" using unat_even_point [OF n, of "i + 1"] i by simp
  have "0 < Suc i * evenWidth legs" using evenWidth_pos [OF n] by simp
  with p have "Suc (unat (?p - 1)) = Suc i * evenWidth legs"
    by (metis Suc_pred' unat_0 unat_minus_one less_numeral_extra(3))
  with False show ?thesis by (simp add: evenAt_def Let_def)
qed (simp add: evenAt_def Let_def Suc_unat_max)

lemma evenAt_tile:
  assumes n: "legs \<noteq> []" "length legs < hash_space" and k: "k < length legs"
  shows "tile (k * evenWidth legs) (map (evenAt legs) [k..<length legs]) hash_space"
  using k
proof (induction "length legs - k" arbitrary: k)
  case (Suc m)
  let ?f = "evenAt legs" and ?n = "length legs" and ?W = "evenWidth legs"
  have step: "map ?f [k..<?n] = ?f k # map ?f [Suc k..<?n]" using Suc.prems by (simp add: upt_conv_Cons)
  note to = evenAt_to [OF n Suc.prems]
  have "k * ?W \<le> unat (oTo (?f k))"
  proof (cases "k = ?n - 1")
    case True
    have "Suc (unat (oTo (?f k))) = hash_space" using to True by (simp only: if_True refl)
    with evenWidth_last [OF n(1), folded True] show ?thesis by linarith
  next
    case False
    with to evenWidth_pos [OF n] show ?thesis by simp
  qed
  moreover have "tile (Suc (unat (oTo (?f k)))) (map ?f [Suc k..<?n]) hash_space"
  proof (cases "k = ?n - 1")
    case False
    with Suc have "tile (Suc k * ?W) (map ?f [Suc k..<?n]) hash_space" by (intro Suc.hyps) auto
    with False to show ?thesis by simp
  qed (use to Suc.prems in simp)
  ultimately show ?case using evenAt_from [OF n, of k] Suc.prems by (simp add: step)
qed simp

lemma evenAt_width:
  assumes n: "legs \<noteq> []" "length legs < hash_space" and i: "i < length legs"
  shows "width (evenAt legs i) =
         (if i = length legs - 1 then hash_space - (length legs - 1) * evenWidth legs else evenWidth legs)"
proof (cases "i = length legs - 1")
  case True
  have "Suc (unat (oTo (evenAt legs i))) = hash_space" using evenAt_to [OF n i] True by (simp only: if_True refl)
  moreover have "unat (oFrom (evenAt legs i)) = i * evenWidth legs" using evenAt_from [OF n, of i] i by simp
  ultimately show ?thesis using True by (simp only: width_def if_True refl Suc_eq_plus1 [symmetric])
next
  case False
  with evenAt_to [OF n i] evenAt_from [OF n, of i] i show ?thesis by (simp add: width_def)
qed

lemma EvenOwners_shape:
  assumes n: "legs \<noteq> []" "length legs < hash_space" and os: "EvenOwners legs = Some os"
  shows "partition_table os" and "map oLeg os = legs"
    and "\<forall>ow \<in> set os. evenWidth legs \<le> width ow \<and> width ow \<le> evenWidth legs + length legs"
proof -
  have os_eq: "os = map (evenAt legs) [0..<length legs]" using os EvenOwners_eq [OF n(1)] by simp
  show "partition_table os"
    using evenAt_tile [OF n, of 0] n(1) by (simp add: partition_table_def os_eq)
  show "map oLeg os = legs"
    by (rule nth_equalityI) (simp_all add: os_eq evenAt_def Let_def)
  show "\<forall>ow \<in> set os. evenWidth legs \<le> width ow \<and> width ow \<le> evenWidth legs + length legs"
  proof
    fix ow assume "ow \<in> set os"
    then obtain i where i: "i < length legs" "ow = evenAt legs i" by (auto simp: os_eq)
    have "width ow = hash_space - (length legs - 1) * evenWidth legs \<or> width ow = evenWidth legs"
      using evenAt_width [OF n i(1)] i(2) by (cases "i = length legs - 1") (simp_all only: if_True if_False simp_thms)
    with evenWidth_last [OF n(1)] evenWidth_rest [OF n(1)]
    show "evenWidth legs \<le> width ow \<and> width ow \<le> evenWidth legs + length legs" by linarith
  qed
qed

subsection \<open>Points as text\<close>

lemma hexVal_hexDigit: "n < 16 \<Longrightarrow> hexVal (hexDigit n) = Some (of_nat n)"
  by (simp only: numeral_eq_Suc less_Suc_eq pred_numeral_simps eval_nat_numeral BitM.simps)
     (elim disjE; simp add: hexDigit_def hexVal_def)

lemma push_drop_take: "push_bit n (drop_bit n x) OR take_bit n x = (x :: u64)"
  by (rule bit_word_eqI) (auto simp: bit_simps)

lemma parseHex_digits:
  "i \<le> 16 \<Longrightarrow>
   parseHex (drop_bit (4 * (16 - i)) h)
     (map (\<lambda>i. hexDigit (unat (take_bit 4 (drop_bit (4 * (15 - i)) h)))) [i..<16]) = Some (h :: u64)"
proof (induction "16 - i" arbitrary: i)
  case (Suc m)
  then have i: "i < 16" by simp
  let ?d = "take_bit 4 (drop_bit (4 * (15 - i)) h)"
  have "unat ?d < 16"
    by (simp add: unsigned_take_bit_eq take_bit_nat_def)
  then have "hexVal (hexDigit (unat ?d)) = Some ?d" by (simp add: hexVal_hexDigit)
  moreover have "drop_bit (4 * (16 - i)) h = drop_bit 4 (drop_bit (4 * (15 - i)) h)"
    using i by (simp add: algebra_simps)
  moreover have "parseHex (drop_bit (4 * (15 - i)) h)
      (map (\<lambda>i. hexDigit (unat (take_bit 4 (drop_bit (4 * (15 - i)) h)))) [Suc i..<16]) = Some h"
    using Suc(1) [of "Suc i"] Suc(2) i by simp
  ultimately show ?case using i by (simp add: upt_conv_Cons push_drop_take del: drop_bit_drop_bit)
qed simp

lemma MarshalText_roundtrip: "UnmarshalText (MarshalText h) = Some h"
proof -
  have "drop_bit (4 * (16 - 0)) h = 0" by (rule bit_word_eqI) (simp add: bit_simps)
  then show ?thesis
    using parseHex_digits [of 0 h] unfolding UnmarshalText_def MarshalText_def
    by (simp only: length_map length_upt) simp
qed

subsection \<open>The contract of an owner table\<close>

text \<open>What the components that route, carve and move keys rely on: a table names one leg for every
  point, and assigning a range changes the leg of that range only.\<close>

locale owner_table =
  fixes valid :: "'t \<Rightarrow> bool"
    and leg_of :: "'t \<Rightarrow> u64 \<Rightarrow> string"
    and assign :: "'t \<Rightarrow> hash_range \<Rightarrow> string \<Rightarrow> 't"
  assumes valid_assign: "valid t \<Longrightarrow> rgFrom rg \<le> rgTo rg \<Longrightarrow> valid (assign t rg leg)"
    and leg_of_assign: "valid t \<Longrightarrow> rgFrom rg \<le> rgTo rg \<Longrightarrow>
      leg_of (assign t rg leg) h = (if inRg rg h then leg else leg_of t h)"
begin

lemma assign_outside: "valid t \<Longrightarrow> rgFrom rg \<le> rgTo rg \<Longrightarrow> \<not> inRg rg h \<Longrightarrow> leg_of (assign t rg leg) h = leg_of t h"
  by (simp add: leg_of_assign)

lemma assign_back:
  assumes "valid t" "rgFrom rg \<le> rgTo rg" "\<And>h. inRg rg h \<Longrightarrow> leg_of t h = src"
  shows "leg_of (assign (assign t rg leg) rg src) h = leg_of t h"
  using assms by (simp add: leg_of_assign valid_assign)

lemma assign_fold_valid:
  "valid t \<Longrightarrow> \<forall>(rg, leg) \<in> set ms. rgFrom rg \<le> rgTo rg \<Longrightarrow> valid (foldl (\<lambda>t (rg, leg). assign t rg leg) t ms)"
  by (induction ms arbitrary: t) (auto simp: valid_assign)

lemma assign_fold_untouched:
  "valid t \<Longrightarrow> \<forall>(rg, leg) \<in> set ms. rgFrom rg \<le> rgTo rg \<and> \<not> inRg rg h \<Longrightarrow>
   leg_of (foldl (\<lambda>t (rg, leg). assign t rg leg) t ms) h = leg_of t h"
  by (induction ms arbitrary: t) (auto simp: valid_assign leg_of_assign)

lemma assign_fold_last:
  assumes "valid t" "\<forall>(rg, leg) \<in> set (ms @ (rg, leg) # ms'). rgFrom rg \<le> rgTo rg"
    and "inRg rg h" "\<forall>(rg, leg) \<in> set ms'. \<not> inRg rg h"
  shows "leg_of (foldl (\<lambda>t (rg, leg). assign t rg leg) t (ms @ (rg, leg) # ms')) h = leg"
proof -
  let ?t = "foldl (\<lambda>t (rg, leg). assign t rg leg) t ms"
  have v: "valid ?t" using assms by (intro assign_fold_valid) auto
  have r: "rgFrom rg \<le> rgTo rg" using assms(2) by simp
  have "leg_of (foldl (\<lambda>t (rg, leg). assign t rg leg) (assign ?t rg leg) ms') h = leg_of (assign ?t rg leg) h"
    using assms(2,4) by (intro assign_fold_untouched valid_assign v r) auto
  with v r assms(3) show ?thesis by (simp add: leg_of_assign)
qed

end

interpretation owners: owner_table partition_table OwnerIn reassign
  by unfold_locales (simp_all add: reassign_partition)

end
