(* ===== verification/Placement.thy ===== *)
theory Placement
  imports Hash_Ranges Config S3_Ops
begin

text \<open>
  The directory's records: \<^verbatim>\<open>Placement\<close> and what it is made of (\<^verbatim>\<open>internal/directory/directory.go\<close>,
  \<^verbatim>\<open>legs.go\<close>), the scopes of prefix rules (\<^verbatim>\<open>scopes.go\<close>) and the view of a move as a two-cluster
  migration (\<^verbatim>\<open>moves.go\<close>).

  A record is a value, so Go's deep copies (\<^verbatim>\<open>clone\<close>, \<^verbatim>\<open>v2ramp\<close>, \<^verbatim>\<open>v2cutover\<close>, \<^verbatim>\<open>clonePrefixes\<close>) are the
  identity here. The maps and slices whose nil-ness the code tests (\<^verbatim>\<open>isV2\<close>) are options. Times and durations
  are integers. The section on scopes shows that a key's scope is the longest rule it starts with, that
  a listing reads every leg that can hold a key under its prefix, and what \<open>OwnsBeyond\<close> promises.
\<close>

subsection \<open>States and records\<close>

definition StateActive :: string where "StateActive = ''ACTIVE''"

definition StateRamping :: string where "StateRamping = ''RAMPING''"

definition StateMigrating :: string where "StateMigrating = ''MIGRATING''"

definition StateCutover :: string where "StateCutover = ''CUTOVER''"

definition States :: "string list" where
  "States = [StateActive, StateRamping, StateMigrating, StateCutover]"

lemma states_distinct [simp]:
  "StateActive \<noteq> StateRamping" "StateRamping \<noteq> StateActive" "StateActive \<noteq> StateMigrating"
  "StateMigrating \<noteq> StateActive" "StateActive \<noteq> StateCutover" "StateCutover \<noteq> StateActive"
  "StateRamping \<noteq> StateMigrating" "StateMigrating \<noteq> StateRamping" "StateRamping \<noteq> StateCutover"
  "StateCutover \<noteq> StateRamping" "StateMigrating \<noteq> StateCutover" "StateCutover \<noteq> StateMigrating"
  by (simp_all add: StateActive_def StateRamping_def StateMigrating_def StateCutover_def)

lemma states_nonempty [simp]:
  "StateActive \<noteq> ''''" "StateRamping \<noteq> ''''" "StateMigrating \<noteq> ''''" "StateCutover \<noteq> ''''"
  by (simp_all add: StateActive_def StateRamping_def StateMigrating_def StateCutover_def)

record tenant =
  tnDefaultCluster :: string

record ramp_hold =
  hRatio :: float64
  hPrefixes :: "string list"

record ramp =
  rHash :: string
  rRatio :: float64
  rPrefixes :: "string list"
  rRange :: "hash_range option"
  rHold :: "ramp_hold option"

definition RampHash :: string where "RampHash = ''fnv1a-fmix64-v1''"

lemma RampHash_nonempty [simp]: "RampHash \<noteq> ''''" "'''' \<noteq> RampHash"
  by (simp_all add: RampHash_def)

record cutover_evidence =
  evAt :: int
  evWindow :: int
  evFallbackReads :: float64

record move =
  mScope :: string
  mRange :: hash_range
  mFrom :: string
  mTo :: string
  mRamp :: "ramp option"
  mCutover :: "cutover_evidence option"

record prefix_rule =
  prPrefix :: string
  prOwners :: "owner list"

record placement =
  pState :: string
  pPrimary :: string
  pSource :: string
  pTarget :: string
  pCutover :: "cutover_evidence option"
  pRamp :: "ramp option"
  pNames :: "(string, string) fmap option"
  pCold :: string
  pTier :: string
  pLifecycle :: string
  pCreated :: int
  pReadOnly :: bool
  pRejectWrites :: bool
  pWatch :: bool
  pBarrier :: "barrier option"
  pLegs :: "(string, leg) fmap option"
  pOwners :: "owner list option"
  pKeyHash :: string
  pMove :: "move option"
  pPrefixes :: "prefix_rule list option"
  pLegClusters :: "(string, string) fmap"

text \<open>Go's zero values: an omitted field of a struct literal, a missing leg of a map.\<close>

definition zeroPlacement :: placement where
  "zeroPlacement =
     \<lparr>pState = '''', pPrimary = '''', pSource = '''', pTarget = '''', pCutover = None, pRamp = None,
      pNames = None, pCold = '''', pTier = '''', pLifecycle = '''', pCreated = 0, pReadOnly = False,
      pRejectWrites = False, pWatch = False, pBarrier = None, pLegs = None, pOwners = None,
      pKeyHash = '''', pMove = None, pPrefixes = None, pLegClusters = fmempty\<rparr>"

definition getLeg :: "(string, leg) fmap \<Rightarrow> string \<Rightarrow> leg" where
  "getLeg legs i = (case fmlookup legs i of Some l \<Rightarrow> l | None \<Rightarrow> \<lparr>lCluster = '''', lBucket = ''''\<rparr>)"

text \<open>Reading the nil-able fields.\<close>

abbreviation namesOf :: "placement \<Rightarrow> (string, string) fmap" where "namesOf p \<equiv> goMap (pNames p)"

abbreviation legsOf :: "placement \<Rightarrow> (string, leg) fmap" where "legsOf p \<equiv> goMap (pLegs p)"

abbreviation ownersOf :: "placement \<Rightarrow> owner list" where "ownersOf p \<equiv> goSlice (pOwners p)"

abbreviation rulesOf :: "placement \<Rightarrow> prefix_rule list" where "rulesOf p \<equiv> goSlice (pPrefixes p)"

definition ClusterOf :: "placement \<Rightarrow> string \<Rightarrow> string" where
  "ClusterOf p role = (case fmlookup (pLegClusters p) role of Some c \<Rightarrow> c | None \<Rightarrow> role)"

definition isV2 :: "placement \<Rightarrow> bool" where
  "isV2 p \<longleftrightarrow> pLegs p \<noteq> None \<or> pOwners p \<noteq> None \<or> pMove p \<noteq> None \<or> pPrefixes p \<noteq> None"

definition Spread :: "placement \<Rightarrow> bool" where
  "Spread p \<longleftrightarrow> 1 < length (ownersOf p) \<or> pMove p \<noteq> None \<or> 0 < length (rulesOf p)"

definition Held :: "placement \<Rightarrow> bool" where
  "Held p =
     (case pMove p of
        Some m \<Rightarrow> (case mRamp m of Some r \<Rightarrow> rHold r \<noteq> None | None \<Rightarrow> False)
      | None \<Rightarrow> (case pRamp p of Some r \<Rightarrow> rHold r \<noteq> None | None \<Rightarrow> False))"

text \<open>\<^verbatim>\<open>p.Move\<close> is dereferenced: the caller has checked that it is there.\<close>

definition MoveView :: "placement \<Rightarrow> move \<Rightarrow> placement" where
  "MoveView p m =
     (let fr = getLeg (legsOf p) (mFrom m); to = getLeg (legsOf p) (mTo m) in
      zeroPlacement\<lparr>pState := pState p, pSource := mFrom m, pPrimary := mTo m,
        pNames := Some (fmupd (mTo m) (lBucket to) (fmupd (mFrom m) (lBucket fr) fmempty)),
        pLegClusters := fmupd (mTo m) (lCluster to) (fmupd (mFrom m) (lCluster fr) fmempty),
        pRamp := map_option (\<lambda>r. r\<lparr>rRange := Some (mRange m)\<rparr>) (mRamp m),
        pCutover := mCutover m, pCreated := pCreated p, pReadOnly := pReadOnly p,
        pRejectWrites := pRejectWrites p, pBarrier := pBarrier p\<rparr>)"

definition Key :: "string \<Rightarrow> string \<Rightarrow> string" where
  "Key tenant bucket = tenant @ ''/'' @ bucket"

definition SplitKey :: "string \<Rightarrow> string \<times> string \<times> bool" where
  "SplitKey k =
     (let t = takeWhile (\<lambda>c. c \<noteq> CHR ''/'') k; b = drop (length t + 1) k
      in (t, b, CHR ''/'' \<in> set k \<and> t \<noteq> '''' \<and> b \<noteq> ''''))"

definition DefaultTenant :: string where "DefaultTenant = ''default''"

text \<open>An error message, \<^verbatim>\<open>fmt.Errorf(format, args...)\<close>, is kept as its format and arguments.\<close>

datatype arg =
    AStr string
  | AStrs "string list"
  | AOpt "string option"
  | AFloat float64
  | ARange hash_range
  | ANat nat
  | AInt int
  | ABool bool
  | ABarrier barrier_error
  | AOwners owners_error

type_synonym message = "string \<times> arg list"

subsection \<open>Scopes\<close>

definition MaxPrefixRules :: nat where "MaxPrefixRules = 64"

definition MaxPrefixLen :: nat where "MaxPrefixLen = 1024"

text \<open>The loop of \<^verbatim>\<open>Scope\<close> and \<^verbatim>\<open>parentTable\<close>: the first of the longest rules that qualify.\<close>

definition longerRule :: "(prefix_rule \<Rightarrow> bool) \<Rightarrow> prefix_rule option \<Rightarrow> prefix_rule \<Rightarrow> prefix_rule option" where
  "longerRule ok best r =
     (if (best = None \<or> length (prPrefix (the best)) < length (prPrefix r)) \<and> ok r then Some r else best)"

definition Scope :: "placement \<Rightarrow> string \<Rightarrow> string \<times> owner list" where
  "Scope p key =
     (case foldl (longerRule (\<lambda>r. prefix (prPrefix r) key)) None (rulesOf p) of
        None \<Rightarrow> ('''', ownersOf p)
      | Some r \<Rightarrow> (prPrefix r, prOwners r))"

definition parentTable :: "placement \<Rightarrow> string \<Rightarrow> owner list" where
  "parentTable p pre =
     (case foldl (longerRule (\<lambda>r. prPrefix r \<noteq> pre \<and> prefix (prPrefix r) pre)) None (rulesOf p) of
        None \<Rightarrow> ownersOf p
      | Some r \<Rightarrow> prOwners r)"

definition scopeTable :: "placement \<Rightarrow> string \<Rightarrow> owner list option" where
  "scopeTable p scope =
     (if scope = '''' then Some (ownersOf p)
      else map_option prOwners (find (\<lambda>r. prPrefix r = scope) (rulesOf p)))"

definition setScopeTable :: "placement \<Rightarrow> string \<Rightarrow> owner list \<Rightarrow> placement" where
  "setScopeTable p scope os =
     (if scope = '''' then p\<lparr>pOwners := Some os\<rparr>
      else p\<lparr>pPrefixes := map_option (map (\<lambda>r. if prPrefix r = scope then r\<lparr>prOwners := os\<rparr> else r)) (pPrefixes p)\<rparr>)"

definition prefixesOf :: "placement \<Rightarrow> string list" where
  "prefixesOf p = map prPrefix (rulesOf p)"

definition OwnsBeyond :: "placement \<Rightarrow> string \<Rightarrow> string \<Rightarrow> hash_range \<Rightarrow> bool" where
  "OwnsBeyond p leg scope rg \<longleftrightarrow>
     ((scope \<noteq> '''' \<or> rulesOf p \<noteq> []) \<and>
        list_ex (\<lambda>s. s \<noteq> scope \<and> list_ex (\<lambda>ow. oLeg ow = leg) (goSlice (scopeTable p s))) ('''' # prefixesOf p)) \<or>
     list_ex (\<lambda>ow. oLeg ow = leg \<and> (oFrom ow < rgFrom rg \<or> rgTo rg < oTo ow)) (goSlice (scopeTable p scope))"

definition ownsKeys :: "placement \<Rightarrow> string \<Rightarrow> bool" where
  "ownsKeys p leg \<longleftrightarrow>
     list_ex (\<lambda>ow. oLeg ow = leg) (ownersOf p) \<or>
     list_ex (\<lambda>r. list_ex (\<lambda>ow. oLeg ow = leg) (prOwners r)) (rulesOf p)"

definition ListingLegs :: "placement \<Rightarrow> string \<Rightarrow> string list" where
  "ListingLegs p pre =
     sort (remdups
       (map oLeg (snd (Scope p pre))
        @ concat (map (\<lambda>r. map oLeg (prOwners r)) (filter (\<lambda>r. prefix pre (prPrefix r)) (rulesOf p)))
        @ (case pMove p of None \<Rightarrow> [] | Some m \<Rightarrow> [mFrom m, mTo m])))"

definition IdleLegs :: "placement \<Rightarrow> string list" where
  "IdleLegs p =
     filter (\<lambda>i. \<not> (case pMove p of None \<Rightarrow> False | Some m \<Rightarrow> i = mFrom m \<or> i = mTo m) \<and> \<not> ownsKeys p i)
       (sortedKeys (legsOf p))"

subsection \<open>Keys of placements\<close>

lemma SplitKey_Key:
  "CHR ''/'' \<notin> set t \<Longrightarrow> t \<noteq> '''' \<Longrightarrow> b \<noteq> '''' \<Longrightarrow> SplitKey (Key t b) = (t, b, True)"
proof -
  assume "CHR ''/'' \<notin> set t" "t \<noteq> ''''" "b \<noteq> ''''"
  moreover from this have "takeWhile (\<lambda>c. c \<noteq> CHR ''/'') (Key t b) = t"
    unfolding Key_def by (subst takeWhile_append2) auto
  ultimately show ?thesis by (simp add: SplitKey_def Key_def Let_def)
qed

lemma Key_SplitKey:
  assumes "SplitKey k = (t, b, True)"
  shows "k = Key t b" "CHR ''/'' \<notin> set t" "t \<noteq> ''''" "b \<noteq> ''''"
proof -
  let ?t = "takeWhile (\<lambda>c. c \<noteq> CHR ''/'') k"
  have t: "t = ?t" and b: "b = drop (length ?t + 1) k" and k: "CHR ''/'' \<in> set k" "t \<noteq> ''''" "b \<noteq> ''''"
    using assms by (auto simp: SplitKey_def Let_def)
  have d: "dropWhile (\<lambda>c. c \<noteq> CHR ''/'') k = drop (length ?t) k"
    by (metis append_eq_conv_conj takeWhile_dropWhile_id)
  have "dropWhile (\<lambda>c. c \<noteq> CHR ''/'') k \<noteq> []" using k(1) by (simp add: dropWhile_eq_Nil_conv)
  then obtain c r where cr: "dropWhile (\<lambda>c. c \<noteq> CHR ''/'') k = c # r" by (meson neq_Nil_conv)
  with hd_dropWhile [of "\<lambda>c. c \<noteq> CHR ''/''" k] have "c = CHR ''/''" by simp
  moreover have "r = b" using cr d b by (metis add.commute drop_drop drop_Suc_Cons drop0 plus_1_eq_Suc)
  ultimately show "k = Key t b" using cr t by (metis Key_def append_Cons append_Nil takeWhile_dropWhile_id)
  show "CHR ''/'' \<notin> set t" "t \<noteq> ''''" "b \<noteq> ''''" using t k takeWhile_no_slash by auto
qed

subsection \<open>The scope of a key\<close>

lemma longerRule_foldl:
  "foldl (longerRule ok) b rs = Some r \<Longrightarrow> \<forall>x. b = Some x \<longrightarrow> ok x \<Longrightarrow>
   ok r \<and> (r \<in> set rs \<or> b = Some r) \<and>
   (\<forall>x \<in> set rs. ok x \<longrightarrow> length (prPrefix x) \<le> length (prPrefix r)) \<and>
   (\<forall>x. b = Some x \<longrightarrow> length (prPrefix x) \<le> length (prPrefix r))"
proof (induction rs arbitrary: b)
  case (Cons a rs)
  let ?b = "longerRule ok b a"
  have "\<forall>x. ?b = Some x \<longrightarrow> ok x" using Cons.prems(2) by (auto simp: longerRule_def split: if_splits)
  with Cons.IH [of ?b] Cons.prems(1)
  have IH: "ok r \<and> (r \<in> set rs \<or> ?b = Some r) \<and>
     (\<forall>x \<in> set rs. ok x \<longrightarrow> length (prPrefix x) \<le> length (prPrefix r)) \<and>
     (\<forall>x. ?b = Some x \<longrightarrow> length (prPrefix x) \<le> length (prPrefix r))" by simp
  show ?case
  proof (cases "?b = Some a \<and> ok a")
    case True
    then show ?thesis using IH by (cases b) (auto simp: longerRule_def split: if_splits)
  next
    case False
    then have "?b = b" by (auto simp: longerRule_def split: if_splits)
    moreover have "length (prPrefix a) \<le> length (prPrefix r)" if "ok a"
    proof (cases b)
      case (Some x)
      with False that have "length (prPrefix a) \<le> length (prPrefix x)" by (auto simp: longerRule_def split: if_splits)
      then show ?thesis using IH \<open>?b = b\<close> Some by fastforce
    qed (use False that in \<open>simp add: longerRule_def\<close>)
    ultimately show ?thesis using IH by auto
  qed
qed simp

lemma longerRule_foldl_None: "foldl (longerRule ok) b rs = None \<longleftrightarrow> b = None \<and> (\<forall>r \<in> set rs. \<not> ok r)"
  by (induction rs arbitrary: b) (auto simp: longerRule_def)

text \<open>Rules as \<^verbatim>\<open>checkPrefixes\<close> leaves them: each prefix once, none empty.\<close>

definition rules_ok :: "prefix_rule list \<Rightarrow> bool" where
  "rules_ok rs \<longleftrightarrow> distinct (map prPrefix rs) \<and> '''' \<notin> prPrefix ` set rs"

lemma rules_ok_inj: "rules_ok rs \<Longrightarrow> r \<in> set rs \<Longrightarrow> r' \<in> set rs \<Longrightarrow> prPrefix r = prPrefix r' \<Longrightarrow> r = r'"
  by (metis distinct_map inj_onD rules_ok_def)

text \<open>The longest rule is determined by what it is, whatever the order of the rules.\<close>

definition longest :: "(prefix_rule \<Rightarrow> bool) \<Rightarrow> prefix_rule list \<Rightarrow> prefix_rule \<Rightarrow> bool" where
  "longest ok rs r \<longleftrightarrow>
     r \<in> set rs \<and> ok r \<and> (\<forall>x \<in> set rs. ok x \<longrightarrow> length (prPrefix x) \<le> length (prPrefix r))"

lemma foldl_longest: "foldl (longerRule ok) None rs = Some r \<Longrightarrow> longest ok rs r"
  using longerRule_foldl [of ok None rs r] by (auto simp: longest_def)

lemma foldl_longest_iff:
  assumes "rules_ok rs" "\<And>x. ok x \<Longrightarrow> prefix (prPrefix x) key"
  shows "foldl (longerRule ok) None rs = Some r \<longleftrightarrow> longest ok rs r"
proof
  assume r: "longest ok rs r"
  then obtain r' where r': "foldl (longerRule ok) None rs = Some r'"
    using longerRule_foldl_None [of ok None rs] by (cases "foldl (longerRule ok) None rs") (auto simp: longest_def)
  from foldl_longest [OF this] r have "length (prPrefix r') = length (prPrefix r)" "r' \<in> set rs" "r \<in> set rs"
      "prefix (prPrefix r') key" "prefix (prPrefix r) key"
    using assms(2) by (auto simp: longest_def intro: le_antisym)
  then have "r' = r" using assms(1) by (metis rules_ok_inj prefix_order.antisym prefix_length_prefix order_refl)
  with r' show "foldl (longerRule ok) None rs = Some r" by simp
qed (rule foldl_longest)

lemma Scope_cases:
  obtains (rule) r where "longest (\<lambda>r. prefix (prPrefix r) key) (rulesOf p) r" "Scope p key = (prPrefix r, prOwners r)"
  | (own) "\<forall>r \<in> set (rulesOf p). \<not> prefix (prPrefix r) key" "Scope p key = ('''', ownersOf p)"
  using foldl_longest [of "\<lambda>r. prefix (prPrefix r) key" "rulesOf p"]
    longerRule_foldl_None [of "\<lambda>r. prefix (prPrefix r) key" None "rulesOf p"]
  by (cases "foldl (longerRule (\<lambda>r. prefix (prPrefix r) key)) None (rulesOf p)") (auto simp: Scope_def)

lemma Scope_rule:
  assumes "rules_ok (rulesOf p)" "longest (\<lambda>r. prefix (prPrefix r) key) (rulesOf p) r"
  shows "Scope p key = (prPrefix r, prOwners r)"
  using foldl_longest_iff [OF assms(1), of "\<lambda>r. prefix (prPrefix r) key" key r] assms(2) by (simp add: Scope_def)

lemma Scope_own:
  assumes "\<forall>r \<in> set (rulesOf p). \<not> prefix (prPrefix r) key"
  shows "Scope p key = ('''', ownersOf p)"
proof -
  have "foldl (longerRule (\<lambda>r. prefix (prPrefix r) key)) None (rulesOf p) = None"
    using assms by (simp add: longerRule_foldl_None)
  then show ?thesis by (simp add: Scope_def)
qed

lemma find_rule: "rules_ok rs \<Longrightarrow> r \<in> set rs \<Longrightarrow> find (\<lambda>x. prPrefix x = prPrefix r) rs = Some r"
proof (induction rs)
  case (Cons x rs)
  show ?case
  proof (cases "prPrefix x = prPrefix r")
    case True
    then have "x = r" using Cons.prems rules_ok_inj [of "x # rs" x r] by simp
    then show ?thesis by simp
  next
    case False
    then show ?thesis using Cons by (auto simp: rules_ok_def)
  qed
qed simp

lemma scopeTable_Scope: "rules_ok (rulesOf p) \<Longrightarrow> scopeTable p (fst (Scope p key)) = Some (snd (Scope p key))"
  by (rule Scope_cases [of key p]) (auto simp: scopeTable_def longest_def find_rule rules_ok_def image_def)

text \<open>The leg that owns a key with a given hash, and the shape \<^verbatim>\<open>checkV2\<close> demands of the tables.\<close>

definition ownerAt :: "placement \<Rightarrow> string \<Rightarrow> u64 \<Rightarrow> string" where
  "ownerAt p key h = OwnerIn (snd (Scope p key)) h"

definition tables_ok :: "placement \<Rightarrow> bool" where
  "tables_ok p \<longleftrightarrow>
     partition_table (ownersOf p) \<and> rules_ok (rulesOf p) \<and> (\<forall>r \<in> set (rulesOf p). partition_table (prOwners r))"

lemma Scope_partition: "tables_ok p \<Longrightarrow> partition_table (snd (Scope p key))"
  by (rule Scope_cases [of key p]) (auto simp: tables_ok_def longest_def)

lemma ownerAt_range:
  "tables_ok p \<Longrightarrow> \<exists>ow \<in> set (snd (Scope p key)). oFrom ow \<le> h \<and> h \<le> oTo ow \<and> ownerAt p key h = oLeg ow"
  unfolding ownerAt_def by (rule partition_lookup [OF Scope_partition])

text \<open>A rule a key falls to, seen from a prefix of the key: it is nested under the prefix, or it is the
  scope of the prefix too.\<close>

lemma Scope_of_prefix:
  assumes "rules_ok (rulesOf p)" "prefix pre key"
  shows "Scope p key = Scope p pre \<or>
         (\<exists>r \<in> set (rulesOf p). prefix pre (prPrefix r) \<and> prefix (prPrefix r) key \<and>
            Scope p key = (prPrefix r, prOwners r))"
proof (cases rule: Scope_cases [of key p])
  case (rule r)
  show ?thesis
  proof (cases "prefix pre (prPrefix r)")
    case True
    with rule show ?thesis by (auto simp: longest_def)
  next
    case False
    with rule assms(2) have "prefix (prPrefix r) pre"
      by (metis longest_def prefix_same_cases)
    moreover have "prefix (prPrefix x) key" if "prefix (prPrefix x) pre" for x
      using that assms(2) by (metis prefix_order.trans)
    ultimately have "longest (\<lambda>r. prefix (prPrefix r) pre) (rulesOf p) r"
      using rule(1) by (auto simp: longest_def)
    with assms(1) rule(2) show ?thesis by (simp add: Scope_rule)
  qed
next
  case own
  then have "\<forall>r \<in> set (rulesOf p). \<not> prefix (prPrefix r) pre"
    using assms(2) by (meson prefix_order.trans)
  then have "Scope p pre = ('''', ownersOf p)" by (rule Scope_own)
  with own show ?thesis by simp
qed

lemma ListingLegs_owner:
  assumes "tables_ok p" "prefix pre key"
  shows "ownerAt p key h \<in> set (ListingLegs p pre)"
proof -
  obtain ow where ow: "ow \<in> set (snd (Scope p key))" "ownerAt p key h = oLeg ow"
    using ownerAt_range [OF assms(1)] by blast
  from Scope_of_prefix [OF _ assms(2)] assms(1) consider
      "Scope p key = Scope p pre"
    | r where "r \<in> set (rulesOf p)" "prefix pre (prPrefix r)" "Scope p key = (prPrefix r, prOwners r)"
    by (auto simp: tables_ok_def)
  then show ?thesis using ow by cases (auto simp: ListingLegs_def)
qed

lemma ListingLegs_move:
  "pMove p = Some m \<Longrightarrow> mFrom m \<in> set (ListingLegs p pre) \<and> mTo m \<in> set (ListingLegs p pre)"
  by (simp add: ListingLegs_def)

lemma OwnsBeyond_owner:
  assumes "tables_ok p" "\<not> OwnsBeyond p leg scope rg" "ownerAt p key h = leg"
  shows "fst (Scope p key) = scope \<and> inRg rg h"
proof -
  obtain ow where ow: "ow \<in> set (snd (Scope p key))" "oFrom ow \<le> h" "h \<le> oTo ow" "oLeg ow = leg"
    using ownerAt_range [OF assms(1), of key h] assms(3) by metis
  have t: "scopeTable p (fst (Scope p key)) = Some (snd (Scope p key))"
    using assms(1) by (simp add: scopeTable_Scope tables_ok_def)
  have "fst (Scope p key) \<in> set ('''' # prefixesOf p)"
    by (rule Scope_cases [of key p]) (auto simp: prefixesOf_def longest_def)
  moreover have "scope \<noteq> '''' \<or> rulesOf p \<noteq> []" if "fst (Scope p key) \<noteq> scope"
    using that by (auto intro: Scope_cases [of key p] simp: longest_def Scope_def)
  ultimately have s: "fst (Scope p key) = scope"
    using assms(2) t ow(1,4) unfolding OwnsBeyond_def list_ex_iff by fastforce
  with assms(2) t ow have "rgFrom rg \<le> oFrom ow \<and> oTo ow \<le> rgTo rg"
    unfolding OwnsBeyond_def list_ex_iff by fastforce
  with ow s show ?thesis by (auto simp: inRg_def)
qed

lemma ownerAt_ownsKeys: "tables_ok p \<Longrightarrow> ownerAt p key h = leg \<Longrightarrow> ownsKeys p leg"
  using ownerAt_range [of p key h]
  by (cases rule: Scope_cases [of key p]) (fastforce simp: ownsKeys_def list_ex_iff longest_def)+

text \<open>Two rule sets that differ by one rule whose table is its parent's give every key the same table.\<close>

lemma parentTable_Scope:
  assumes "pre \<notin> set (prefixesOf p)"
  shows "parentTable p pre = snd (Scope p pre)"
proof -
  have "longerRule (\<lambda>r. prPrefix r \<noteq> pre \<and> prefix (prPrefix r) pre) b r = longerRule (\<lambda>r. prefix (prPrefix r) pre) b r"
    if "r \<in> set (rulesOf p)" for b r
    using that assms by (auto simp: longerRule_def prefixesOf_def)
  then have "foldl (longerRule (\<lambda>r. prPrefix r \<noteq> pre \<and> prefix (prPrefix r) pre)) None (rulesOf p)
      = foldl (longerRule (\<lambda>r. prefix (prPrefix r) pre)) None (rulesOf p)"
    by (intro foldl_cong) simp_all
  then show ?thesis by (simp add: parentTable_def Scope_def split: option.splits)
qed

lemma Scope_with_rule:
  assumes ok: "rules_ok (rulesOf p)" "rules_ok (rulesOf q)" and own: "ownersOf q = ownersOf p"
    and rules: "set (rulesOf q) = insert \<lparr>prPrefix = pre, prOwners = os\<rparr> (set (rulesOf p))"
    and new: "pre \<notin> set (prefixesOf p)" and os: "os = snd (Scope p pre)"
  shows "snd (Scope q key) = snd (Scope p key)"
proof (cases "prefix pre key \<and> (\<forall>r \<in> set (rulesOf p). prefix (prPrefix r) key \<longrightarrow> length (prPrefix r) \<le> length pre)")
  case True
  let ?r = "\<lparr>prPrefix = pre, prOwners = os\<rparr>"
  have "longest (\<lambda>r. prefix (prPrefix r) key) (rulesOf q) ?r" using True rules by (auto simp: longest_def)
  then have q: "snd (Scope q key) = os" using Scope_rule [OF ok(2)] by fastforce
  from Scope_of_prefix [OF ok(1), of pre key] True consider "Scope p key = Scope p pre"
    | r where "r \<in> set (rulesOf p)" "prefix pre (prPrefix r)" "prefix (prPrefix r) key" by blast
  then show ?thesis
  proof cases
    case (2 r)
    with True have "prPrefix r = pre" by (meson prefix_length_le le_antisym prefix_order.eq_iff prefix_length_prefix)
    with new 2(1) show ?thesis by (auto simp: prefixesOf_def)
  qed (simp add: q os)
next
  case False
  show ?thesis
  proof (cases rule: Scope_cases [of key p])
    case (rule r)
    with False rules have "longest (\<lambda>r. prefix (prPrefix r) key) (rulesOf q) r"
      by (auto simp: longest_def)
    then show ?thesis using rule Scope_rule [OF ok(2)] by simp
  next
    case own': own
    with False rules have "\<forall>r \<in> set (rulesOf q). \<not> prefix (prPrefix r) key" by auto
    then have "Scope q key = ('''', ownersOf q)" by (rule Scope_own)
    with own own' show ?thesis by simp
  qed
qed

end
