(* ===== verification/Routing.thy ===== *)
theory Routing
  imports Placement
begin

text \<open>
  \<^verbatim>\<open>internal/migrate\<close>: the routing table of \<^verbatim>\<open>route.go\<close> (\<^verbatim>\<open>Class\<close>, \<^verbatim>\<open>Mutates\<close>, \<^verbatim>\<open>Decide\<close>), the ramp's key split
  (\<^verbatim>\<open>InRange\<close>, \<^verbatim>\<open>InHold\<close>, \<^verbatim>\<open>rampHash\<close>), the narrowing of a spread placement to one key (\<^verbatim>\<open>OwnerOf\<close>, \<^verbatim>\<open>InMove\<close>,
  \<^verbatim>\<open>Narrow\<close>, \<^verbatim>\<open>FirstLeg\<close>), and the upload id codec of \<^verbatim>\<open>uploadid.go\<close>.

  The hash is computed on 64-bit words and the ratio comparison on IEEE doubles, as the code does. The
  lemmas show that a larger ramp holds every key of a smaller one, whatever the rounding, that a read
  first goes where an accepted write of the same key goes, and which leg a key is narrowed to.
\<close>

subsection \<open>Operation classes\<close>

datatype op_class = ClassRead | ClassWrite | ClassDelete | ClassList | ClassBucket | ClassUpload | ClassService

definition Class :: "op \<Rightarrow> op_class" where
  "Class o' =
     (if o' \<in> {OpUploadPart, OpUploadPartCopy, OpCompleteMultipartUpload, OpAbortMultipartUpload, OpListParts}
      then ClassUpload
      else if o' \<in> {OpGetObject, OpHeadObject, OpGetObjectAcl, OpGetObjectAttributes, OpGetObjectTagging,
                    OpGetObjectLegalHold, OpGetObjectRetention, OpGetObjectTorrent, OpSelectObjectContent}
      then ClassRead
      else if o' \<in> {OpPutObject, OpCopyObject, OpPostObject, OpCreateMultipartUpload, OpPutObjectAcl,
                    OpPutObjectTagging, OpPutObjectLegalHold, OpPutObjectRetention, OpRestoreObject}
      then ClassWrite
      else if o' \<in> {OpDeleteObject, OpDeleteObjects, OpDeleteObjectTagging} then ClassDelete
      else if o' \<in> {OpListObjects, OpListObjectsV2, OpListObjectVersions, OpListMultipartUploads} then ClassList
      else if o' = OpListBuckets then ClassService
      else ClassBucket)"

definition Mutates :: "op \<Rightarrow> string \<Rightarrow> bool" where
  "Mutates o' m =
     (case Class o' of
        ClassWrite \<Rightarrow> True
      | ClassDelete \<Rightarrow> True
      | ClassRead \<Rightarrow> False
      | ClassList \<Rightarrow> False
      | ClassService \<Rightarrow> False
      | _ \<Rightarrow> m \<noteq> ''GET'' \<and> m \<noteq> ''HEAD'' \<and> m \<noteq> ''OPTIONS'')"

subsection \<open>The ramp\<close>

definition fnv1a :: "string \<Rightarrow> u64" where
  "fnv1a key = foldl (\<lambda>h c. (h XOR of_nat (of_char c)) * 1099511628211) 14695981039346656037 key"

definition mix64 :: "u64 \<Rightarrow> u64" where
  "mix64 x =
     (let x = x XOR drop_bit 33 x; x = x * 0xff51afd7ed558ccd;
          x = x XOR drop_bit 33 x; x = x * 0xc4ceb9fe1a85ec53
      in x XOR drop_bit 33 x)"

definition rampHash :: "string \<Rightarrow> u64" where
  "rampHash key = mix64 (fnv1a key)"

datatype route_error = UnknownRampHash string | OwnersDoNotCover u64

definition hasPrefixOf :: "string list \<Rightarrow> string \<Rightarrow> bool" where
  "hasPrefixOf ps key = list_ex (\<lambda>p. prefix p key) ps"

definition inRangeOf :: "ramp \<Rightarrow> hash_range \<Rightarrow> string \<Rightarrow> route_error + bool" where
  "inRangeOf r rg key =
     (if rHash r \<noteq> RampHash then Inl (UnknownRampHash (rHash r))
      else let h = rampHash key; fr = rgFrom rg; to = rgTo rg in
        if h < fr \<or> to < h then Inr False
        else if hasPrefixOf (rPrefixes r) key then Inr True
        else if fle (rRatio r) (Fin 0) then Inr False
        else if fle (Fin 1) (rRatio r) then Inr True
        else Inr (flt (ofU64 (h - fr)) (fmul (rRatio r) (fadd (ofU64 (to - fr)) (Fin 1)))))"

definition InRange :: "ramp option \<Rightarrow> string \<Rightarrow> route_error + bool" where
  "InRange ro key =
     (case ro of
        None \<Rightarrow> Inr False
      | Some r \<Rightarrow>
          (case rRange r of
             Some rg \<Rightarrow> inRangeOf r rg key
           | None \<Rightarrow>
               if hasPrefixOf (rPrefixes r) key then Inr True
               else if fle (rRatio r) (Fin 0) then Inr False
               else if fle (Fin 1) (rRatio r) then Inr True
               else if rHash r \<noteq> RampHash then Inl (UnknownRampHash (rHash r))
               else Inr (rampHash key < toU64 (fmul (rRatio r) (ofU64 (- 1))))))"

definition InRangeHash :: "hash_range \<Rightarrow> string \<Rightarrow> bool" where
  "InRangeHash rg key = (let h = rampHash key in rgFrom rg \<le> h \<and> h \<le> rgTo rg)"

definition holdRamp :: "ramp \<Rightarrow> ramp_hold \<Rightarrow> ramp" where
  "holdRamp r h = \<lparr>rHash = rHash r, rRatio = hRatio h, rPrefixes = hPrefixes h, rRange = rRange r, rHold = None\<rparr>"

definition InHold :: "ramp option \<Rightarrow> string \<Rightarrow> route_error + bool" where
  "InHold ro key =
     (case ro of
        None \<Rightarrow> Inr False
      | Some r \<Rightarrow> (case rHold r of None \<Rightarrow> Inr False | Some h \<Rightarrow> InRange (Some (holdRamp r h)) key))"

subsection \<open>The routing table\<close>

datatype side = Primary | Source

record route =
  rtCluster :: side
  rtFallback :: bool
  rtBoth :: bool
  rtMerge :: bool
  rtHeld :: bool

definition toPrimary :: route where
  "toPrimary = \<lparr>rtCluster = Primary, rtFallback = False, rtBoth = False, rtMerge = False, rtHeld = False\<rparr>"

definition Decide :: "placement \<Rightarrow> op_class \<Rightarrow> string \<Rightarrow> route_error + route" where
  "Decide p class key =
     (if pSource p = '''' \<or> pState p = StateActive then Inr toPrimary
      else if pState p = StateCutover then
        if class = ClassDelete then Inr (toPrimary\<lparr>rtBoth := True\<rparr>) else Inr toPrimary
      else if class = ClassWrite \<or> class = ClassRead then
        let settled = (if class = ClassRead then toPrimary\<lparr>rtFallback := True\<rparr> else toPrimary) in
        if pState p = StateRamping then
          (case InRange (pRamp p) key of
             Inl e \<Rightarrow> Inl e
           | Inr True \<Rightarrow> Inr settled
           | Inr False \<Rightarrow>
               (case InHold (pRamp p) key of
                  Inl e \<Rightarrow> Inl e
                | Inr held \<Rightarrow>
                    if held \<and> class = ClassWrite then Inr (toPrimary\<lparr>rtHeld := True\<rparr>)
                    else if held then Inr (toPrimary\<lparr>rtFallback := True\<rparr>)
                    else Inr (toPrimary\<lparr>rtCluster := Source\<rparr>)))
        else Inr settled
      else if class = ClassDelete then Inr (toPrimary\<lparr>rtBoth := True\<rparr>)
      else if class = ClassList then Inr (toPrimary\<lparr>rtMerge := True\<rparr>)
      else Inr toPrimary)"

subsection \<open>One key of a spread placement\<close>

definition OwnerOf :: "placement \<Rightarrow> string \<Rightarrow> route_error + string" where
  "OwnerOf p key =
     (if pKeyHash p \<noteq> RampHash then Inl (UnknownRampHash (pKeyHash p))
      else let h = rampHash key; leg = OwnerIn (snd (Scope p key)) h in
        if leg = '''' then Inl (OwnersDoNotCover h) else Inr leg)"

definition InMove :: "placement \<Rightarrow> string \<Rightarrow> bool" where
  "InMove p key =
     (case pMove p of
        None \<Rightarrow> False
      | Some m \<Rightarrow> InRangeHash (mRange m) key \<and> fst (Scope p key) = mScope m)"

definition onLeg :: "placement \<Rightarrow> string \<Rightarrow> placement" where
  "onLeg p i =
     (let l = getLeg (legsOf p) i in
      zeroPlacement\<lparr>pState := StateActive, pPrimary := lCluster l,
        pNames := Some (fmupd (lCluster l) (lBucket l) fmempty), pCreated := pCreated p,
        pReadOnly := pReadOnly p, pRejectWrites := pRejectWrites p, pBarrier := pBarrier p\<rparr>)"

definition Narrow :: "placement \<Rightarrow> string \<Rightarrow> route_error + placement" where
  "Narrow p key =
     (case pMove p of
        Some m \<Rightarrow>
          if pKeyHash p \<noteq> RampHash then Inl (UnknownRampHash (pKeyHash p))
          else if InMove p key then Inr (MoveView p m)
          else map_sum id (onLeg p) (OwnerOf p key)
      | None \<Rightarrow> map_sum id (onLeg p) (OwnerOf p key))"

text \<open>\<^verbatim>\<open>p.Owners[0]\<close> panics on a placement without owners: \<open>None\<close>.\<close>

definition FirstLeg :: "placement \<Rightarrow> placement option" where
  "FirstLeg p = (case ownersOf p of [] \<Rightarrow> None | ow # _ \<Rightarrow> Some (onLeg p (oLeg ow)))"

subsection \<open>Upload ids\<close>

definition isLowerHex :: "string \<Rightarrow> bool" where
  "isLowerHex s = list_all (\<lambda>c. isDigit c \<or> (CHR ''a'' \<le> c \<and> c \<le> CHR ''f'')) s"

definition SplitUploadPrefix :: "string \<Rightarrow> string \<times> string" where
  "SplitUploadPrefix pre =
     (let c = takeWhile (\<lambda>c. c \<noteq> CHR ''.'') pre in (c, drop (length c + 1) pre))"

definition encodeUploadID :: "string \<Rightarrow> string \<Rightarrow> string" where
  "encodeUploadID clusterID backendID = (if backendID = '''' then '''' else clusterID @ ''~'' @ backendID)"

definition DecodeUploadID :: "string \<Rightarrow> string \<times> string \<times> bool" where
  "DecodeUploadID v =
     (let i = length (takeWhile (\<lambda>c. c \<noteq> CHR ''~'') v) in
      if CHR ''~'' \<in> set v \<and>
         (i = 6 \<and> isLowerHex (take i v) \<or>
          i = 13 \<and> v ! 6 = CHR ''.'' \<and> isLowerHex (take 6 v) \<and> isLowerHex (take 6 (drop 7 v)))
      then (take i v, drop (i + 1) v, True) else ('''', v, False))"

subsection \<open>What a ramp holds\<close>

text \<open>A ratio as validation leaves it: a double between 0 and 1.\<close>

definition ratio_ok :: "float64 \<Rightarrow> bool" where
  "ratio_ok x \<longleftrightarrow> isDouble x \<and> fle (Fin 0) x \<and> fle x (Fin 1)"

lemma ratio_ok_cases:
  assumes "ratio_ok x" obtains q where "x = Fin q" "0 \<le> q" "q \<le> 1" "fround q = q"
  using assms by (cases x) (auto simp: ratio_ok_def fle_def isDouble_def)

text \<open>The parts of \<open>InRange\<close> for a ramp split by the hash this build implements.\<close>

definition in_limits :: "hash_range option \<Rightarrow> string \<Rightarrow> bool" where
  "in_limits rgo key = (case rgo of None \<Rightarrow> True | Some rg \<Rightarrow> InRangeHash rg key)"

definition by_ratio :: "hash_range option \<Rightarrow> float64 \<Rightarrow> string \<Rightarrow> bool" where
  "by_ratio rgo q key \<longleftrightarrow>
     \<not> fle q (Fin 0) \<and>
     (fle (Fin 1) q \<or>
      (case rgo of
         None \<Rightarrow> rampHash key < toU64 (fmul q (ofU64 (- 1)))
       | Some rg \<Rightarrow> flt (ofU64 (rampHash key - rgFrom rg)) (fmul q (fadd (ofU64 (rgTo rg - rgFrom rg)) (Fin 1)))))"

lemma InRange_eq:
  assumes "rHash r = RampHash"
  shows "InRange (Some r) key =
         Inr (in_limits (rRange r) key \<and> (hasPrefixOf (rPrefixes r) key \<or> by_ratio (rRange r) (rRatio r) key))"
  using assms
  by (auto simp: InRange_def inRangeOf_def in_limits_def by_ratio_def InRangeHash_def Let_def not_less
      split: option.splits)

lemma InHold_eq:
  assumes "rHash r = RampHash" "rHold r = Some h"
  shows "InHold (Some r) key =
         Inr (in_limits (rRange r) key \<and> (hasPrefixOf (hPrefixes h) key \<or> by_ratio (rRange r) (hRatio h) key))"
  using assms InRange_eq [of "holdRamp r h" key] by (simp add: InHold_def holdRamp_def)

lemma width_bounds:
  "\<exists>x. fadd (ofU64 w) (Fin 1) = Fin x \<and> 0 \<le> x \<and> x \<le> pow2 65"
proof -
  have b: "0 \<le> fround (uval w) + 1" "fround (uval w) + 1 \<le> pow2 65"
    using fround_uval_bounds [of w] by (auto simp: pow2_def)
  then have "ofRat (fround (uval w) + 1) = Fin (fround (fround (uval w) + 1))"
    by (intro ofRat_Fin) (auto simp: abs_of_nonneg pow2_mono intro: order_trans)
  with b show ?thesis by (auto simp: ofU64_eq fround_nonneg fround_le_pow2)
qed

text \<open>A larger ratio holds every key of a smaller one: rounding is monotone, so it cannot take a key back.\<close>

lemma by_ratio_mono:
  assumes "ratio_ok q" "ratio_ok q'" "fle q q'" "by_ratio rgo q key"
  shows "by_ratio rgo q' key"
proof -
  obtain x where x: "q = Fin x" "0 \<le> x" "x \<le> 1" "fround x = x" using assms(1) by (rule ratio_ok_cases)
  obtain y where y: "q' = Fin y" "0 \<le> y" "y \<le> 1" "fround y = y" using assms(2) by (rule ratio_ok_cases)
  have xy: "x \<le> y" using assms(3) x y by (auto simp: fle_def)
  have x0: "0 < x" using assms(4) x by (auto simp: by_ratio_def fle_def)
  show ?thesis
  proof (cases "1 \<le> y")
    case True
    then show ?thesis using x0 xy y by (auto simp: by_ratio_def fle_def)
  next
    case False
    note lt = False
    show ?thesis
    proof (cases rgo)
      case None
      have "rampHash key < toU64 (Fin (fround (x * pow2 64)))"
        using assms(4) None x lt xy by (auto simp: by_ratio_def fle_def fmul_ratio_max)
      also have "\<dots> \<le> toU64 (Fin (fround (y * pow2 64)))"
        using xy x0 y lt by (intro toU64_mono fround_nonneg fround_mono mult_right_mono scaled_double_below) auto
      finally show ?thesis using None y x0 xy by (auto simp: by_ratio_def fle_def fmul_ratio_max)
    next
      case (Some rg)
      obtain w where w: "fadd (ofU64 (rgTo rg - rgFrom rg)) (Fin 1) = Fin w" "0 \<le> w" "w \<le> pow2 65"
        using width_bounds by blast
      have r: "ofRat (x * w) = Fin (fround (x * w))" "ofRat (y * w) = Fin (fround (y * w))"
        using fmul_ratio [of x w] fmul_ratio [of y w] x y w by simp_all
      have "fround (uval (rampHash key - rgFrom rg)) < fround (x * w)"
        using assms(4) Some x lt xy w r by (auto simp: by_ratio_def fle_def ofU64_eq)
      also have "\<dots> \<le> fround (y * w)" using xy w by (intro fround_mono mult_right_mono)
      finally show ?thesis using Some y x0 xy w r by (auto simp: by_ratio_def fle_def ofU64_eq)
    qed
  qed
qed

lemma hasPrefixOf_mono: "set ps \<subseteq> set ps' \<Longrightarrow> hasPrefixOf ps key \<Longrightarrow> hasPrefixOf ps' key"
  by (auto simp: hasPrefixOf_def list_ex_iff)

lemma InRange_mono:
  assumes "rHash r = RampHash" "rHash r' = RampHash" "rRange r' = rRange r" "ratio_ok (rRatio r)" "ratio_ok (rRatio r')"
    and "fle (rRatio r) (rRatio r')" "set (rPrefixes r) \<subseteq> set (rPrefixes r')" "InRange (Some r) key = Inr True"
  shows "InRange (Some r') key = Inr True"
  using assms by_ratio_mono [of "rRatio r" "rRatio r'" "rRange r" key] hasPrefixOf_mono [of "rPrefixes r" "rPrefixes r'" key]
  by (auto simp: InRange_eq)

subsection \<open>What the table gives\<close>

lemma Decide_read_follows_write:
  assumes "Decide p ClassWrite key = Inr w" "\<not> rtHeld w"
  shows "\<exists>r. Decide p ClassRead key = Inr r \<and> rtCluster r = rtCluster w"
  using assms unfolding Decide_def
  by (auto simp: toPrimary_def Let_def split: if_splits sum.splits bool.splits)

lemma Decide_delete_both:
  "pSource p \<noteq> '''' \<Longrightarrow> pState p \<noteq> StateActive \<Longrightarrow> Decide p ClassDelete key = Inr (toPrimary\<lparr>rtBoth := True\<rparr>)"
  by (simp add: Decide_def)

lemma Decide_total:
  assumes "case pRamp p of None \<Rightarrow> True | Some r \<Rightarrow> rHash r = RampHash"
  shows "\<exists>r. Decide p c key = Inr r"
proof -
  have "\<exists>b. InRange (pRamp p) key = Inr b"
    using assms InRange_eq by (cases "pRamp p") (auto simp: InRange_def)
  moreover have "\<exists>b. InHold (pRamp p) key = Inr b"
    using assms InRange_eq by (cases "pRamp p") (auto simp: InHold_def holdRamp_def split: option.splits)
  ultimately show ?thesis by (auto simp: Decide_def Let_def split: bool.splits)
qed

text \<open>The backend bucket a side of a placement is, by cluster and name.\<close>

definition roleBucket :: "placement \<Rightarrow> string \<Rightarrow> string \<times> string" where
  "roleBucket p role = (ClusterOf p role, getStr (namesOf p) role)"

definition sideBucket :: "placement \<Rightarrow> side \<Rightarrow> string \<times> string" where
  "sideBucket p s = (case s of Primary \<Rightarrow> roleBucket p (pPrimary p) | Source \<Rightarrow> roleBucket p (pSource p))"

text \<open>Where a write of a key is accepted: no bucket while the key is held.\<close>

definition acceptsWrite :: "placement \<Rightarrow> string \<Rightarrow> (string \<times> string) option" where
  "acceptsWrite p key =
     (case Decide p ClassWrite key of
        Inl _ \<Rightarrow> None
      | Inr r \<Rightarrow> if rtHeld r then None else Some (sideBucket p (rtCluster r)))"

text \<open>The buckets a read of a key tries, in order.\<close>

definition readOrder :: "placement \<Rightarrow> string \<Rightarrow> (string \<times> string) list" where
  "readOrder p key =
     (case Decide p ClassRead key of
        Inl _ \<Rightarrow> []
      | Inr r \<Rightarrow> sideBucket p (rtCluster r) #
           (if rtFallback r then [sideBucket p (case rtCluster r of Primary \<Rightarrow> Source | Source \<Rightarrow> Primary)] else []))"

lemma acceptsWrite_read: "acceptsWrite p key = Some b \<Longrightarrow> \<exists>bs. readOrder p key = b # bs"
  using Decide_read_follows_write [of p key]
  by (auto simp: acceptsWrite_def readOrder_def split: sum.splits if_splits)

subsection \<open>What narrowing gives\<close>

lemma OwnerOf_tables:
  assumes "tables_ok p" "pKeyHash p = RampHash" "'''' \<notin> oLeg ` set (snd (Scope p key))"
  shows "OwnerOf p key = Inr (ownerAt p key (rampHash key))"
proof -
  obtain ow where "ow \<in> set (snd (Scope p key))" "ownerAt p key (rampHash key) = oLeg ow"
    using ownerAt_range [OF assms(1)] by blast
  then have "ownerAt p key (rampHash key) \<noteq> ''''" using assms(3) by (metis imageI)
  then show ?thesis using assms(2) by (simp add: OwnerOf_def ownerAt_def Let_def)
qed

lemma InMove_owner:
  assumes "tables_ok p" "pMove p = Some m" "InMove p key"
    and "ow \<in> set (goSlice (scopeTable p (mScope m)))" "oLeg ow = mFrom m" "oFrom ow \<le> rgFrom (mRange m)" "rgTo (mRange m) \<le> oTo ow"
  shows "ownerAt p key (rampHash key) = mFrom m"
proof -
  have s: "fst (Scope p key) = mScope m" "inRg (mRange m) (rampHash key)"
    using assms(2,3) by (auto simp: InMove_def InRangeHash_def inRg_def Let_def)
  then have "goSlice (scopeTable p (mScope m)) = snd (Scope p key)"
    using scopeTable_Scope [of p key] assms(1) by (simp add: tables_ok_def)
  with assms s have "OwnerIn (snd (Scope p key)) (rampHash key) = oLeg ow"
    by (intro partition_owner Scope_partition) (auto simp: inRg_def)
  with assms(5) show ?thesis by (simp add: ownerAt_def)
qed

lemma onLeg_write: "acceptsWrite (onLeg p i) key = Some (lCluster (getLeg (legsOf p) i), lBucket (getLeg (legsOf p) i))"
  by (simp add: acceptsWrite_def Decide_def onLeg_def zeroPlacement_def toPrimary_def sideBucket_def
      roleBucket_def ClusterOf_def Let_def)

subsection \<open>What the codec gives\<close>

lemma takeWhile_tilde: "CHR ''~'' \<notin> set pre \<Longrightarrow> takeWhile (\<lambda>c. c \<noteq> CHR ''~'') (pre @ CHR ''~'' # b) = pre"
  by (subst takeWhile_append2) auto

lemma isLowerHex_no_tilde: "isLowerHex s \<Longrightarrow> CHR ''~'' \<notin> set s"
  by (auto simp: isLowerHex_def list_all_iff isDigit_def less_eq_char_def)

text \<open>A prefix as \<^verbatim>\<open>rewriteUploadID\<close> writes one: a cluster id, or a cluster id and a bucket tag.\<close>

definition uploadPrefix :: "string \<Rightarrow> bool" where
  "uploadPrefix pre \<longleftrightarrow>
     (\<exists>c. pre = c \<and> length c = 6 \<and> isLowerHex c) \<or>
     (\<exists>c t. pre = c @ ''.'' @ t \<and> length c = 6 \<and> isLowerHex c \<and> length t = 6 \<and> isLowerHex t)"

lemma uploadPrefix_no_tilde: "uploadPrefix pre \<Longrightarrow> CHR ''~'' \<notin> set pre"
  by (auto simp: uploadPrefix_def dest: isLowerHex_no_tilde)

lemma DecodeUploadID_encode:
  assumes "uploadPrefix pre" "backendID \<noteq> ''''"
  shows "DecodeUploadID (encodeUploadID pre backendID) = (pre, backendID, True)"
  using assms takeWhile_tilde [OF uploadPrefix_no_tilde [OF assms(1)], of backendID]
  by (auto simp: DecodeUploadID_def encodeUploadID_def Let_def uploadPrefix_def nth_append)

lemma SplitUploadPrefix_tag:
  "isLowerHex c \<Longrightarrow> SplitUploadPrefix (c @ ''.'' @ t) = (c, t)"
proof -
  assume "isLowerHex c"
  then have "takeWhile (\<lambda>x. x \<noteq> CHR ''.'') (c @ ''.'' @ t) = c"
    by (subst takeWhile_append2) (auto simp: isLowerHex_def list_all_iff isDigit_def less_eq_char_def)
  then show ?thesis by (simp add: SplitUploadPrefix_def Let_def)
qed

text \<open>What the decoder does not recognize it returns whole.\<close>

lemma DecodeUploadID_whole: "DecodeUploadID v = (pre, b, False) \<Longrightarrow> pre = '''' \<and> b = v"
  by (auto simp: DecodeUploadID_def Let_def split: if_splits)

lemma DecodeUploadID_inverse: "DecodeUploadID v = (pre, b, True) \<Longrightarrow> v = pre @ ''~'' @ b"
proof -
  assume d: "DecodeUploadID v = (pre, b, True)"
  let ?p = "takeWhile (\<lambda>c. c \<noteq> CHR ''~'') v"
  have t: "CHR ''~'' \<in> set v" "pre = take (length ?p) v" "b = drop (length ?p + 1) v"
    using d by (auto simp: DecodeUploadID_def Let_def split: if_splits)
  have "?p \<noteq> v" using t(1) by (metis set_takeWhileD)
  then have l: "length ?p < length v"
    by (metis length_takeWhile_le nat_less_le takeWhile_eq_take take_all)
  have "v ! length ?p = CHR ''~''" using nth_length_takeWhile [OF l] by simp
  then show ?thesis using id_take_nth_drop [OF l] t by simp
qed

end
