(* ===== verification/Legs.thy ===== *)
theory Legs
  imports Placement
begin

text \<open>
  Schema v2 of a placement, \<^verbatim>\<open>internal/directory/legs.go\<close>: what it says on its own (\<^verbatim>\<open>checkV2\<close>, with
  \<^verbatim>\<open>checkPrefixes\<close> of \<^verbatim>\<open>scopes.go\<close>), what this build routes of it (\<^verbatim>\<open>checkSpread\<close>), and the conversions between
  the two schemas (\<^verbatim>\<open>fromV2\<close>, \<^verbatim>\<open>ToV2\<close>). A check returns its error, or \<open>None\<close>.

  The lemmas relate the checks to \<open>tables_ok\<close>, on which routing rests, and show that a plain placement
  survives the round trip through schema v2.
\<close>

definition MaxLegs :: nat where "MaxLegs = 32"

definition legIDOK :: "string \<Rightarrow> bool" where
  "legIDOK s =
     (case s of
        [] \<Rightarrow> False
      | c # cs \<Rightarrow> (isLower c \<or> isDigit c) \<and> length cs \<le> 62 \<and>
          list_all (\<lambda>c. isLower c \<or> isDigit c \<or> c = CHR ''_'' \<or> c = CHR ''-'') cs)"

definition validRampHashName :: "string \<Rightarrow> bool" where
  "validRampHashName s \<longleftrightarrow>
     s \<noteq> '''' \<and> length s \<le> 64 \<and>
     list_all (\<lambda>(i, c). isLower c \<or> isDigit c \<or> c = CHR ''-'' \<and> 0 < i) (enumerate 0 s)"

definition checkRule :: "placement \<Rightarrow> nat \<Rightarrow> prefix_rule \<Rightarrow> message option" where
  "checkRule p i r =
     (if prPrefix r = '''' then Some (''prefixes[%d].prefix: required'', [ANat i])
      else if MaxPrefixLen < length (prPrefix r)
      then Some (''prefixes[%d].prefix: %d bytes; a prefix has at most %d'', [ANat i, ANat (length (prPrefix r)), ANat MaxPrefixLen])
      else if 0 < i \<and> prPrefix r \<le> prPrefix (rulesOf p ! (i - 1))
      then Some (''prefixes[%d].prefix: %q; rules are sorted by prefix, each prefix once'', [ANat i, AStr (prPrefix r)])
      else case checkOwners (prOwners r) (legsOf p) of
             Some e \<Rightarrow> Some (''prefixes[%d] (%q): %w'', [ANat i, AStr (prPrefix r), AOwners e])
           | None \<Rightarrow> None)"

text \<open>The first error of a loop over a list with its index.\<close>

definition firstError :: "('a \<Rightarrow> 'b option) \<Rightarrow> 'a list \<Rightarrow> 'b option" where
  "firstError f xs = (case List.map_filter f xs of [] \<Rightarrow> None | e # _ \<Rightarrow> Some e)"

definition checkPrefixes :: "placement \<Rightarrow> message option" where
  "checkPrefixes p =
     (if rulesOf p = [] then None
      else if MaxPrefixRules < length (rulesOf p)
      then Some (''prefixes: %d rules; a placement has at most %d (ADR-0020)'', [ANat (length (rulesOf p)), ANat MaxPrefixRules])
      else if pKeyHash p = '''' then Some (''hash: required when prefix rules split the key space, e.g. %s'', [AStr RampHash])
      else firstError (\<lambda>(i, r). checkRule p i r) (enumerate 0 (rulesOf p)))"

definition checkLeg :: "placement \<Rightarrow> string \<Rightarrow> message option" where
  "checkLeg p i =
     (let l = getLeg (legsOf p) i in
      if \<not> legIDOK i then Some (''legs.%s: a leg id is lowercase letters, digits, - and _, starting with a letter or digit'', [AStr i])
      else if lCluster l = '''' then Some (''legs.%s.cluster: required'', [AStr i])
      else if lBucket l = '''' then Some (''legs.%s.bucket: required'', [AStr i])
      else None)"

definition checkMoveLegs :: "placement \<Rightarrow> move \<Rightarrow> message option" where
  "checkMoveLegs p m =
     (if rgTo (mRange m) < rgFrom (mRange m) then Some (''move.range: from is after to'', [])
      else if \<not> hasKey (legsOf p) (mFrom m) then Some (''move.from: unknown leg %q'', [AStr (mFrom m)])
      else if \<not> hasKey (legsOf p) (mTo m) then Some (''move.to: unknown leg %q'', [AStr (mTo m)])
      else if mFrom m = mTo m then Some (''move.to: must differ from move.from'', [])
      else None)"

definition checkV2 :: "placement \<Rightarrow> message option" where
  "checkV2 p =
     (if mapLen (legsOf p) = 0 then Some (''legs: at least one leg is required'', [])
      else if MaxLegs < mapLen (legsOf p)
      then Some (''legs: %d legs; a placement has at most %d (ADR-0018)'', [ANat (mapLen (legsOf p)), ANat MaxLegs])
      else case firstError (checkLeg p) (sortedKeys (legsOf p)) of Some e \<Rightarrow> Some e | None \<Rightarrow>
      if pKeyHash p \<noteq> '''' \<and> \<not> validRampHashName (pKeyHash p) then Some (''hash: %q is not a hash name'', [AStr (pKeyHash p)])
      else if 1 < length (ownersOf p) \<and> pKeyHash p = ''''
      then Some (''hash: required when owners split the key space, e.g. %s'', [AStr RampHash])
      else case checkOwners (ownersOf p) (legsOf p) of Some e \<Rightarrow> Some (''%w'', [AOwners e]) | None \<Rightarrow>
      case checkPrefixes p of Some e \<Rightarrow> Some e | None \<Rightarrow>
      case (case pMove p of None \<Rightarrow> None | Some m \<Rightarrow> checkMoveLegs p m) of Some e \<Rightarrow> Some e | None \<Rightarrow>
      if pTarget p \<noteq> '''' \<and> \<not> hasKey (legsOf p) (pTarget p) then Some (''target: unknown leg %q'', [AStr (pTarget p)])
      else if pCold p \<noteq> '''' \<and> \<not> hasKey (legsOf p) (pCold p) then Some (''cold: unknown leg %q'', [AStr (pCold p)])
      else None)"

definition checkMove :: "placement \<Rightarrow> move \<Rightarrow> message option" where
  "checkMove p m =
     (case scopeTable p (mScope m) of
        None \<Rightarrow> Some (''move.scope: %q is not a prefix rule of this bucket'', [AStr (mScope m)])
      | Some table \<Rightarrow>
          if \<not> list_ex (\<lambda>ow. oLeg ow = mFrom m \<and> oFrom ow \<le> rgFrom (mRange m) \<and> rgTo (mRange m) \<le> oTo ow) table
          then Some (''move.range: leg %q does not own all of %s%s'', [AStr (mFrom m), ARange (mRange m), AStr (mScope m)])
          else if mScope m \<noteq> '''' \<and>
               (case mRamp m of None \<Rightarrow> False
                | Some r \<Rightarrow> rPrefixes r \<noteq> [] \<or> (case rHold r of None \<Rightarrow> False | Some h \<Rightarrow> hPrefixes h \<noteq> []))
          then Some (''move.ramp.prefixes: a move within a prefix rule ramps by ratio only (ADR-0020)'', [])
          else if pState p = StateRamping \<and> mRamp m = None then Some (''move.ramp: required in state RAMPING'', [])
          else if pState p \<noteq> StateRamping \<and> mRamp m \<noteq> None then Some (''move.ramp: only allowed in state RAMPING'', [])
          else if pState p \<noteq> StateCutover \<and> mCutover m \<noteq> None then Some (''move.cutover: only allowed in state CUTOVER'', [])
          else None)"

definition checkSpread :: "placement \<Rightarrow> message option" where
  "checkSpread p =
     (if pTarget p \<noteq> '''' \<or> pCold p \<noteq> '''' \<or> pTier p \<noteq> '''' \<or> pLifecycle p \<noteq> ''''
      then Some (''target, cold, tier and lifecycle are not set on a placement spread over legs in this build'', [])
      else if pState p = StateActive \<and> pMove p \<noteq> None then Some (''move: not allowed in state ACTIVE'', [])
      else if pState p \<noteq> StateActive \<and> pMove p = None then Some (''move: required in state %s'', [AStr (pState p)])
      else case pMove p of None \<Rightarrow> None | Some m \<Rightarrow> checkMove p m)"

definition sameClusterMove :: "placement \<Rightarrow> move \<Rightarrow> bool" where
  "sameClusterMove p m =
     (case (fmlookup (legsOf p) (mFrom m), fmlookup (legsOf p) (mTo m)) of
        (Some fr, Some to) \<Rightarrow> lCluster fr = lCluster to
      | _ \<Rightarrow> False)"

text \<open>The names of a plain placement from its legs: two legs on one cluster are refused.\<close>

fun legNames :: "(string, leg) fmap \<Rightarrow> (string, string) fmap \<Rightarrow> string list \<Rightarrow> message + (string, string) fmap" where
  "legNames ls ns [] = Inr ns"
| "legNames ls ns (i # is) =
     (let l = getLeg ls i in
      if hasKey ns (lCluster l)
      then Inl (''legs: two legs on cluster %q, but one leg owns every key and nothing moves: a plain placement names one bucket per cluster'', [AStr (lCluster l)])
      else legNames ls (fmupd (lCluster l) (lBucket l) ns) is)"

definition v1Roles :: "placement \<Rightarrow> string \<Rightarrow> (string, string) fmap \<Rightarrow> message + placement" where
  "v1Roles p own ns =
     (let cluster = (\<lambda>i. lCluster (getLeg (legsOf p) i));
          v1 = p\<lparr>pLegs := None, pOwners := None, pMove := None, pKeyHash := '''', pNames := Some ns\<rparr> in
      case pMove p of
        Some m \<Rightarrow>
          if pState p = StateActive then Inl (''move: not allowed in state ACTIVE'', [])
          else if mRange m \<noteq> FullRange then Inl (''move.range: a move of part of the key space needs ADR-0018 N3; this build moves every key'', [])
          else if mFrom m \<noteq> own then Inl (''move.from: %q does not own the range it moves; %q does'', [AStr (mFrom m), AStr own])
          else Inr (v1\<lparr>pSource := cluster (mFrom m), pPrimary := cluster (mTo m), pRamp := mRamp m, pCutover := mCutover m\<rparr>)
      | None \<Rightarrow>
          if pState p = StateActive then Inr (v1\<lparr>pPrimary := cluster own\<rparr>)
          else Inl (''move: required in state %s'', [AStr (pState p)]))"

definition fromV2 :: "placement \<Rightarrow> message + placement" where
  "fromV2 p =
     (if \<not> isV2 p then Inr p
      else if pPrimary p \<noteq> '''' \<or> pSource p \<noteq> '''' \<or> pNames p \<noteq> None \<or> pRamp p \<noteq> None \<or> pCutover p \<noteq> None
      then Inl (''a placement is written in one schema: legs, owners and move (v2), or primary, source, names, ramp and cutover (v1), not both'', [])
      else case checkV2 p of Some e \<Rightarrow> Inl e | None \<Rightarrow>
      if 1 < length (ownersOf p) \<or> 0 < length (rulesOf p) \<or>
         (case pMove p of None \<Rightarrow> False | Some m \<Rightarrow> mRange m \<noteq> FullRange \<or> sameClusterMove p m)
      then (case checkSpread p of Some e \<Rightarrow> Inl e | None \<Rightarrow> Inr p)
      else case legNames (legsOf p) fmempty (sortedKeys (legsOf p)) of
        Inl e \<Rightarrow> Inl e
      | Inr ns \<Rightarrow>
     (case v1Roles p (oLeg (hd (ownersOf p))) ns of
        Inl e \<Rightarrow> Inl e
      | Inr v1 \<Rightarrow>
          Inr (v1\<lparr>pTarget := (if pTarget p \<noteq> '''' then lCluster (getLeg (legsOf p) (pTarget p)) else pTarget v1),
                  pCold := (if pCold p \<noteq> '''' then lCluster (getLeg (legsOf p) (pCold p)) else pCold v1)\<rparr>)))"

definition ToV2 :: "placement \<Rightarrow> placement" where
  "ToV2 p =
     (if Spread p then p
      else let v2 = p\<lparr>pPrimary := '''', pSource := '''', pNames := None, pRamp := None, pCutover := None,
                      pLegs := Some (fmmap_keys (\<lambda>cl bucket. \<lparr>lCluster = cl, lBucket = bucket\<rparr>) (namesOf p))\<rparr>;
               own = (if pState p \<noteq> StateActive then pSource p else pPrimary p);
               v2 = (if pState p \<noteq> StateActive
                     then v2\<lparr>pMove := Some \<lparr>mScope = '''', mRange = FullRange, mFrom = pSource p, mTo = pPrimary p,
                                            mRamp = pRamp p, mCutover = pCutover p\<rparr>\<rparr> else v2)
           in v2\<lparr>pOwners := Some [\<lparr>oFrom = rgFrom FullRange, oTo = rgTo FullRange, oLeg = own\<rparr>]\<rparr>)"

subsection \<open>What the checks accept\<close>

lemma firstError_None: "firstError f xs = None \<longleftrightarrow> (\<forall>x \<in> set xs. f x = None)"
  by (induction xs) (auto simp: firstError_def List.map_filter_simps split: option.splits list.splits)

definition known :: "placement \<Rightarrow> owner list \<Rightarrow> bool" where
  "known p os \<longleftrightarrow> (\<forall>ow \<in> set os. hasKey (legsOf p) (oLeg ow))"

definition rule_ok :: "placement \<Rightarrow> prefix_rule \<Rightarrow> bool" where
  "rule_ok p r \<longleftrightarrow>
     prPrefix r \<noteq> '''' \<and> length (prPrefix r) \<le> MaxPrefixLen \<and> partition_table (prOwners r) \<and> known p (prOwners r)"

lemma checkRule_None:
  "checkRule p i r = None \<longleftrightarrow> rule_ok p r \<and> (0 < i \<longrightarrow> prPrefix (rulesOf p ! (i - 1)) < prPrefix r)"
proof -
  have "checkOwners (prOwners r) (legsOf p) = None \<longleftrightarrow> partition_table (prOwners r) \<and> known p (prOwners r)"
    by (simp add: checkOwners_iff known_def)
  then show ?thesis by (auto simp: checkRule_def rule_ok_def not_less not_le split: option.splits)
qed

lemma sorted_wrt_adjacent:
  "(\<forall>i. Suc i < length xs \<longrightarrow> xs ! i < (xs ! Suc i :: 'a::linorder)) \<longleftrightarrow> sorted_wrt (<) xs"
  by (auto simp: sorted_wrt_iff_nth_Suc_transp)

lemma checkPrefixes_None:
  "checkPrefixes p = None \<longleftrightarrow>
     rulesOf p = [] \<or>
     length (rulesOf p) \<le> MaxPrefixRules \<and> pKeyHash p \<noteq> '''' \<and>
     sorted_wrt (<) (map prPrefix (rulesOf p)) \<and> (\<forall>r \<in> set (rulesOf p). rule_ok p r)"
proof -
  have "(\<forall>x \<in> set (enumerate 0 (rulesOf p)). (case x of (i, r) \<Rightarrow> checkRule p i r) = None) \<longleftrightarrow>
        (\<forall>i < length (rulesOf p). checkRule p i (rulesOf p ! i) = None)"
    unfolding all_set_conv_all_nth by (simp add: nth_enumerate_eq)
  also have "\<dots> \<longleftrightarrow> (\<forall>r \<in> set (rulesOf p). rule_ok p r) \<and>
      (\<forall>i. Suc i < length (rulesOf p) \<longrightarrow> prPrefix (rulesOf p ! i) < prPrefix (rulesOf p ! Suc i))"
    unfolding checkRule_None all_set_conv_all_nth by (auto simp: gr0_conv_Suc)
  also have "\<dots> \<longleftrightarrow> (\<forall>r \<in> set (rulesOf p). rule_ok p r) \<and> sorted_wrt (<) (map prPrefix (rulesOf p))"
    using sorted_wrt_adjacent [of "map prPrefix (rulesOf p)"] by simp
  finally show ?thesis by (auto simp: checkPrefixes_def firstError_None)
qed

lemma sorted_rules_ok:
  assumes "sorted_wrt (<) (map prPrefix rs)" "\<forall>r \<in> set rs. prPrefix r \<noteq> ''''"
  shows "rules_ok rs"
  using assms strict_sorted_imp_sorted by (auto simp: rules_ok_def strict_sorted_iff)

definition move_ok :: "placement \<Rightarrow> move \<Rightarrow> bool" where
  "move_ok p m \<longleftrightarrow>
     rgFrom (mRange m) \<le> rgTo (mRange m) \<and> hasKey (legsOf p) (mFrom m) \<and> hasKey (legsOf p) (mTo m) \<and> mFrom m \<noteq> mTo m"

definition leg_ok :: "placement \<Rightarrow> string \<Rightarrow> bool" where
  "leg_ok p i \<longleftrightarrow> legIDOK i \<and> lCluster (getLeg (legsOf p) i) \<noteq> '''' \<and> lBucket (getLeg (legsOf p) i) \<noteq> ''''"

definition hash_ok :: "placement \<Rightarrow> bool" where
  "hash_ok p \<longleftrightarrow> (pKeyHash p \<noteq> '''' \<longrightarrow> validRampHashName (pKeyHash p)) \<and> (1 < length (ownersOf p) \<longrightarrow> pKeyHash p \<noteq> '''')"

lemma checkV2_None:
  "checkV2 p = None \<longleftrightarrow>
     0 < mapLen (legsOf p) \<and> mapLen (legsOf p) \<le> MaxLegs \<and> (\<forall>i. hasKey (legsOf p) i \<longrightarrow> leg_ok p i) \<and> hash_ok p \<and>
     partition_table (ownersOf p) \<and> known p (ownersOf p) \<and> checkPrefixes p = None \<and>
     (\<forall>m. pMove p = Some m \<longrightarrow> move_ok p m) \<and>
     (pTarget p = '''' \<or> hasKey (legsOf p) (pTarget p)) \<and> (pCold p = '''' \<or> hasKey (legsOf p) (pCold p))"
proof -
  define a b d where "a = firstError (checkLeg p) (sortedKeys (legsOf p))"
    and "b = checkOwners (ownersOf p) (legsOf p)" and "d = (case pMove p of None \<Rightarrow> None | Some m \<Rightarrow> checkMoveLegs p m)"
  have legs: "a = None \<longleftrightarrow> (\<forall>i. hasKey (legsOf p) i \<longrightarrow> leg_ok p i)"
    by (auto simp: a_def firstError_None checkLeg_def leg_ok_def Let_def split: if_splits)
  have owners: "b = None \<longleftrightarrow> partition_table (ownersOf p) \<and> known p (ownersOf p)"
    by (simp add: b_def checkOwners_iff known_def)
  have moves: "d = None \<longleftrightarrow> (\<forall>m. pMove p = Some m \<longrightarrow> move_ok p m)"
    by (cases "pMove p") (auto simp: d_def checkMoveLegs_def move_ok_def)
  have "checkV2 p = None \<longleftrightarrow>
     0 < mapLen (legsOf p) \<and> mapLen (legsOf p) \<le> MaxLegs \<and> a = None \<and> hash_ok p \<and> b = None \<and> checkPrefixes p = None \<and>
     d = None \<and> (pTarget p = '''' \<or> hasKey (legsOf p) (pTarget p)) \<and> (pCold p = '''' \<or> hasKey (legsOf p) (pCold p))"
    unfolding checkV2_def a_def [symmetric] b_def [symmetric] d_def [symmetric] hash_ok_def
    by (cases a; cases b; cases "checkPrefixes p"; cases d) (auto simp del: hasKey_iff)
  then show ?thesis unfolding legs owners moves by blast
qed

lemma checkV2_tables: "checkV2 p = None \<Longrightarrow> tables_ok p"
  by (auto simp: checkV2_None checkPrefixes_None tables_ok_def rule_ok_def intro!: sorted_rules_ok)

lemma checkV2_known: "checkV2 p = None \<Longrightarrow> known p (snd (Scope p key))"
  by (cases rule: Scope_cases [of key p]) (auto simp: checkV2_None checkPrefixes_None rule_ok_def longest_def)

lemma checkV2_owner:
  assumes "checkV2 p = None"
  shows "hasKey (legsOf p) (ownerAt p key h)" "leg_ok p (ownerAt p key h)"
proof -
  show "hasKey (legsOf p) (ownerAt p key h)"
    using ownerAt_range [OF checkV2_tables [OF assms], of key h] checkV2_known [OF assms, of key]
    unfolding known_def by metis
  with assms show "leg_ok p (ownerAt p key h)" by (simp add: checkV2_None)
qed

lemma legIDOK_nonempty [simp]: "\<not> legIDOK ''''"
  by (simp add: legIDOK_def)

text \<open>What \<open>checkSpread\<close> says of a move: it takes a range that its source owns in the move's scope.\<close>

lemma checkSpread_move:
  assumes "checkSpread p = None" "pMove p = Some m"
  shows "pState p \<noteq> StateActive"
    "\<exists>ow \<in> set (goSlice (scopeTable p (mScope m))). oLeg ow = mFrom m \<and> oFrom ow \<le> rgFrom (mRange m) \<and> rgTo (mRange m) \<le> oTo ow"
    "pState p = StateRamping \<longleftrightarrow> mRamp m \<noteq> None"
  using assms by (auto simp: checkSpread_def checkMove_def list_ex_iff split: if_splits option.splits)

subsection \<open>The round trip of a plain placement\<close>

definition plain_v1 :: "placement \<Rightarrow> bool" where
  "plain_v1 p \<longleftrightarrow>
     pLegs p = None \<and> pOwners p = None \<and> pMove p = None \<and> pPrefixes p = None \<and> pKeyHash p = '''' \<and>
     (\<exists>ns. pNames p = Some ns \<and> mapLen ns \<le> MaxLegs \<and>
        (\<forall>c n. fmlookup ns c = Some n \<longrightarrow> legIDOK c \<and> n \<noteq> '''') \<and>
        hasKey ns (pPrimary p) \<and> (pTarget p = '''' \<or> hasKey ns (pTarget p)) \<and> (pCold p = '''' \<or> hasKey ns (pCold p)) \<and>
        (if pState p = StateActive then pSource p = '''' \<and> pRamp p = None \<and> pCutover p = None
         else hasKey ns (pSource p) \<and> pSource p \<noteq> pPrimary p))"

abbreviation (input) legsFrom :: "(string, string) fmap \<Rightarrow> (string, leg) fmap" where
  "legsFrom ns \<equiv> fmmap_keys (\<lambda>cl b. \<lparr>lCluster = cl, lBucket = b\<rparr>) ns"

lemma legNames_legsFrom:
  "distinct is \<Longrightarrow> (\<forall>i \<in> set is. hasKey ns i \<and> \<not> hasKey acc i) \<Longrightarrow>
   legNames (legsFrom ns) acc is = Inr (foldl (\<lambda>acc i. fmupd i (getStr ns i) acc) acc is)"
proof (induction "is" arbitrary: acc)
  case (Cons i "is")
  then obtain b where b: "fmlookup ns i = Some b" by (auto simp: fmlookup_dom_iff)
  have "getLeg (legsFrom ns) i = \<lparr>lCluster = i, lBucket = b\<rparr>" by (simp add: getLeg_def b)
  then have "legNames (legsFrom ns) acc (i # is) = legNames (legsFrom ns) (fmupd i b acc) is"
    using Cons.prems by (simp add: Let_def)
  also have "\<dots> = Inr (foldl (\<lambda>acc i. fmupd i (getStr ns i) acc) (fmupd i b acc) is)"
    using Cons.prems by (intro Cons.IH) auto
  finally show ?case by (simp add: getStr_def b)
qed simp

lemma foldl_fmupd_lookup:
  "fmlookup (foldl (\<lambda>acc i. fmupd i (f i) acc) acc is) k = (if k \<in> set is then Some (f k) else fmlookup acc k)"
  by (induction "is" arbitrary: acc) auto

lemma legNames_all: "legNames (legsFrom ns) fmempty (sortedKeys ns) = Inr ns"
proof -
  have "foldl (\<lambda>acc i. fmupd i (getStr ns i) acc) fmempty (sortedKeys ns) = ns"
  proof (rule fmap_ext)
    fix k
    show "fmlookup (foldl (\<lambda>acc i. fmupd i (getStr ns i) acc) fmempty (sortedKeys ns)) k = fmlookup ns k"
      by (cases "fmlookup ns k") (auto simp: foldl_fmupd_lookup getStr_def dest: fmdomI)
  qed
  then show ?thesis by (subst legNames_legsFrom) auto
qed

lemma mapLen_legsFrom [simp]: "mapLen (legsFrom ns) = mapLen ns" "sortedKeys (legsFrom ns) = sortedKeys ns"
  by (simp_all add: mapLen_def sortedKeys_def)

lemma getLeg_legsFrom: "hasKey ns i \<Longrightarrow> getLeg (legsFrom ns) i = \<lparr>lCluster = i, lBucket = getStr ns i\<rparr>"
  by (auto simp: getLeg_def getStr_def fmlookup_dom_iff)

lemma full_partition: "partition_table [\<lparr>oFrom = rgFrom FullRange, oTo = rgTo FullRange, oLeg = l\<rparr>]"
  by (simp add: partition_table_def FullRange_def)

lemma ToV2_checkV2:
  assumes "plain_v1 p"
  shows "checkV2 (ToV2 p) = None"
proof -
  from assms obtain ns where ns: "pNames p = Some ns" "mapLen ns \<le> MaxLegs" "hasKey ns (pPrimary p)"
      "\<And>c n. fmlookup ns c = Some n \<Longrightarrow> legIDOK c \<and> n \<noteq> ''''" by (auto simp: plain_v1_def)
  have c: "legIDOK c \<and> c \<noteq> '''' \<and> getStr ns c \<noteq> ''''" if "hasKey ns c" for c
    using that ns(4) [of c] by (auto simp: getStr_def fmlookup_dom_iff split: option.splits)
  have "0 < mapLen ns" using ns(3) by (simp add: mapLen_def) (metis fcard_fempty fcard_seteq fempty_iff gr0I le0 fsubset_fempty fcard_0_eq)
  moreover have "\<not> Spread p" using assms by (simp add: plain_v1_def Spread_def)
  ultimately show ?thesis using assms ns(1,2) c full_partition
    by (auto simp: checkV2_None ToV2_def plain_v1_def Let_def leg_ok_def getLeg_legsFrom hash_ok_def known_def
        checkPrefixes_None move_ok_def FullRange_def)
qed

lemma ToV2_fields:
  assumes "plain_v1 p" "pNames p = Some ns"
  shows "ToV2 p = p\<lparr>pPrimary := '''', pSource := '''', pNames := None, pRamp := None, pCutover := None,
      pLegs := Some (legsFrom ns),
      pMove := (if pState p = StateActive then None
                else Some \<lparr>mScope = '''', mRange = FullRange, mFrom = pSource p, mTo = pPrimary p,
                           mRamp = pRamp p, mCutover = pCutover p\<rparr>),
      pOwners := Some [\<lparr>oFrom = rgFrom FullRange, oTo = rgTo FullRange,
                        oLeg = (if pState p = StateActive then pPrimary p else pSource p)\<rparr>]\<rparr>"
  using assms by (simp add: ToV2_def plain_v1_def Spread_def Let_def)

lemma ToV2_fromV2:
  assumes "plain_v1 p"
  shows "fromV2 (ToV2 p) = Inr p"
proof -
  from assms obtain ns where ns: "pNames p = Some ns" "hasKey ns (pPrimary p)"
      "pTarget p = '''' \<or> hasKey ns (pTarget p)" "pCold p = '''' \<or> hasKey ns (pCold p)"
      "if pState p = StateActive then pSource p = '''' \<and> pRamp p = None \<and> pCutover p = None
       else hasKey ns (pSource p) \<and> pSource p \<noteq> pPrimary p"
    unfolding plain_v1_def by blast
  have v1: "pLegs p = None" "pOwners p = None" "pMove p = None" "pPrefixes p = None" "pKeyHash p = ''''"
    using assms by (auto simp: plain_v1_def)
  note l = getLeg_legsFrom [of ns]
  have same: "\<not> sameClusterMove (ToV2 p) m" if "pMove (ToV2 p) = Some m" for m
    using that ns by (auto simp: ToV2_fields [OF assms] sameClusterMove_def split: if_splits option.splits)
  have roles: "v1Roles (ToV2 p) (oLeg (hd (ownersOf (ToV2 p)))) ns = Inr p"
    using ns v1 l by (cases "pState p = StateActive") (simp_all add: ToV2_fields [OF assms ns(1)] v1Roles_def Let_def)
  have "fromV2 (ToV2 p) = Inr (p\<lparr>pTarget := pTarget p, pCold := pCold p\<rparr>)"
    unfolding fromV2_def using ToV2_checkV2 [OF assms] same roles ns(3,4) l v1(4)
    by (auto simp: isV2_def legNames_all ToV2_fields [OF assms ns(1)] split: option.splits)
  then show ?thesis by simp
qed

end
