(* ===== verification/Transition.thy ===== *)
theory Transition
  imports Legs
begin

text \<open>
  State changes of a placement: \<^verbatim>\<open>Apply\<close> and \<^verbatim>\<open>release\<close> of \<^verbatim>\<open>internal/directory/transition.go\<close>, and the
  moves of part of a bucket of \<^verbatim>\<open>moves.go\<close> (\<^verbatim>\<open>applyMove\<close>, \<^verbatim>\<open>startMove\<close>, \<^verbatim>\<open>settle\<close>, \<^verbatim>\<open>newLegID\<close>).

  \<^verbatim>\<open>Apply\<close>, \<^verbatim>\<open>applyMove\<close> and \<^verbatim>\<open>startMove\<close> call one another, as in the source; their termination proof is
  the argument that a move's two-bucket view is never itself a move. An error is a value of
  \<open>apply_error\<close>: a \<^verbatim>\<open>*TransitionError\<close> with one \<open>reason\<close> per message, a run-time panic, or the loop of
  \<^verbatim>\<open>newLegID\<close> that does not end.
\<close>

subsection \<open>Transitions and errors\<close>

record transition =
  tTo :: string
  tTarget :: string
  tName :: string
  tRatio :: float64
  tPrefixes :: "string list"
  tCutover :: "cutover_evidence option"
  tHold :: bool
  tRelease :: bool
  tComplete :: bool
  tBarrier :: string
  tRange :: "hash_range option"
  tLeg :: string
  tScope :: string
  tShare :: float64

text \<open>Every refusal of \<^verbatim>\<open>Apply\<close> has a name.\<close>

type_synonym reason = message

abbreviation (input) ShareOutside where "ShareOutside s \<equiv> (''share %v is outside 0..1'', [AFloat s])"
abbreviation (input) ShareWithRange where "ShareWithRange \<equiv> (''a range names the keys to move already; a share is of the range a leg holds'', [])"
abbreviation (input) ShareFirstStepOnly where "ShareFirstStepOnly \<equiv> (''a share names part of a bucket to move, on the move s first step'', [])"
abbreviation (input) NoLegPlain where "NoLegPlain n p l \<equiv> (''%s is one bucket on %s; it has no leg %s'', [AStr n, AStr p, AStr l])"
abbreviation (input) CarriesBarrier where "CarriesBarrier h b \<equiv> (''the placement carries %s, not barrier %s'', [AOpt h, AStr b])"
abbreviation (input) UnknownState where "UnknownState s ss \<equiv> (''unknown state %q; states are %s'', [AStr s, AStrs ss])"
abbreviation (input) OnlyRampOrMigrateHeld where "OnlyRampOrMigrateHeld \<equiv> (''only a step to RAMPING or MIGRATING is held'', [])"
abbreviation (input) HoldInProgress where "HoldInProgress \<equiv> (''a held step is already in progress; repeat that step to complete it first'', [])"
abbreviation (input) NothingHeld where "NothingHeld \<equiv> (''the held step was released or completed meanwhile; nothing is held to complete'', [])"
abbreviation (input) AllowedFrom where "AllowedFrom s ss \<equiv> (''allowed from %s: %s'', [AStr s, AStrs ss])"
abbreviation (input) TargetOnlyLeaving where "TargetOnlyLeaving \<equiv> (''a target cluster and backend name are only given when leaving ACTIVE'', [])"
abbreviation (input) ExpandedTo where "ExpandedTo p t \<equiv> (''%s was expanded to %s; a different target needs expand first'', [AStr p, AStr t])"
abbreviation (input) ExpandedBucket where "ExpandedBucket t n m \<equiv> (''the target backend bucket is %s/%s (recorded by expand), not %s'', [AStr t, AStr n, AStr m])"
abbreviation (input) EvidenceOnlyCutover where "EvidenceOnlyCutover \<equiv> (''cutover evidence only applies to CUTOVER'', [])"
abbreviation (input) RampOnlyRamping where "RampOnlyRamping \<equiv> (''a ramp ratio or prefix only applies to RAMPING'', [])"
abbreviation (input) TargetAndNameRequired where "TargetAndNameRequired \<equiv> (''the target cluster and its backend bucket name are required'', [])"
abbreviation (input) AlreadyPrimary where "AlreadyPrimary t \<equiv> (''target %q is already the primary'', [AStr t])"
abbreviation (input) RampNeedsRatioOrPrefix where "RampNeedsRatioOrPrefix \<equiv> (''RAMPING needs a ratio or at least one prefix'', [])"
abbreviation (input) HashNotImplemented where "HashNotImplemented h r \<equiv> (''the ramp splits keys by hash %q, which this build does not implement (it implements %s)'', [AStr h, AStr r])"
abbreviation (input) RampOnlyGrows where "RampOnlyGrows x y \<equiv> (''the ramp only grows: ratio %v is below the current %v'', [AFloat x, AFloat y])"
abbreviation (input) RampChangesNothing where "RampChangesNothing \<equiv> (''the ramp step changes nothing; give a higher ratio or a new prefix'', [])"
abbreviation (input) PrefixNotHeld where "PrefixNotHeld s \<equiv> (''prefix %q was not part of the held step'', [AStr s])"
abbreviation (input) RatioBeyondHeld where "RatioBeyondHeld x y \<equiv> (''ratio %v is beyond the held step ratio %v'', [AFloat x, AFloat y])"
abbreviation (input) HeldRampInProgress where "HeldRampInProgress \<equiv> (''a held ramp step is in progress; repeat that ramp step to complete it before MIGRATING'', [])"
abbreviation (input) NoHeldStep where "NoHeldStep \<equiv> (''there is no held step to release'', [])"
abbreviation (input) HeldCarriesBarrier where "HeldCarriesBarrier h b \<equiv> (''the held step carries %s, not %s'', [AOpt h, AStr b])"
abbreviation (input) OtherRangeMoving where "OtherRangeMoving rg \<equiv> (''a move of range %s is in progress'', [ARange rg])"
abbreviation (input) OtherLegMoving where "OtherLegMoving l \<equiv> (''a move of leg %s is in progress'', [AStr l])"
abbreviation (input) OtherScopeMoving where "OtherScopeMoving s \<equiv> (''a move of the keys under %q is in progress'', [AStr s])"
abbreviation (input) OtherShareMoving where "OtherShareMoving rg \<equiv> (''a later step may repeat only the share its first step gave (range %s)'', [ARange rg])"
abbreviation (input) RatioOnlyInRule where "RatioOnlyInRule \<equiv> (''a move within a prefix rule ramps by ratio only (ADR-0020)'', [])"
abbreviation (input) OtherTarget where "OtherTarget c \<equiv> (''the move goes to %s; a later step may only repeat that target'', [AStr c])"
abbreviation (input) MoveStartsActive where "MoveStartsActive \<equiv> (''a move of part of a bucket starts from ACTIVE'', [])"
abbreviation (input) NoPrefixRule where "NoPrefixRule s \<equiv> (''the bucket has no prefix rule %q; carve it first'', [AStr s])"
abbreviation (input) NameRangeOrLeg where "NameRangeOrLeg \<equiv> (''name the range of keys to move, or the leg whose keys move'', [])"
abbreviation (input) RangeInverted where "RangeInverted \<equiv> (''the range start is after its end'', [])"
abbreviation (input) TieredMovesWhole where "TieredMovesWhole \<equiv> (''a tiered bucket moves whole; moving part of it is not supported'', [])"
abbreviation (input) TargetRequired where "TargetRequired \<equiv> (''the target cluster is required'', [])"
abbreviation (input) ScopeSplit where "ScopeSplit s n \<equiv> (''the keys under %q are split over %d ranges'', [AStr s, ANat n])"
abbreviation (input) NoLeg where "NoLeg l ls \<equiv> (''the bucket has no leg %s; its legs are %v'', [AStr l, AStrs ls])"
abbreviation (input) LegOwnsNothing where "LegOwnsNothing l s \<equiv> (''leg %s owns no keys%s'', [AStr l, AStr s])"
abbreviation (input) RangeSpansLegs where "RangeSpansLegs rg s \<equiv> (''the range %s%s spans more than one leg'', [ARange rg, AStr s])"
abbreviation (input) RangeOtherLegs where "RangeOtherLegs rg l m \<equiv> (''the range %s is of leg %s, not of leg %s'', [ARange rg, AStr l, AStr m])"
abbreviation (input) SeveralLegsOnTarget where "SeveralLegsOnTarget c n \<equiv> (''cluster %s holds %d legs of the bucket'', [AStr c, ANat n])"
abbreviation (input) RangeAlreadyThere where "RangeAlreadyThere c b \<equiv> (''the range is on %s/%s already'', [AStr c, AStr b])"
abbreviation (input) NameTargetBucket where "NameTargetBucket c \<equiv> (''name the bucket on %s that the range moves to'', [AStr c])"
abbreviation (input) TooManyLegs where "TooManyLegs n \<equiv> (''a placement has at most %d legs'', [ANat n])"

datatype apply_error = TransitionError string string reason | Panic | Diverges

abbreviation (input) fail :: "placement \<Rightarrow> transition \<Rightarrow> reason \<Rightarrow> apply_error + 'a" where
  "fail p t r \<equiv> Inl (TransitionError (pState p) (tTo t) r)"

subsection \<open>The transition table\<close>

definition legal :: "string \<Rightarrow> string \<Rightarrow> bool" where
  "legal fr to \<longleftrightarrow>
     (fr, to) \<in> {(StateActive, StateRamping), (StateActive, StateMigrating), (StateRamping, StateRamping),
                  (StateRamping, StateMigrating), (StateMigrating, StateCutover), (StateCutover, StateActive)}"

definition nextStates :: "string \<Rightarrow> string list" where
  "nextStates s = filter (legal s) States"

subsection \<open>Reading the transition\<close>

text \<open>The share of a plain bucket is resolved into a range; one of a spread bucket is kept.\<close>

definition resolveShare :: "placement \<Rightarrow> transition \<Rightarrow> apply_error + transition" where
  "resolveShare p t =
     (if \<not> feq (tShare t) (Fin 0) then
        if isNaN (tShare t) \<or> flt (tShare t) (Fin 0) \<or> flt (Fin 1) (tShare t) then fail p t (ShareOutside (tShare t))
        else if tRange t \<noteq> None then fail p t ShareWithRange
        else if \<not> Spread p \<and> pState p \<noteq> StateActive then fail p t ShareFirstStepOnly
        else if \<not> Spread p then
          (case LeadingShare FullRange (tShare t) of
             None \<Rightarrow> Inl Panic
           | Some rg \<Rightarrow> Inr (t\<lparr>tRange := Some rg, tShare := Fin 0\<rparr>))
        else Inr t
      else Inr t)"

definition sameClusterRange :: "placement \<Rightarrow> transition \<Rightarrow> transition" where
  "sameClusterRange p t =
     (if \<not> Spread p \<and> pState p = StateActive \<and> tTarget t \<noteq> '''' \<and> tTarget t = pPrimary p \<and>
         tName t \<noteq> '''' \<and> tName t \<noteq> getStr (namesOf p) (pPrimary p)
      then t\<lparr>tRange := Some FullRange\<rparr> else t)"

definition dropFullRange :: "placement \<Rightarrow> transition \<Rightarrow> transition" where
  "dropFullRange p t =
     (if tRange t = Some FullRange \<and> \<not> Spread p \<and> tTarget t \<noteq> pPrimary p then t\<lparr>tRange := None\<rparr> else t)"

definition resolveLeg :: "placement \<Rightarrow> transition \<Rightarrow> apply_error + transition" where
  "resolveLeg p t =
     (if tLeg t \<noteq> '''' \<and> \<not> Spread p then
        if tLeg t \<noteq> pPrimary p then fail p t (NoLegPlain (getStr (namesOf p) (pPrimary p)) (pPrimary p) (tLeg t))
        else Inr (t\<lparr>tLeg := ''''\<rparr>)
      else Inr t)"

definition readTransition :: "placement \<Rightarrow> transition \<Rightarrow> apply_error + transition" where
  "readTransition p t =
     (case resolveShare p t of
        Inl e \<Rightarrow> Inl e
      | Inr t \<Rightarrow> resolveLeg p (dropFullRange p (sameClusterRange p t)))"

definition moves :: "placement \<Rightarrow> transition \<Rightarrow> bool" where
  "moves p t \<longleftrightarrow> Spread p \<or> tRange t \<noteq> None \<or> tScope t \<noteq> ''''"

subsection \<open>One step of a plain placement\<close>

definition barrierOf :: "placement \<Rightarrow> string option" where
  "barrierOf p = map_option bID (pBarrier p)"

definition inheritTarget :: "placement \<Rightarrow> transition \<Rightarrow> apply_error + transition" where
  "inheritTarget p t =
     (if pState p = StateActive \<and> pTarget p \<noteq> '''' then
        if tTarget t \<noteq> '''' \<and> tTarget t \<noteq> pTarget p then fail p t (ExpandedTo (pPrimary p) (pTarget p))
        else let t = t\<lparr>tTarget := pTarget p\<rparr>; name = getStr (namesOf p) (pTarget p) in
          if tName t = '''' then Inr (t\<lparr>tName := name\<rparr>)
          else if tName t \<noteq> name then fail p t (ExpandedBucket (pTarget p) name (tName t))
          else Inr t
      else Inr t)"

definition stepGuards :: "placement \<Rightarrow> transition \<Rightarrow> reason option" where
  "stepGuards p t = refuse
     [(tBarrier t \<noteq> '''' \<and> \<not> tHold t \<and> barrierOf p \<noteq> Some (tBarrier t), CarriesBarrier (barrierOf p) (tBarrier t)),
      (tTo t \<notin> set States, UnknownState (tTo t) States),
      (tHold t \<and> tTo t \<noteq> StateRamping \<and> tTo t \<noteq> StateMigrating, OnlyRampOrMigrateHeld),
      ((case pRamp p of Some r \<Rightarrow> rHold r \<noteq> None | None \<Rightarrow> False) \<and> tHold t, HoldInProgress),
      (tComplete t \<and> \<not> Held p, NothingHeld),
      (\<not> legal (pState p) (tTo t), AllowedFrom (pState p) (nextStates (pState p))),
      (pState p \<noteq> StateActive \<and> (tTarget t \<noteq> '''' \<or> tName t \<noteq> ''''), TargetOnlyLeaving)]"

definition rampGuards :: "transition \<Rightarrow> reason option" where
  "rampGuards t = refuse
     [(tCutover t \<noteq> None \<and> tTo t \<noteq> StateCutover, EvidenceOnlyCutover),
      (tTo t \<noteq> StateRamping \<and> (\<not> feq (tRatio t) (Fin 0) \<or> tPrefixes t \<noteq> []), RampOnlyRamping)]"

definition applyGuards :: "placement \<Rightarrow> transition \<Rightarrow> apply_error + transition" where
  "applyGuards p t =
     (case stepGuards p t of
        Some r \<Rightarrow> fail p t r
      | None \<Rightarrow>
          (case inheritTarget p t of
             Inl e \<Rightarrow> Inl e
           | Inr t' \<Rightarrow> (case rampGuards t' of Some r \<Rightarrow> fail p t' r | None \<Rightarrow> Inr t')))"

definition leaveActive :: "placement \<Rightarrow> transition \<Rightarrow> apply_error + placement" where
  "leaveActive p t =
     (if tTarget t = '''' \<or> tName t = '''' then fail p t TargetAndNameRequired
      else if tTarget t = pPrimary p then fail p t (AlreadyPrimary (tTarget t))
      else let np = p\<lparr>pState := tTo t, pSource := pPrimary p, pPrimary := tTarget t, pTarget := '''',
                      pNames := Some (fmupd (tTarget t) (tName t) (namesOf p))\<rparr> in
        if tTo t = StateRamping then
          if feq (tRatio t) (Fin 0) \<and> tPrefixes t = [] then fail p t RampNeedsRatioOrPrefix
          else Inr (np\<lparr>pRamp := Some \<lparr>rHash = RampHash, rRatio = tRatio t, rPrefixes = tPrefixes t,
                                      rRange = None, rHold = None\<rparr>\<rparr>)
        else Inr np)"

definition addPrefixes :: "string list \<Rightarrow> string list \<Rightarrow> string list" where
  "addPrefixes old new = foldl (\<lambda>ps pre. if pre \<in> set ps then ps else ps @ [pre]) old new"

definition zeroRamp :: ramp where
  "zeroRamp = \<lparr>rHash = '''', rRatio = Fin 0, rPrefixes = [], rRange = None, rHold = None\<rparr>"

definition heldCheck :: "placement \<Rightarrow> transition \<Rightarrow> ramp \<Rightarrow> ramp \<Rightarrow> apply_error + ramp" where
  "heldCheck p t old r =
     (case rHold old of
        None \<Rightarrow> Inr r
      | Some h \<Rightarrow>
          if tHold t then Inr r
          else (case find (\<lambda>pre. pre \<notin> set (rPrefixes old) \<and> pre \<notin> set (hPrefixes h)) (rPrefixes r) of
                  Some pre \<Rightarrow> fail p t (PrefixNotHeld pre)
                | None \<Rightarrow>
                    if flt (hRatio h) (rRatio r) \<and> flt (rRatio old) (rRatio r)
                    then fail p t (RatioBeyondHeld (rRatio r) (hRatio h)) else Inr r))"

definition rampStep :: "placement \<Rightarrow> transition \<Rightarrow> apply_error + ramp" where
  "rampStep p t =
     (let old = (case pRamp p of None \<Rightarrow> zeroRamp | Some r \<Rightarrow> r) in
      if rHash old \<noteq> RampHash then fail p t (HashNotImplemented (rHash old) RampHash)
      else if \<not> feq (tRatio t) (Fin 0) \<and> flt (tRatio t) (rRatio old) then fail p t (RampOnlyGrows (tRatio t) (rRatio old))
      else let r = \<lparr>rHash = rHash old, rRatio = (if \<not> feq (tRatio t) (Fin 0) then tRatio t else rRatio old),
                    rPrefixes = addPrefixes (rPrefixes old) (tPrefixes t), rRange = None, rHold = None\<rparr> in
        if feq (rRatio r) (rRatio old) \<and> length (rPrefixes r) = length (rPrefixes old) then fail p t RampChangesNothing
        else heldCheck p t old r)"

definition heldBelowOne :: "placement \<Rightarrow> bool" where
  "heldBelowOne p \<longleftrightarrow>
     Held p \<and> (case pRamp p of
                  None \<Rightarrow> False
                | Some r \<Rightarrow> (case rHold r of None \<Rightarrow> False | Some h \<Rightarrow> flt (hRatio h) (Fin 1)))"

definition applyStep :: "placement \<Rightarrow> transition \<Rightarrow> apply_error + placement" where
  "applyStep p t =
     (let np = p\<lparr>pState := tTo t\<rparr> in
      if pState p = StateActive then leaveActive p t
      else if pState p = StateRamping \<and> tTo t = StateRamping then
        (case rampStep p t of Inl e \<Rightarrow> Inl e | Inr r \<Rightarrow> Inr (np\<lparr>pRamp := Some r\<rparr>))
      else if tTo t = StateMigrating then
        if heldBelowOne p \<and> \<not> tHold t then fail p t HeldRampInProgress
        else Inr (np\<lparr>pRamp := None\<rparr>)
      else if tTo t = StateCutover then Inr (np\<lparr>pCutover := tCutover t\<rparr>)
      else if pState p = StateCutover \<and> tTo t = StateActive then
        let np = (if pSource p \<noteq> pPrimary p \<and> pSource p \<noteq> pCold p
                  then np\<lparr>pNames := map_option (fmdrop (pSource p)) (pNames np)\<rparr> else np)
        in Inr (np\<lparr>pSource := '''', pCutover := None, pBarrier := None\<rparr>)
      else Inr np)"

definition applyFinish :: "placement \<Rightarrow> transition \<Rightarrow> placement \<Rightarrow> placement" where
  "applyFinish p t np =
     (let np = (if tComplete t \<or> tHold t then np\<lparr>pBarrier := None\<rparr> else np);
          np = (if tBarrier t \<noteq> '''' \<and> \<not> tHold t then np\<lparr>pBarrier := None\<rparr> else np)
      in if tHold t then
           let np = (if tBarrier t \<noteq> '''' then np\<lparr>pBarrier := Some \<lparr>bID = tBarrier t, bKind = BarrierMutations\<rparr>\<rparr> else np);
               base = (case pRamp p of
                         Some r \<Rightarrow> if pState p = StateRamping then r else zeroRamp\<lparr>rHash := RampHash\<rparr>
                       | None \<Rightarrow> zeroRamp\<lparr>rHash := RampHash\<rparr>);
               h = (case pRamp np of
                      Some r \<Rightarrow> \<lparr>hRatio = rRatio r, hPrefixes = rPrefixes r\<rparr>
                    | None \<Rightarrow> \<lparr>hRatio = Fin 1, hPrefixes = []\<rparr>)
           in np\<lparr>pState := StateRamping, pRamp := Some (base\<lparr>rHold := Some h\<rparr>)\<rparr>
         else np)"

definition applyPlain :: "placement \<Rightarrow> transition \<Rightarrow> apply_error + placement" where
  "applyPlain p t =
     (case applyGuards p t of
        Inl e \<Rightarrow> Inl e
      | Inr t \<Rightarrow> (case applyStep p t of Inl e \<Rightarrow> Inl e | Inr np \<Rightarrow> Inr (applyFinish p t np)))"

definition release :: "placement \<Rightarrow> string \<Rightarrow> apply_error + placement" where
  "release p b =
     (case pRamp p of
        Some r \<Rightarrow>
          if pState p \<noteq> StateRamping \<or> rHold r = None then Inl (TransitionError (pState p) (pState p) NoHeldStep)
          else if b \<noteq> '''' \<and> barrierOf p \<noteq> Some b
          then Inl (TransitionError (pState p) (pState p) (HeldCarriesBarrier (barrierOf p) b))
          else let np = p\<lparr>pBarrier := None\<rparr> in
            if feq (rRatio r) (Fin 0) \<and> rPrefixes r = []
            then Inr (np\<lparr>pState := StateActive, pPrimary := pSource p, pSource := '''', pTarget := pPrimary p, pRamp := None\<rparr>)
            else Inr (np\<lparr>pRamp := Some (r\<lparr>rHold := None\<rparr>)\<rparr>)
      | None \<Rightarrow> Inl (TransitionError (pState p) (pState p) NoHeldStep))"

subsection \<open>Naming legs\<close>

fun decimal :: "nat \<Rightarrow> string" where
  "decimal n = (if n < 10 then [char_of (48 + n)] else decimal (n div 10) @ [char_of (48 + n mod 10)])"

declare decimal.simps [simp del]

definition numbered :: "string \<Rightarrow> nat \<Rightarrow> string" where
  "numbered cluster n =
     (let i = cluster @ ''-'' @ decimal n in
      if 63 < length i then take (63 - length (decimal n) - 1) cluster @ ''-'' @ decimal n else i)"

partial_function (option) newLegIDFrom :: "(string, leg) fmap \<Rightarrow> string \<Rightarrow> string \<Rightarrow> nat \<Rightarrow> string option" where
  "newLegIDFrom ls cluster i n =
     (if \<not> hasKey ls i \<and> legIDOK i then Some i
      else newLegIDFrom ls cluster (numbered cluster n) (n + 1))"

declare newLegIDFrom.simps [code]

definition newLegID :: "(string, leg) fmap \<Rightarrow> string \<Rightarrow> string option" where
  "newLegID ls cluster = newLegIDFrom ls cluster cluster 2"

subsection \<open>Moves of part of a bucket\<close>

definition settleLeg :: "placement \<Rightarrow> placement \<Rightarrow> string \<Rightarrow> placement" where
  "settleLeg p v i =
     (let l = getLeg (legsOf p) i in
      if hasKey (namesOf v) (lCluster l) then v
      else let v = v\<lparr>pNames := Some (fmupd (lCluster l) (lBucket l) (namesOf v))\<rparr>
           in if pTarget v = '''' then v\<lparr>pTarget := lCluster l\<rparr> else v)"

definition settle :: "placement \<Rightarrow> placement" where
  "settle p =
     (case ownersOf p of
        [ow] \<Rightarrow>
          if pMove p \<noteq> None \<or> 0 < length (rulesOf p) then p
          else let l = getLeg (legsOf p) (oLeg ow);
                   v = p\<lparr>pLegs := None, pOwners := None, pKeyHash := '''', pPrimary := lCluster l,
                         pNames := Some (fmupd (lCluster l) (lBucket l) fmempty)\<rparr>
               in foldl (settleLeg p) v (sortedKeys (legsOf p))
      | _ \<Rightarrow> p)"

fun sameShareIn :: "owner list \<Rightarrow> move \<Rightarrow> float64 \<Rightarrow> bool" where
  "sameShareIn [] m share = False"
| "sameShareIn (ow # os) m share =
     (if oLeg ow = mFrom m \<and> oFrom ow \<le> rgFrom (mRange m) \<and> rgTo (mRange m) \<le> oTo ow
      then LeadingShare \<lparr>rgFrom = oFrom ow, rgTo = oTo ow\<rparr> share = Some (mRange m)
      else sameShareIn os m share)"

definition sameShare :: "placement \<Rightarrow> move \<Rightarrow> float64 \<Rightarrow> bool" where
  "sameShare p m share = sameShareIn (goSlice (scopeTable p (mScope m))) m share"

text \<open>What \<^verbatim>\<open>startMove\<close> decides before it applies the first step: the placement with its legs, the range,
  the two legs, and the step. The code's local \<^verbatim>\<open>switch\<close>es are the functions below, in their order.\<close>

definition startChecks :: "placement \<Rightarrow> transition \<Rightarrow> reason option" where
  "startChecks p t = refuse
     [(pState p \<noteq> StateActive, MoveStartsActive),
      (tScope t \<noteq> '''' \<and> \<not> list_ex (\<lambda>r. prPrefix r = tScope t) (rulesOf p), NoPrefixRule (tScope t)),
      (tScope t \<noteq> '''' \<and> tPrefixes t \<noteq> [], RatioOnlyInRule),
      (tRange t = None \<and> tLeg t = '''' \<and> tScope t = '''', NameRangeOrLeg),
      (case tRange t of Some rg \<Rightarrow> rgTo rg < rgFrom rg | None \<Rightarrow> False, RangeInverted)]"

definition startLegs :: "placement \<Rightarrow> transition \<Rightarrow> apply_error + placement \<times> transition" where
  "startLegs p t =
     (if Spread p then Inr (p, t)
      else if pCold p \<noteq> '''' \<or> pTier p \<noteq> '''' then fail p t TieredMovesWhole
      else if pTarget p \<noteq> '''' \<and> tTarget t \<noteq> '''' \<and> tTarget t \<noteq> pTarget p
      then fail p t (ExpandedTo (pPrimary p) (pTarget p))
      else let t = (if pTarget p \<noteq> '''' then t\<lparr>tTarget := pTarget p\<rparr> else t);
               t = (if pTarget p \<noteq> '''' \<and> tName t = '''' then t\<lparr>tName := getStr (namesOf p) (pTarget p)\<rparr> else t)
           in Inr (p\<lparr>pLegs := Some (fmupd (pPrimary p) \<lparr>lCluster = pPrimary p, lBucket = getStr (namesOf p) (pPrimary p)\<rparr> fmempty),
                     pOwners := Some [\<lparr>oFrom = rgFrom FullRange, oTo = rgTo FullRange, oLeg = pPrimary p\<rparr>],
                     pKeyHash := RampHash, pPrimary := '''', pNames := None, pTarget := ''''\<rparr>, t))"

definition startRange :: "placement \<Rightarrow> transition \<Rightarrow> placement \<Rightarrow> apply_error + hash_range \<times> string" where
  "startRange p t np =
     (let table = goSlice (scopeTable np (tScope t)) in
      if tRange t = None \<and> tLeg t = '''' \<and> length table \<noteq> 1 then fail p t (ScopeSplit (tScope t) (length table))
      else let leg = (if tRange t = None \<and> tLeg t = '''' then oLeg (hd table) else tLeg t) in
        case tRange t of
          Some rg \<Rightarrow> Inr (rg, leg)
        | None \<Rightarrow>
            if \<not> hasKey (legsOf np) leg then fail p t (NoLeg leg (sortedKeys (legsOf np)))
            else (case find (\<lambda>ow. oLeg ow = leg) table of
                    None \<Rightarrow> fail p t (LegOwnsNothing leg (tScope t))
                  | Some ow \<Rightarrow> Inr (\<lparr>rgFrom = oFrom ow, rgTo = oTo ow\<rparr>, leg)))"

definition startShare :: "transition \<Rightarrow> hash_range \<Rightarrow> apply_error + hash_range" where
  "startShare t rg =
     (if flt (Fin 0) (tShare t) \<and> flt (tShare t) (Fin 1)
      then (case LeadingShare rg (tShare t) of None \<Rightarrow> Inl Panic | Some rg' \<Rightarrow> Inr rg')
      else Inr rg)"

definition startSource :: "owner list \<Rightarrow> hash_range \<Rightarrow> string" where
  "startSource table rg =
     foldl (\<lambda>src ow. if oFrom ow \<le> rgFrom rg \<and> rgTo rg \<le> oTo ow then oLeg ow else src) '''' table"

definition startDest :: "(string, leg) fmap \<Rightarrow> transition \<Rightarrow> string \<times> nat" where
  "startDest ls t =
     foldl (\<lambda>(dst, n) i. let l = getLeg ls i in
              if lCluster l \<noteq> tTarget t then (dst, n)
              else (if tName t = '''' \<or> tName t = lBucket l then i else dst, n + 1))
       ('''', 0) (sortedKeys ls)"

definition destLeg :: "placement \<Rightarrow> transition \<Rightarrow> placement \<Rightarrow> string \<Rightarrow> apply_error + string \<times> placement" where
  "destLeg p t np src =
     (let (dst, n) = startDest (legsOf np) t in
      if tName t = '''' \<and> 1 < n then fail p t (SeveralLegsOnTarget (tTarget t) n)
      else if dst = src then fail p t (RangeAlreadyThere (tTarget t) (lBucket (getLeg (legsOf np) src)))
      else if dst = '''' \<and> tName t = '''' then fail p t (NameTargetBucket (tTarget t))
      else if dst = '''' then
        (case newLegID (legsOf np) (tTarget t) of
           None \<Rightarrow> Inl Diverges
         | Some i \<Rightarrow>
             (case pLegs np of
                None \<Rightarrow> Inl Panic
              | Some ls \<Rightarrow> Inr (i, np\<lparr>pLegs := Some (fmupd i \<lparr>lCluster = tTarget t, lBucket = tName t\<rparr> ls)\<rparr>)))
      else Inr (dst, np))"

definition startPrep :: "placement \<Rightarrow> transition \<Rightarrow> apply_error + placement \<times> hash_range \<times> string \<times> string \<times> transition" where
  "startPrep p t =
     (case startChecks p t of
        Some r \<Rightarrow> fail p t r
      | None \<Rightarrow>
     (case startLegs p t of
        Inl e \<Rightarrow> Inl e
      | Inr (np, t) \<Rightarrow>
     (if tTarget t = '''' then fail p t TargetRequired
      else case startRange p t np of
        Inl e \<Rightarrow> Inl e
      | Inr (rg, leg) \<Rightarrow>
     (case startShare t rg of
        Inl e \<Rightarrow> Inl e
      | Inr rg \<Rightarrow>
      let src = startSource (goSlice (scopeTable np (tScope t))) rg in
      if src = '''' then fail p t (RangeSpansLegs rg (tScope t))
      else if leg \<noteq> '''' \<and> src \<noteq> leg then fail p t (RangeOtherLegs rg src leg)
      else case destLeg p t np src of
             Inl e \<Rightarrow> Inl e
           | Inr (dst, np) \<Rightarrow>
               if MaxLegs < mapLen (legsOf np) then fail p t (TooManyLegs MaxLegs)
               else Inr (np, rg, src, dst, t\<lparr>tShare := Fin 0\<rparr>)))))"

definition startView :: "placement \<Rightarrow> string \<Rightarrow> placement" where
  "startView np src =
     zeroPlacement\<lparr>pState := StateActive, pPrimary := src,
       pNames := Some (fmupd src (lBucket (getLeg (legsOf np) src)) fmempty)\<rparr>"

definition startStep :: "placement \<Rightarrow> transition \<Rightarrow> string \<Rightarrow> transition" where
  "startStep np t dst =
     t\<lparr>tRange := None, tLeg := '''', tScope := '''', tTarget := dst, tName := lBucket (getLeg (legsOf np) dst)\<rparr>"

definition moveRefuses :: "placement \<Rightarrow> move \<Rightarrow> transition \<Rightarrow> reason option" where
  "moveRefuses p m t =
     (let v = MoveView p m; c = ClusterOf v (pPrimary v) in refuse
     [(case tRange t of Some rg \<Rightarrow> rg \<noteq> mRange m | None \<Rightarrow> False, OtherRangeMoving (mRange m)),
      (tLeg t \<noteq> '''' \<and> tLeg t \<noteq> mFrom m, OtherLegMoving (mFrom m)),
      (tScope t \<noteq> '''' \<and> tScope t \<noteq> mScope m, OtherScopeMoving (mScope m)),
      (\<not> feq (tShare t) (Fin 0) \<and> \<not> sameShare p m (tShare t), OtherShareMoving (mRange m)),
      (mScope m \<noteq> '''' \<and> tPrefixes t \<noteq> [], RatioOnlyInRule),
      (tTarget t \<noteq> '''' \<and> tTarget t \<noteq> c, OtherTarget c)])"

definition moveChecks :: "placement \<Rightarrow> move \<Rightarrow> transition \<Rightarrow> apply_error + transition" where
  "moveChecks p m t =
     (case moveRefuses p m t of
        Some r \<Rightarrow> fail p t r
      | None \<Rightarrow>
          Inr (t\<lparr>tRange := None, tLeg := '''', tScope := '''', tTarget := '''', tName := '''', tShare := Fin 0\<rparr>))"

definition limitRamp :: "hash_range \<Rightarrow> ramp option \<Rightarrow> ramp option" where
  "limitRamp rg r = map_option (\<lambda>r. r\<lparr>rRange := Some rg\<rparr>) r"

definition moveDone :: "placement \<Rightarrow> move \<Rightarrow> transition \<Rightarrow> placement \<Rightarrow> placement" where
  "moveDone p m t nv =
     (let np = p\<lparr>pBarrier := pBarrier nv\<rparr> in
      if pState nv = StateActive \<and> tRelease t then settle (np\<lparr>pState := StateActive, pMove := None\<rparr>)
      else if pState nv = StateActive then
        let np = np\<lparr>pState := StateActive, pMove := None\<rparr>;
            np = setScopeTable np (mScope m) (reassign (goSlice (scopeTable p (mScope m))) (mRange m) (mTo m));
            np = (if \<not> ownsKeys np (mFrom m) then np\<lparr>pLegs := map_option (fmdrop (mFrom m)) (pLegs np)\<rparr> else np)
        in settle np
      else np\<lparr>pState := pState nv,
              pMove := Some (m\<lparr>mRamp := limitRamp (mRange m) (pRamp nv), mCutover := pCutover nv\<rparr>)\<rparr>)"

definition startDone :: "placement \<Rightarrow> hash_range \<Rightarrow> string \<Rightarrow> string \<Rightarrow> transition \<Rightarrow> placement \<Rightarrow> placement" where
  "startDone np rg src dst t nv =
     np\<lparr>pState := pState nv, pBarrier := pBarrier nv,
        pMove := Some \<lparr>mScope = tScope t, mRange = rg, mFrom = src, mTo = dst,
                       mRamp = limitRamp rg (pRamp nv), mCutover = pCutover nv\<rparr>\<rparr>"

lemma readTransition_view:
  assumes "\<not> Spread v" "tRange t = None" "tLeg t = ''''" "tScope t = ''''" "tShare t = Fin 0"
    and "tTarget t = '''' \<or> tTarget t \<noteq> pPrimary v \<or> tName t = getStr (namesOf v) (pPrimary v)"
  shows "readTransition v t = Inr t" "\<not> moves v t"
  using assms by (auto simp: readTransition_def resolveShare_def sameClusterRange_def dropFullRange_def
      resolveLeg_def moves_def)

lemma startPrep_view:
  assumes "startPrep p t = Inr (np, rg, src, dst, t')"
  shows "\<not> Spread (startView np src)" "tShare t' = Fin 0"
    "readTransition (startView np src) (startStep np t' dst) = Inr (startStep np t' dst)"
    "\<not> moves (startView np src) (startStep np t' dst)"
proof -
  show s: "\<not> Spread (startView np src)" by (simp add: startView_def Spread_def zeroPlacement_def)
  show sh: "tShare t' = Fin 0"
    using assms by (auto simp: startPrep_def Let_def split: option.splits sum.splits if_splits)
  show "readTransition (startView np src) (startStep np t' dst) = Inr (startStep np t' dst)"
    "\<not> moves (startView np src) (startStep np t' dst)"
    by (rule readTransition_view [OF s]; use sh in \<open>auto simp: startStep_def startView_def\<close>)+
qed

lemma MoveView_plain: "\<not> Spread (MoveView p m)"
  by (simp add: MoveView_def Spread_def zeroPlacement_def Let_def)

lemma moveChecks_Inr:
  "moveChecks p m t = Inr t' \<Longrightarrow>
   t' = t\<lparr>tRange := None, tLeg := '''', tScope := '''', tTarget := '''', tName := '''', tShare := Fin 0\<rparr>"
  unfolding moveChecks_def by (simp split: option.split_asm)

lemma moveChecks_step:
  assumes "moveChecks p m t = Inr t'"
  shows "readTransition (MoveView p m) t' = Inr t'" "\<not> moves (MoveView p m) t'"
  by (rule readTransition_view [OF MoveView_plain]; simp add: moveChecks_Inr [OF assms])+

function (sequential) Apply :: "placement \<Rightarrow> transition \<Rightarrow> apply_error + placement"
  and applyMove :: "placement \<Rightarrow> transition \<Rightarrow> apply_error + placement"
  and startMove :: "placement \<Rightarrow> transition \<Rightarrow> apply_error + placement" where
  "Apply p t =
     (case readTransition p t of
        Inl e \<Rightarrow> Inl e
      | Inr t' \<Rightarrow>
          if moves p t' then applyMove p t'
          else if tRelease t' then release p (tBarrier t')
          else applyPlain p t')"
| "applyMove p t =
     (case pMove p of
        None \<Rightarrow> startMove p t
      | Some m \<Rightarrow>
          (case moveChecks p m t of
             Inl e \<Rightarrow> Inl e
           | Inr t' \<Rightarrow> (case Apply (MoveView p m) t' of Inl e \<Rightarrow> Inl e | Inr nv \<Rightarrow> Inr (moveDone p m t' nv))))"
| "startMove p t =
     (case startPrep p t of
        Inl e \<Rightarrow> Inl e
      | Inr (np, rg, src, dst, t') \<Rightarrow>
          (case Apply (startView np src) (startStep np t' dst) of
             Inl e \<Rightarrow> Inl e
           | Inr nv \<Rightarrow> Inr (startDone np rg src dst t' nv)))"
  by pat_completeness auto
termination
  by (relation "measure (\<lambda>x. case x of
        Inl (p, t) \<Rightarrow> (case readTransition p t of Inl _ \<Rightarrow> 0 | Inr t' \<Rightarrow> if moves p t' then 3 else 0)
      | Inr (Inl _) \<Rightarrow> 2
      | Inr (Inr _) \<Rightarrow> 1)")
    (auto simp: startPrep_view moveChecks_step)

declare Apply.simps [simp del] applyMove.simps [simp del] startMove.simps [simp del]

end
