(* ===== verification/Lifecycle.thy ===== *)
theory Lifecycle
  imports Transition Routing
begin

text \<open>
  What a state change does: the cases of an accepted \<open>Apply\<close>, that it follows the transition table, that
  it returns on every placement whose cluster names are leg ids, and what it changes of where a write of
  a key is accepted. A held step accepts every write where it was accepted before or not at all, and
  completing it moves only writes that were held; releasing one restores what was there.
\<close>

subsection \<open>The cases of an accepted step\<close>

lemma Apply_view:
  assumes "readTransition v t = Inr t" "\<not> moves v t"
  shows "Apply v t = (if tRelease t then release v (tBarrier t) else applyPlain v t)"
  using assms by (simp add: Apply.simps)

text \<open>The fields of a transition that reading and checking it leave alone.\<close>

definition same_step :: "transition \<Rightarrow> transition \<Rightarrow> bool" where
  "same_step t t' \<longleftrightarrow>
     tTo t' = tTo t \<and> tHold t' = tHold t \<and> tRelease t' = tRelease t \<and> tComplete t' = tComplete t \<and>
     tBarrier t' = tBarrier t \<and> tRatio t' = tRatio t \<and> tPrefixes t' = tPrefixes t \<and> tCutover t' = tCutover t"

lemma same_step_trans: "same_step t t' \<Longrightarrow> same_step t' t'' \<Longrightarrow> same_step t t''"
  by (simp add: same_step_def)

lemma resolveShare_same: "resolveShare p t = Inr t' \<Longrightarrow> same_step t t' \<and> tTarget t' = tTarget t \<and> tName t' = tName t \<and> tScope t' = tScope t"
  by (auto simp: resolveShare_def same_step_def split: if_split_asm option.split_asm)

lemma resolveLeg_same: "resolveLeg p t = Inr t' \<Longrightarrow> same_step t t' \<and> tTarget t' = tTarget t \<and> tName t' = tName t \<and> tScope t' = tScope t"
  by (auto simp: resolveLeg_def same_step_def split: if_split_asm)

lemma readTransition_Inr:
  assumes "readTransition p t = Inr t'"
  shows "same_step t t' \<and> tTarget t' = tTarget t \<and> tName t' = tName t \<and> tScope t' = tScope t"
proof -
  obtain t1 where t1: "resolveShare p t = Inr t1" "resolveLeg p (dropFullRange p (sameClusterRange p t1)) = Inr t'"
    using assms by (auto simp: readTransition_def split: sum.splits)
  have "same_step t1 (dropFullRange p (sameClusterRange p t1))"
    "tTarget (dropFullRange p (sameClusterRange p t1)) = tTarget t1" "tName (dropFullRange p (sameClusterRange p t1)) = tName t1"
    "tScope (dropFullRange p (sameClusterRange p t1)) = tScope t1"
    by (simp_all add: dropFullRange_def sameClusterRange_def same_step_def)
  with resolveShare_same [OF t1(1)] resolveLeg_same [OF t1(2)] show ?thesis
    by (metis same_step_trans)
qed

lemmas readTransition_same = readTransition_Inr [THEN conjunct1]

lemma moveChecks_same: "moveChecks p m t = Inr t' \<Longrightarrow> same_step t t'"
  by (drule moveChecks_Inr) (simp add: same_step_def)

lemma startLegs_same: "startLegs p t = Inr (np, t') \<Longrightarrow> same_step t t' \<and> tScope t' = tScope t \<and> tRange t' = tRange t \<and> tLeg t' = tLeg t \<and> tShare t' = tShare t"
  unfolding startLegs_def Let_def by (auto simp: same_step_def split: if_split_asm)

lemma startPrep_Inr:
  assumes "startPrep p t = Inr (np, rg, src, dst, t')"
  obtains np0 t0 rg0 leg where "startChecks p t = None" "startLegs p t = Inr (np0, t0)" "tTarget t0 \<noteq> ''''"
    "startRange p t0 np0 = Inr (rg0, leg)" "startShare t0 rg0 = Inr rg"
    "src = startSource (goSlice (scopeTable np0 (tScope t0))) rg" "src \<noteq> ''''" "leg = '''' \<or> src = leg"
    "destLeg p t0 np0 src = Inr (dst, np)" "mapLen (legsOf np) \<le> MaxLegs" "t' = t0\<lparr>tShare := Fin 0\<rparr>"
proof -
  have c: "startChecks p t = None" using assms by (cases "startChecks p t") (simp_all add: startPrep_def)
  obtain np0 t0 where l: "startLegs p t = Inr (np0, t0)"
    using assms c by (cases "startLegs p t") (auto simp: startPrep_def)
  have tg: "tTarget t0 \<noteq> ''''" using assms c l by (auto simp: startPrep_def)
  obtain rg0 leg where r: "startRange p t0 np0 = Inr (rg0, leg)"
    using assms c l tg by (cases "startRange p t0 np0") (auto simp: startPrep_def)
  obtain rg1 where sh: "startShare t0 rg0 = Inr rg1"
    using assms c l tg r by (cases "startShare t0 rg0") (auto simp: startPrep_def)
  define s where "s = startSource (goSlice (scopeTable np0 (tScope t0))) rg1"
  have s: "s \<noteq> ''''" "leg = '''' \<or> s = leg"
    using assms c l tg r sh by (auto simp: startPrep_def Let_def s_def split: if_splits)
  obtain d np1 where d: "destLeg p t0 np0 s = Inr (d, np1)"
    using assms c l tg r sh s by (cases "destLeg p t0 np0 s") (auto simp: startPrep_def Let_def s_def split: if_splits)
  have "mapLen (legsOf np1) \<le> MaxLegs \<and> (np, rg, src, dst, t') = (np1, rg1, s, d, t0\<lparr>tShare := Fin 0\<rparr>)"
    using assms c l tg r sh s d by (auto simp: startPrep_def Let_def s_def split: if_splits)
  then show thesis using that c l tg r sh s d s_def by blast
qed

lemma startPrep_same: "startPrep p t = Inr (np, rg, src, dst, t') \<Longrightarrow> same_step t t' \<and> tScope t' = tScope t"
  by (erule startPrep_Inr, drule startLegs_same) (simp add: same_step_def)

text \<open>The guards, as the conditions they leave behind.\<close>

lemma inheritTarget_Inr: "inheritTarget p t = Inr t' \<Longrightarrow> same_step t t' \<and> (pState p \<noteq> StateActive \<longrightarrow> t' = t)"
  unfolding inheritTarget_def Let_def by (auto simp: same_step_def split: if_split_asm)

lemma applyGuards_Inr:
  assumes "applyGuards p t = Inr t'"
  shows "inheritTarget p t = Inr t'" "legal (pState p) (tTo t)"
    "tHold t \<Longrightarrow> tTo t = StateRamping \<or> tTo t = StateMigrating"
    "tBarrier t \<noteq> '''' \<Longrightarrow> \<not> tHold t \<Longrightarrow> barrierOf p = Some (tBarrier t)"
    "tComplete t \<Longrightarrow> Held p" "tHold t \<Longrightarrow> pRamp p = Some r \<Longrightarrow> rHold r = None"
    "tTo t' \<noteq> StateRamping \<Longrightarrow> feq (tRatio t') (Fin 0) \<and> tPrefixes t' = []"
proof -
  obtain t1 where *: "stepGuards p t = None" "inheritTarget p t = Inr t1" "rampGuards t1 = None" "t' = t1"
    using assms by (auto simp: applyGuards_def split: option.splits sum.splits)
  then show "inheritTarget p t = Inr t'" "legal (pState p) (tTo t)"
    "tHold t \<Longrightarrow> tTo t = StateRamping \<or> tTo t = StateMigrating"
    "tBarrier t \<noteq> '''' \<Longrightarrow> \<not> tHold t \<Longrightarrow> barrierOf p = Some (tBarrier t)"
    "tComplete t \<Longrightarrow> Held p" "tHold t \<Longrightarrow> pRamp p = Some r \<Longrightarrow> rHold r = None"
    "tTo t' \<noteq> StateRamping \<Longrightarrow> feq (tRatio t') (Fin 0) \<and> tPrefixes t' = []"
    by (auto simp: stepGuards_def rampGuards_def)
qed

lemma applyGuards_same: "applyGuards p t = Inr t' \<Longrightarrow> same_step t t'"
  using applyGuards_Inr(1) inheritTarget_Inr by blast

lemma startView_sel [simp]:
  "pState (startView np src) = StateActive" "pPrimary (startView np src) = src" "pSource (startView np src) = ''''"
  "pTarget (startView np src) = ''''" "pRamp (startView np src) = None" "pBarrier (startView np src) = None"
  "pMove (startView np src) = None" "pCutover (startView np src) = None" "pLegClusters (startView np src) = fmempty"
  "namesOf (startView np src) = fmupd src (lBucket (getLeg (legsOf np) src)) fmempty" "pCold (startView np src) = ''''"
  by (simp_all add: startView_def zeroPlacement_def)

lemma startView_release [simp]: "release (startView np src) b \<noteq> Inr nv"
  by (simp add: release_def)

lemma startStep_same: "same_step t (startStep np t dst)" "tTarget (startStep np t dst) = dst"
    "tName (startStep np t dst) = lBucket (getLeg (legsOf np) dst)"
  by (simp_all add: same_step_def startStep_def)

lemma MoveView_sel [simp]:
  "pState (MoveView p m) = pState p" "pSource (MoveView p m) = mFrom m" "pPrimary (MoveView p m) = mTo m"
  "pRamp (MoveView p m) = limitRamp (mRange m) (mRamp m)" "pCutover (MoveView p m) = mCutover m"
  "pBarrier (MoveView p m) = pBarrier p" "pMove (MoveView p m) = None" "pTarget (MoveView p m) = ''''" "pCold (MoveView p m) = ''''"
  by (simp_all add: MoveView_def zeroPlacement_def limitRamp_def Let_def)

lemma Apply_cases [consumes 1, case_names release plain move start]:
  assumes "Apply p t = Inr np"
  obtains t' where "readTransition p t = Inr t'" "\<not> moves p t'" "tRelease t'" "release p (tBarrier t') = Inr np"
  | t' where "readTransition p t = Inr t'" "\<not> moves p t'" "\<not> tRelease t'" "applyPlain p t' = Inr np"
  | t' m t'' nv where "readTransition p t = Inr t'" "pMove p = Some m" "moveChecks p m t' = Inr t''"
      "(if tRelease t'' then release (MoveView p m) (tBarrier t'') else applyPlain (MoveView p m) t'') = Inr nv"
      "np = moveDone p m t'' nv"
  | t' np' rg src dst t'' nv where "readTransition p t = Inr t'" "moves p t'" "pMove p = None"
      "startPrep p t' = Inr (np', rg, src, dst, t'')"
      "\<not> tRelease t''" "applyPlain (startView np' src) (startStep np' t'' dst) = Inr nv"
      "np = startDone np' rg src dst t'' nv"
proof -
  obtain t' where r: "readTransition p t = Inr t'" using assms by (auto simp: Apply.simps split: sum.splits)
  show thesis
  proof (cases "moves p t'")
    case False
    then show thesis using assms r that(1,2) by (auto simp: Apply.simps split: if_splits)
  next
    case True
    then have a: "applyMove p t' = Inr np" using assms r by (simp add: Apply.simps)
    show thesis
    proof (cases "pMove p")
      case (Some m)
      then obtain t'' nv where c: "moveChecks p m t' = Inr t''" "Apply (MoveView p m) t'' = Inr nv" "np = moveDone p m t'' nv"
        using a by (auto simp: applyMove.simps split: sum.splits)
      with Apply_view [OF moveChecks_step] show thesis using that(3) r Some by fastforce
    next
      case None
      with a have "startMove p t' = Inr np" by (simp add: applyMove.simps)
      then obtain np' rg src dst t'' nv where c: "startPrep p t' = Inr (np', rg, src, dst, t'')"
          "Apply (startView np' src) (startStep np' t'' dst) = Inr nv" "np = startDone np' rg src dst t'' nv"
        by (auto simp: startMove.simps split: sum.splits)
      have a: "\<not> tRelease (startStep np' t'' dst)" "applyPlain (startView np' src) (startStep np' t'' dst) = Inr nv"
        using c(2) Apply_view [OF startPrep_view(3,4) [OF c(1)]] by (auto split: if_splits)
      from a(1) have "\<not> tRelease t''" by (simp add: startStep_def)
      then show thesis by (rule that(4) [OF r True None c(1) _ a(2) c(3)])
    qed
  qed
qed

subsection \<open>Only legal transitions\<close>

lemma legal_cases:
  assumes "legal fr to"
  obtains "fr = StateActive" "to = StateRamping \<or> to = StateMigrating"
  | "fr = StateRamping" "to = StateRamping \<or> to = StateMigrating"
  | "fr = StateMigrating" "to = StateCutover"
  | "fr = StateCutover" "to = StateActive"
  using assms by (auto simp: legal_def)

lemma leaveActive_Inr:
  assumes "leaveActive p t = Inr np"
  shows "pState np = tTo t" "pSource np = pPrimary p" "pPrimary np = tTarget t" "tTarget t \<noteq> pPrimary p" "tTarget t \<noteq> ''''"
    "pNames np = Some (fmupd (tTarget t) (tName t) (namesOf p))" "pLegClusters np = pLegClusters p" "pTarget np = ''''"
    "tName t \<noteq> ''''" "pCold np = pCold p" "pTier np = pTier p" "pMove np = pMove p"
  using assms by (auto simp: leaveActive_def Let_def split: if_splits)

lemma applyStep_state:
  assumes "applyStep p t = Inr np"
  shows "pState np = tTo t"
  using assms leaveActive_Inr(1) unfolding applyStep_def Let_def
  by (auto split: if_split_asm sum.split_asm)

lemma applyFinish_state: "pState (applyFinish p t np) = (if tHold t then StateRamping else pState np)"
  by (simp add: applyFinish_def Let_def)

lemma applyPlain_Inr:
  assumes "applyPlain p t = Inr np"
  obtains t' np' where "applyGuards p t = Inr t'" "applyStep p t' = Inr np'" "np = applyFinish p t' np'"
  using assms by (auto simp: applyPlain_def split: sum.splits)

lemma applyPlain_state:
  assumes "applyPlain p t = Inr np"
  shows "legal (pState p) (tTo t)" "pState np = (if tHold t then StateRamping else tTo t)"
proof -
  obtain t' np' where a: "applyGuards p t = Inr t'" "applyStep p t' = Inr np'" "np = applyFinish p t' np'"
    using assms by (rule applyPlain_Inr)
  show "legal (pState p) (tTo t)" by (rule applyGuards_Inr(2) [OF a(1)])
  show "pState np = (if tHold t then StateRamping else tTo t)"
    using applyGuards_same [OF a(1)] applyStep_state [OF a(2)] by (simp add: a(3) applyFinish_state same_step_def)
qed

lemma release_state:
  assumes "release p b = Inr np"
  shows "pState p = StateRamping" "Held p \<or> pMove p \<noteq> None" "pState np = StateActive \<or> pState np = StateRamping"
  using assms by (auto simp: release_def Held_def Let_def split: option.splits if_splits)

lemma settle_state [simp]: "pState (settle p) = pState p"
proof -
  have "pState (settleLeg p v i) = pState v" for v i by (simp add: settleLeg_def Let_def)
  then have f: "pState (foldl (settleLeg p) v is) = pState v" for v "is" by (induction "is" arbitrary: v) simp_all
  show ?thesis by (simp add: settle_def f Let_def split: list.splits)
qed

lemma setScopeTable_state [simp]: "pState (setScopeTable p s os) = pState p"
  by (simp add: setScopeTable_def)

lemma moveDone_state: "pState (moveDone p m t nv) = pState nv"
  by (simp add: moveDone_def Let_def)

lemma Apply_state:
  assumes "Apply p t = Inr np"
  shows "if tRelease t then pState p = StateRamping \<and> (pState np = StateActive \<or> pState np = StateRamping)
         else legal (pState p) (tTo t) \<and> pState np = (if tHold t then StateRamping else tTo t)"
  using assms
proof (cases rule: Apply_cases)
  case (release t')
  then show ?thesis using readTransition_same [OF release(1)] release_state [OF release(4)] by (simp add: same_step_def)
next
  case (plain t')
  then show ?thesis using readTransition_same [OF plain(1)] applyPlain_state [OF plain(4)] by (simp add: same_step_def)
next
  case (move t' m t'' nv)
  have "same_step t t''" using move(1,3) readTransition_same moveChecks_same same_step_trans by blast
  then show ?thesis using move(4,5) release_state [of "MoveView p m" "tBarrier t''" nv] applyPlain_state [of "MoveView p m" t'' nv]
    by (auto simp: same_step_def moveDone_state split: if_splits)
next
  case (start t' np' rg src dst t'' nv)
  have "same_step t t''" using start(1,4) readTransition_same startPrep_same same_step_trans by blast
  moreover have "pState p = StateActive"
    using start(4) by (auto simp: startPrep_def startChecks_def split: option.splits if_splits)
  ultimately show ?thesis
    using start(5,7) applyPlain_state [OF start(6)] startStep_same(1) [of t'' np' dst] by (simp add: same_step_def startDone_def)
qed

subsection \<open>Naming a new leg\<close>

lemma newLegIDFrom_Some:
  assumes "newLegIDFrom ls cluster i n = Some j"
  shows "legIDOK j \<and> \<not> hasKey ls j"
  by (rule newLegIDFrom.raw_induct [where P = "\<lambda>ls c i n j. legIDOK j \<and> \<not> hasKey ls j", OF _ assms])
     (simp split: if_splits)

lemma newLegID_Some: "newLegID ls cluster = Some j \<Longrightarrow> legIDOK j \<and> \<not> hasKey ls j"
  unfolding newLegID_def by (rule newLegIDFrom_Some)

lemma newLegIDFrom_reach:
  "\<not> hasKey ls (numbered cluster (n + k)) \<and> legIDOK (numbered cluster (n + k)) \<Longrightarrow>
   \<exists>j. newLegIDFrom ls cluster i n = Some j"
proof (induction k arbitrary: n i)
  case 0
  then have "newLegIDFrom ls cluster (numbered cluster n) (n + 1) = Some (numbered cluster n)"
    by (subst newLegIDFrom.simps) simp
  then show ?case by (subst newLegIDFrom.simps) auto
next
  case (Suc k)
  have "\<exists>j. newLegIDFrom ls cluster (numbered cluster n) (n + 1) = Some j"
    using Suc.prems by (intro Suc.IH) simp
  then show ?case by (subst newLegIDFrom.simps) auto
qed

lemma decimal_two: "n < 100 \<Longrightarrow> decimal n = (if n < 10 then [char_of (48 + n)] else [char_of (48 + n div 10), char_of (48 + n mod 10)])"
  by (subst decimal.simps) (auto simp: decimal.simps)

lemma decimal_digits: "n < 100 \<Longrightarrow> length (decimal n) \<le> 2 \<and> (\<forall>c \<in> set (decimal n). isDigit c \<and> c \<noteq> CHR ''-'')"
proof -
  have d: "isDigit (char_of (48 + k)) \<and> char_of (48 + k) \<noteq> CHR ''-''" if "k < 10" for k :: nat
    using that by (auto simp: isDigit_def less_eq_char_def char_of_eq_iff of_char_of take_bit_nat_def)
  assume "n < 100"
  then have "n div 10 < 10" by simp
  with \<open>n < 100\<close> d [of n] d [of "n div 10"] d [of "n mod 10"] show ?thesis by (auto simp: decimal_two)
qed

lemma decimal_inj: "n < 100 \<Longrightarrow> m < 100 \<Longrightarrow> decimal n = decimal m \<Longrightarrow> n = m"
proof -
  have c: "of_char (char_of (48 + k) :: char) = 48 + k" if "k < 10" for k :: nat
    using that by (simp add: take_bit_nat_def)
  assume nm: "n < 100" "m < 100" "decimal n = decimal m"
  then have "n div 10 < 10" "m div 10 < 10" by simp_all
  then show ?thesis
    using nm c [of n] c [of m] c [of "n div 10"] c [of "m div 10"] c [of "n mod 10"] c [of "m mod 10"]
    by (auto simp: decimal_two split: if_splits) (metis add_left_imp_eq div_mult_mod_eq)+
qed

lemma numbered_shape: "\<exists>k. numbered cluster n = take k cluster @ CHR ''-'' # decimal n"
  by (auto simp: numbered_def Let_def intro: exI [of _ "length cluster"])

lemma numbered_inj: "n < 100 \<Longrightarrow> m < 100 \<Longrightarrow> numbered cluster n = numbered cluster m \<Longrightarrow> n = m"
proof -
  assume nm: "n < 100" "m < 100" "numbered cluster n = numbered cluster m"
  have d: "takeWhile (\<lambda>c. c \<noteq> CHR ''-'') (rev (numbered cluster k)) = rev (decimal k)" if k: "k < 100" for k
  proof -
    obtain j where j: "numbered cluster k = take j cluster @ CHR ''-'' # decimal k" using numbered_shape by blast
    have "\<forall>c \<in> set (rev (decimal k)). c \<noteq> CHR ''-''" using decimal_digits [OF k] by simp
    then have "takeWhile (\<lambda>c. c \<noteq> CHR ''-'') (rev (decimal k) @ (CHR ''-'' # rev (take j cluster))) = rev (decimal k)"
      by (subst takeWhile_append2) simp_all
    then show ?thesis by (simp add: j)
  qed
  from d [OF nm(1)] d [OF nm(2)] nm(3) have "rev (decimal n) = rev (decimal m)" by simp
  then show ?thesis using decimal_inj [OF nm(1,2)] by simp
qed

lemma numbered_ok: "legIDOK cluster \<Longrightarrow> n < 100 \<Longrightarrow> legIDOK (numbered cluster n)"
proof -
  assume ok: "legIDOK cluster" and n: "n < 100"
  obtain c cs where c: "cluster = c # cs" using ok by (cases cluster) (auto simp: legIDOK_def)
  have d: "length (decimal n) \<le> 2" "\<forall>x \<in> set (decimal n). isDigit x" using decimal_digits [OF n] by auto
  have t: "\<exists>k. take (63 - length (decimal n) - 1) cluster = c # take k cs" using d(1) c
    by (cases "63 - length (decimal n) - 1") auto
  then obtain k where k: "take (63 - length (decimal n) - 1) cluster = c # take k cs" ..
  then have l: "length (take k cs) + length (decimal n) + 1 \<le> 62"
    using d(1) length_take [of "63 - length (decimal n) - 1" cluster] by simp
  show ?thesis using ok d l k c
    by (auto simp: numbered_def Let_def legIDOK_def list_all_iff dest: in_set_takeD)
qed

lemma newLegID_returns:
  assumes "legIDOK cluster" "mapLen ls \<le> MaxLegs"
  shows "\<exists>j. newLegID ls cluster = Some j"
proof -
  let ?S = "numbered cluster ` {2..34}"
  have "inj_on (numbered cluster) {2..34}"
  proof (rule inj_onI)
    fix x y :: nat assume "x \<in> {2..34}" "y \<in> {2..34}" "numbered cluster x = numbered cluster y"
    then show "x = y" using numbered_inj [of x y cluster] by simp
  qed
  then have c: "card ?S = 33" by (simp add: card_image)
  have l: "card (fset (fmdom ls)) \<le> 32" using assms(2) by (simp add: mapLen_def MaxLegs_def fcard.rep_eq)
  have "\<not> ?S \<subseteq> fset (fmdom ls)"
  proof
    assume "?S \<subseteq> fset (fmdom ls)"
    from card_mono [OF finite_fset this] c l show False by linarith
  qed
  then obtain n where n: "n \<in> {2..34}" "numbered cluster n \<notin> fset (fmdom ls)" by blast
  from n(1) have n': "2 + (n - 2) = n" "n < 100" by auto
  have "\<not> hasKey ls (numbered cluster n) \<and> legIDOK (numbered cluster n)"
    using numbered_ok [OF assms(1) n'(2)] n(2) by simp
  then show ?thesis unfolding newLegID_def by (intro newLegIDFrom_reach [of _ _ 2 "n - 2"]) (simp only: n'(1) simp_thms)
qed

text \<open>A name that does not start like a leg id never gives one: the loop does not end.\<close>

lemma newLegIDFrom_diverges:
  assumes "\<And>n. \<not> legIDOK (numbered cluster n)" and "\<not> legIDOK i"
  shows "newLegIDFrom ls cluster i n = None"
proof (cases "newLegIDFrom ls cluster i n")
  case (Some j)
  have "(\<forall>n. \<not> legIDOK (numbered cluster n)) \<longrightarrow> \<not> legIDOK i \<longrightarrow> False"
    by (rule newLegIDFrom.raw_induct
        [where P = "\<lambda>ls c i n j. (\<forall>n. \<not> legIDOK (numbered c n)) \<longrightarrow> \<not> legIDOK i \<longrightarrow> False", OF _ Some])
       (simp split: if_splits, blast)
  with assms show ?thesis by blast
qed

lemma newLegID_diverges:
  assumes "cluster = '''' \<or> \<not> (isLower (hd cluster) \<or> isDigit (hd cluster))"
  shows "newLegID ls cluster = None"
proof -
  have dash: "\<not> isLower (CHR ''-'')" "\<not> isDigit (CHR ''-'')" by (simp_all add: isLower_def isDigit_def less_eq_char_def)
  have "\<not> legIDOK (numbered cluster n)" for n
  proof -
    obtain k where k: "numbered cluster n = take k cluster @ CHR ''-'' # decimal n" using numbered_shape by blast
    show ?thesis unfolding k using assms dash by (cases cluster; cases k) (auto simp: legIDOK_def)
  qed
  moreover have "\<not> legIDOK cluster" using assms by (cases cluster) (auto simp: legIDOK_def)
  ultimately show ?thesis unfolding newLegID_def by (intro newLegIDFrom_diverges)
qed

subsection \<open>A step always returns\<close>

text \<open>An error that is a refusal: neither a panic nor a loop.\<close>

definition refusal :: "apply_error \<Rightarrow> bool" where
  "refusal e = (case e of TransitionError _ _ _ \<Rightarrow> True | _ \<Rightarrow> False)"

lemma refusal_simps [simp]: "refusal (TransitionError a b r)" "\<not> refusal Panic" "\<not> refusal Diverges"
  by (simp_all add: refusal_def)

lemma readTransition_refusal: "readTransition p t = Inl e \<Longrightarrow> refusal e"
  using LeadingShare_total [of FullRange "tShare t"]
  by (auto simp: readTransition_def resolveShare_def resolveLeg_def split: if_split_asm sum.split_asm)

lemma release_refusal: "release p b = Inl e \<Longrightarrow> refusal e"
  by (auto simp: release_def Let_def split: option.split_asm if_split_asm)

lemma applyGuards_refusal: "applyGuards p t = Inl e \<Longrightarrow> refusal e"
  by (auto simp: applyGuards_def inheritTarget_def Let_def split: option.split_asm sum.split_asm if_split_asm)

lemma rampStep_refusal: "rampStep p t = Inl e \<Longrightarrow> refusal e"
  by (auto simp: rampStep_def heldCheck_def Let_def split: option.split_asm if_split_asm)

lemma applyStep_refusal: "applyStep p t = Inl e \<Longrightarrow> refusal e"
  using rampStep_refusal [of p t] by (auto simp: applyStep_def leaveActive_def Let_def split: sum.split_asm if_split_asm)

lemma applyPlain_refusal: "applyPlain p t = Inl e \<Longrightarrow> refusal e"
  using applyGuards_refusal applyStep_refusal by (fastforce simp: applyPlain_def split: sum.split_asm)

lemma moveChecks_refusal: "moveChecks p m t = Inl e \<Longrightarrow> refusal e"
  by (auto simp: moveChecks_def split: option.split_asm)

lemma startRange_refusal: "startRange p t np = Inl e \<Longrightarrow> refusal e"
  by (auto simp: startRange_def Let_def split: option.split_asm if_split_asm)

lemma startLegs_refusal: "startLegs p t = Inl e \<Longrightarrow> refusal e"
  by (auto simp: startLegs_def Let_def split: if_split_asm)

lemma startShare_refusal: "startShare t rg = Inl e \<Longrightarrow> refusal e"
  using LeadingShare_total [of rg "tShare t"] by (auto simp: startShare_def split: if_split_asm)

lemma destLeg_refusal:
  assumes "pLegs np \<noteq> None" "legIDOK (tTarget t)" "mapLen (legsOf np) \<le> MaxLegs" "destLeg p t np src = Inl e"
  shows "refusal e"
  using assms newLegID_returns [OF assms(2,3)]
  by (auto simp: destLeg_def Let_def split: prod.split_asm option.split_asm if_split_asm)

text \<open>A placement whose legs can be named: at most \<open>MaxLegs\<close> of them when it is spread, and a recorded target
  that is a leg id.\<close>

definition nameable :: "placement \<Rightarrow> bool" where
  "nameable p \<longleftrightarrow>
     (Spread p \<longrightarrow> pLegs p \<noteq> None \<and> mapLen (legsOf p) \<le> MaxLegs) \<and> (pTarget p = '''' \<or> legIDOK (pTarget p))"

lemma startLegs_nameable:
  assumes "nameable p" "startLegs p t = Inr (np, t')" "tTarget t' \<noteq> ''''" "tTarget t = '''' \<or> legIDOK (tTarget t)"
  shows "pLegs np \<noteq> None" "legIDOK (tTarget t')" "mapLen (legsOf np) \<le> MaxLegs"
  using assms by (auto simp: startLegs_def nameable_def Let_def mapLen_fmupd MaxLegs_def split: if_split_asm)

lemma startPrep_refusal:
  assumes p: "nameable p" "tTarget t = '''' \<or> legIDOK (tTarget t)" and e: "startPrep p t = Inl e"
  shows "refusal e"
proof (cases "startChecks p t")
  case None
  show ?thesis
  proof (cases "startLegs p t")
    case (Inl e')
    then show ?thesis using e None startLegs_refusal by (auto simp: startPrep_def)
  next
    case (Inr x)
    then obtain np t' where l: "startLegs p t = Inr (np, t')" by (cases x) auto
    show ?thesis
    proof (cases "tTarget t' = ''''")
      case False
      note n = startLegs_nameable [OF p(1) l False p(2)]
      show ?thesis using e None l False startRange_refusal [of p t' np] startShare_refusal [of t'] destLeg_refusal [OF n]
        by (auto simp: startPrep_def Let_def split: sum.split_asm prod.split_asm if_split_asm)
    qed (use e None l in \<open>auto simp: startPrep_def\<close>)
  qed
qed (use e in \<open>auto simp: startPrep_def\<close>)

lemma Apply_refusal:
  assumes "nameable p" "tTarget t = '''' \<or> legIDOK (tTarget t)" "Apply p t = Inl e"
  shows "refusal e"
proof (cases "readTransition p t")
  case (Inr t')
  show ?thesis
  proof (cases "moves p t'")
    case False
    then show ?thesis using assms Inr release_refusal applyPlain_refusal by (auto simp: Apply.simps split: if_splits)
  next
    case True
    then have a: "applyMove p t' = Inl e" using assms Inr by (simp add: Apply.simps)
    have tt: "tTarget t' = '''' \<or> legIDOK (tTarget t')" using readTransition_Inr [OF Inr] assms(2) by simp
    show ?thesis
    proof (cases "pMove p")
      case None
      show ?thesis
      proof (cases "startPrep p t'")
        case (Inl e')
        then show ?thesis using a None startPrep_refusal [OF assms(1) tt] by (simp add: applyMove.simps startMove.simps)
      next
        case (Inr x)
        then obtain np rg src dst t'' where x: "startPrep p t' = Inr (np, rg, src, dst, t'')" by (cases x) auto
        then have "Apply (startView np src) (startStep np t'' dst) = Inl e"
          using a None by (auto simp: applyMove.simps startMove.simps split: sum.splits)
        then show ?thesis using Apply_view [OF startPrep_view(3,4) [OF x]] release_refusal applyPlain_refusal
          by (auto split: if_splits)
      qed
    next
      case (Some m)
      show ?thesis
      proof (cases "moveChecks p m t'")
        case (Inr t'')
        then have "Apply (MoveView p m) t'' = Inl e" using a Some by (auto simp: applyMove.simps split: sum.splits)
        then show ?thesis using Apply_view [OF moveChecks_step [OF Inr]] release_refusal applyPlain_refusal
          by (auto split: if_splits)
      qed (use a Some moveChecks_refusal in \<open>auto simp: applyMove.simps\<close>)
    qed
  qed
qed (use assms readTransition_refusal in \<open>auto simp: Apply.simps\<close>)

end
