(* ===== verification/Fencing.thy ===== *)
theory Fencing
  imports Lifecycle
begin

text \<open>
  The fence of ADR-0016: what a state change does to where writes are accepted. \<open>acceptsWrite\<close> is the
  backend bucket a write of a key goes to under a placement (none while the key is held). The theorems
  compare it before and after a held step, its completion, its release, and the end of a move, so that two
  proxies one step apart never accept writes of one key in two places.
\<close>

subsection \<open>Writes under a ramp\<close>

definition in_ramp :: "hash_range option \<Rightarrow> float64 \<Rightarrow> string list \<Rightarrow> string \<Rightarrow> bool" where
  "in_ramp rgo q ps key \<longleftrightarrow> in_limits rgo key \<and> (hasPrefixOf ps key \<or> by_ratio rgo q key)"

definition in_hold :: "ramp \<Rightarrow> string \<Rightarrow> bool" where
  "in_hold r key = (case rHold r of None \<Rightarrow> False | Some h \<Rightarrow> in_ramp (rRange r) (hRatio h) (hPrefixes h) key)"

lemma acceptsWrite_ramping:
  assumes "pState p = StateRamping" "pSource p \<noteq> ''''" "pRamp p = Some r" "rHash r = RampHash"
  shows "acceptsWrite p key =
    (if in_ramp (rRange r) (rRatio r) (rPrefixes r) key then Some (sideBucket p Primary)
     else if in_hold r key then None else Some (sideBucket p Source))"
proof -
  have "InRange (Some r) key = Inr (in_ramp (rRange r) (rRatio r) (rPrefixes r) key)"
    using assms(4) by (simp add: InRange_eq in_ramp_def)
  moreover have "InHold (Some r) key = Inr (in_hold r key)"
    using assms(4) InHold_eq [OF assms(4)] by (auto simp: InHold_def in_hold_def in_ramp_def split: option.splits)
  ultimately show ?thesis using assms(1,2,3)
    by (auto simp: acceptsWrite_def Decide_def toPrimary_def Let_def split: bool.splits)
qed

lemma acceptsWrite_settled:
  assumes "pSource p = '''' \<or> pState p \<noteq> StateRamping"
  shows "acceptsWrite p key = Some (sideBucket p Primary)"
  using assms by (auto simp: acceptsWrite_def Decide_def toPrimary_def Let_def)

lemma in_ramp_zero: "\<not> in_ramp rgo (Fin 0) [] key"
  by (simp add: in_ramp_def hasPrefixOf_def by_ratio_def fle_def)

lemma in_ramp_mono:
  assumes "ratio_ok q" "ratio_ok q'" "fle q q'" "set ps \<subseteq> set ps'" "in_ramp rgo q ps key"
  shows "in_ramp rgo q' ps' key"
  using assms by_ratio_mono [of q q' rgo key] hasPrefixOf_mono [of ps ps' key] by (auto simp: in_ramp_def)

lemma fle_linear: "ratio_ok x \<Longrightarrow> ratio_ok y \<Longrightarrow> \<not> flt x y \<Longrightarrow> fle y x"
  by (elim ratio_ok_cases) (auto simp: fle_def)

lemma fle_refl: "ratio_ok x \<Longrightarrow> fle x x"
  by (elim ratio_ok_cases) (auto simp: fle_def)

subsection \<open>What a step does to the ramp\<close>

lemma addPrefixes_set: "set (addPrefixes old new) = set old \<union> set new"
  unfolding addPrefixes_def by (induction new arbitrary: old) auto

lemma rampStep_Inr:
  assumes "rampStep p t = Inr r'"
  obtains r where "pRamp p = Some r" "rHash r = RampHash" "rHash r' = RampHash" "rRange r' = None" "rHold r' = None"
    "rRatio r' = rRatio r \<or> (rRatio r' = tRatio t \<and> \<not> flt (tRatio t) (rRatio r))"
    "set (rPrefixes r) \<subseteq> set (rPrefixes r')"
    "\<And>h. rHold r = Some h \<Longrightarrow> \<not> tHold t \<Longrightarrow> set (rPrefixes r') \<subseteq> set (rPrefixes r) \<union> set (hPrefixes h)"
    "\<And>h. rHold r = Some h \<Longrightarrow> \<not> tHold t \<Longrightarrow> \<not> (flt (hRatio h) (rRatio r') \<and> flt (rRatio r) (rRatio r'))"
proof -
  obtain r where r: "pRamp p = Some r"
    using assms by (cases "pRamp p") (auto simp: rampStep_def zeroRamp_def Let_def)
  define n where "n = \<lparr>rHash = rHash r, rRatio = (if \<not> feq (tRatio t) (Fin 0) then tRatio t else rRatio r),
                       rPrefixes = addPrefixes (rPrefixes r) (tPrefixes t), rRange = None, rHold = None\<rparr>"
  have h: "rHash r = RampHash" "feq (tRatio t) (Fin 0) \<or> \<not> flt (tRatio t) (rRatio r)" "heldCheck p t r n = Inr r'"
    using assms r by (auto simp: rampStep_def n_def Let_def split: if_split_asm)
  then have n: "r' = n" and k: "\<And>h. rHold r = Some h \<Longrightarrow> \<not> tHold t \<Longrightarrow>
      set (rPrefixes n) \<subseteq> set (rPrefixes r) \<union> set (hPrefixes h)"
      "\<And>h. rHold r = Some h \<Longrightarrow> \<not> tHold t \<Longrightarrow> \<not> (flt (hRatio h) (rRatio n) \<and> flt (rRatio r) (rRatio n))"
    by (auto simp: heldCheck_def find_None_iff split: option.split_asm if_split_asm)
  have q: "rRatio n = rRatio r \<or> (rRatio n = tRatio t \<and> \<not> flt (tRatio t) (rRatio r))" "set (rPrefixes r) \<subseteq> set (rPrefixes n)"
    "rHash n = RampHash" "rRange n = None" "rHold n = None"
    using h(1,2) by (auto simp: n_def addPrefixes_set)
  show thesis by (rule that [OF r h(1)]) (use q k in \<open>simp_all add: n\<close>)
qed

text \<open>The roles of a placement: who is primary, who is source, and under which names.\<close>

definition same_roles :: "placement \<Rightarrow> placement \<Rightarrow> bool" where
  "same_roles p q \<longleftrightarrow>
     pPrimary q = pPrimary p \<and> pSource q = pSource p \<and> pNames q = pNames p \<and> pLegClusters q = pLegClusters p"

lemma same_roles_bucket: "same_roles p q \<Longrightarrow> sideBucket q s = sideBucket p s"
  by (cases s) (simp_all add: same_roles_def sideBucket_def roleBucket_def ClusterOf_def)

lemma applyFinish_fields:
  "pPrimary (applyFinish p t np) = pPrimary np" "pSource (applyFinish p t np) = pSource np"
  "pNames (applyFinish p t np) = pNames np" "pLegClusters (applyFinish p t np) = pLegClusters np"
  "pTarget (applyFinish p t np) = pTarget np" "pMove (applyFinish p t np) = pMove np" "pCutover (applyFinish p t np) = pCutover np"
  by (simp_all add: applyFinish_def Let_def)

lemma applyFinish_ramp:
  "pRamp (applyFinish p t np) =
     (if tHold t
      then Some ((case pRamp p of
                    Some r \<Rightarrow> if pState p = StateRamping then r else zeroRamp\<lparr>rHash := RampHash\<rparr>
                  | None \<Rightarrow> zeroRamp\<lparr>rHash := RampHash\<rparr>)
             \<lparr>rHold := Some (case pRamp np of
                Some r \<Rightarrow> \<lparr>hRatio = rRatio r, hPrefixes = rPrefixes r\<rparr>
              | None \<Rightarrow> \<lparr>hRatio = Fin 1, hPrefixes = []\<rparr>)\<rparr>)
      else pRamp np)"
  by (simp add: applyFinish_def Let_def)

lemma applyStep_roles:
  assumes "applyStep p t = Inr np" "pState p = StateRamping \<or> pState p = StateMigrating"
  shows "same_roles p np"
  using assms by (auto simp: applyStep_def same_roles_def Let_def split: if_split_asm sum.split_asm)

lemma applyPlain_hold:
  assumes "applyPlain v t = Inr nv" "tHold t" "pRamp v = None \<or> pState v = StateRamping"
  obtains (leaving) h tgt nm where "pState v = StateActive" "pSource nv = pPrimary v" "pPrimary nv = tgt" "tgt \<noteq> pPrimary v"
      "namesOf nv = fmupd tgt nm (namesOf v)" "pLegClusters nv = pLegClusters v" "pState nv = StateRamping"
      "pRamp nv = Some (zeroRamp\<lparr>rHash := RampHash, rHold := Some h\<rparr>)"
  | (ramping) h where "pState v = StateRamping" "same_roles v nv" "pState nv = StateRamping"
      "pRamp nv = Some ((case pRamp v of Some r \<Rightarrow> r | None \<Rightarrow> zeroRamp\<lparr>rHash := RampHash\<rparr>)\<lparr>rHold := Some h\<rparr>)"
      "\<And>r. pRamp v = Some r \<Longrightarrow> rHold r = None"
proof -
  obtain t' np where a: "applyGuards v t = Inr t'" "applyStep v t' = Inr np" "nv = applyFinish v t' np"
    using assms(1) by (rule applyPlain_Inr)
  have h': "tHold t'" using applyGuards_same [OF a(1)] assms(2) by (simp add: same_step_def)
  have st: "pState nv = StateRamping" using h' by (simp add: a(3) applyFinish_state)
  have "legal (pState v) (tTo t)" "tTo t = StateRamping \<or> tTo t = StateMigrating"
    using applyGuards_Inr(2,3) [OF a(1)] assms(2) by auto
  then consider "pState v = StateActive" | "pState v = StateRamping" by (auto elim!: legal_cases)
  then show thesis
  proof cases
    case 1
    then have l: "leaveActive v t' = Inr np" using a(2) by (simp add: applyStep_def)
    have r: "\<exists>h. pRamp nv = Some (zeroRamp\<lparr>rHash := RampHash, rHold := Some h\<rparr>)"
      using h' 1 assms(3) by (auto simp: a(3) applyFinish_ramp)
    then obtain h where h: "pRamp nv = Some (zeroRamp\<lparr>rHash := RampHash, rHold := Some h\<rparr>)" ..
    show thesis
      by (rule leaving [OF 1 _ _ _ _ _ st h, of "tTarget t'" "tName t'"])
         (simp_all add: a(3) applyFinish_fields leaveActive_Inr [OF l])
  next
    case 2
    have s: "same_roles v nv" using applyStep_roles [OF a(2)] 2 by (simp add: a(3) same_roles_def applyFinish_fields)
    have "\<exists>h. pRamp nv = Some ((case pRamp v of Some r \<Rightarrow> r | None \<Rightarrow> zeroRamp\<lparr>rHash := RampHash\<rparr>)\<lparr>rHold := Some h\<rparr>)"
      using h' 2 by (cases "pRamp v") (auto simp: a(3) applyFinish_ramp)
    then obtain h where h: "pRamp nv = Some ((case pRamp v of Some r \<Rightarrow> r | None \<Rightarrow> zeroRamp\<lparr>rHash := RampHash\<rparr>)\<lparr>rHold := Some h\<rparr>)" ..
    show thesis by (rule ramping [OF 2 s st h]) (rule applyGuards_Inr(6) [OF a(1) assms(2)])
  qed
qed

text \<open>A held step: every write is accepted where it was, or not at all.\<close>

lemma applyPlain_hold_writes:
  assumes "applyPlain v t = Inr nv" "tHold t" "pRamp v = None \<or> pState v = StateRamping"
    and src: "pState v = StateActive \<Longrightarrow> pPrimary v \<noteq> ''''" "pState v = StateRamping \<Longrightarrow> pSource v \<noteq> ''''"
    and hash: "\<And>r. pRamp v = Some r \<Longrightarrow> rHash r = RampHash"
    and acc: "acceptsWrite nv key = Some b"
  shows "acceptsWrite v key = Some b"
  using assms(1-3)
proof (cases rule: applyPlain_hold)
  case (leaving h tgt nm)
  have "acceptsWrite nv key = (if in_hold (zeroRamp\<lparr>rHash := RampHash, rHold := Some h\<rparr>) key then None else Some (sideBucket nv Source))"
    using acceptsWrite_ramping [OF leaving(7) _ leaving(8)] leaving(1,2) src(1) in_ramp_zero by (simp add: zeroRamp_def)
  then have "b = sideBucket nv Source" using acc by (simp split: if_splits)
  also have "\<dots> = sideBucket v Primary"
    using leaving(2,4,5,6) by (simp add: sideBucket_def roleBucket_def ClusterOf_def)
  finally show ?thesis using acceptsWrite_settled [of v] leaving(1) by simp
next
  case (ramping h)
  show ?thesis
  proof (cases "pRamp v")
    case None
    then have "acceptsWrite v key = Some (sideBucket v Source)"
      using ramping(1) src(2) by (simp add: acceptsWrite_def Decide_def toPrimary_def InRange_def InHold_def Let_def)
    moreover have "acceptsWrite nv key = (if in_hold (zeroRamp\<lparr>rHash := RampHash, rHold := Some h\<rparr>) key then None else Some (sideBucket nv Source))"
      using acceptsWrite_ramping [OF ramping(3) _ ramping(4)] ramping(1,2) src(2) None in_ramp_zero
      by (simp add: zeroRamp_def same_roles_def)
    ultimately show ?thesis using acc same_roles_bucket [OF ramping(2)] by (simp split: if_splits)
  next
    case (Some r)
    have "in_hold r key = False" using ramping(5) [OF Some] by (simp add: in_hold_def)
    then have "acceptsWrite v key =
        (if in_ramp (rRange r) (rRatio r) (rPrefixes r) key then Some (sideBucket v Primary) else Some (sideBucket v Source))"
      using acceptsWrite_ramping [OF ramping(1) src(2) [OF ramping(1)] Some hash [OF Some]] by simp
    moreover have "acceptsWrite nv key =
        (if in_ramp (rRange r) (rRatio r) (rPrefixes r) key then Some (sideBucket nv Primary)
         else if in_hold (r\<lparr>rHold := Some h\<rparr>) key then None else Some (sideBucket nv Source))"
      using acceptsWrite_ramping [OF ramping(3) _ ramping(4)] ramping(1,2) src(2) Some hash [OF Some]
      by (simp add: same_roles_def)
    ultimately show ?thesis using acc same_roles_bucket [OF ramping(2)] by (simp split: if_splits)
  qed
qed

subsection \<open>Completing and releasing a held step\<close>

text \<open>A ramp with its range replaced, as a move's step limits it.\<close>

definition limitTo :: "hash_range option \<Rightarrow> placement \<Rightarrow> placement" where
  "limitTo rgo p = p\<lparr>pRamp := map_option (\<lambda>r. r\<lparr>rRange := rgo\<rparr>) (pRamp p)\<rparr>"

lemma limitTo_sel [simp]:
  "pState (limitTo rgo p) = pState p" "pSource (limitTo rgo p) = pSource p" "pPrimary (limitTo rgo p) = pPrimary p"
  "sideBucket (limitTo rgo p) s = sideBucket p s" "pRamp (limitTo rgo p) = map_option (\<lambda>r. r\<lparr>rRange := rgo\<rparr>) (pRamp p)"
  by (simp_all add: limitTo_def sideBucket_def roleBucket_def ClusterOf_def split: side.split)

text \<open>The ratios a step reads are validated ones.\<close>

definition ratios_ok :: "ramp \<Rightarrow> bool" where
  "ratios_ok r \<longleftrightarrow> ratio_ok (rRatio r) \<and> (\<forall>h. rHold r = Some h \<longrightarrow> ratio_ok (hRatio h))"

lemma rampStep_ramps:
  assumes step: "rampStep p t = Inr r'" and p: "pRamp p = Some r" "ratios_ok r" "rHold r = Some h" and t: "ratio_ok (tRatio t)" "\<not> tHold t"
  shows "in_ramp rgo (rRatio r) (rPrefixes r) key \<Longrightarrow> in_ramp rgo (rRatio r') (rPrefixes r') key"
    "in_ramp rgo (rRatio r') (rPrefixes r') key \<Longrightarrow>
     in_ramp rgo (rRatio r) (rPrefixes r) key \<or> in_ramp rgo (hRatio h) (hPrefixes h) key"
proof -
  have ok: "ratio_ok (rRatio r)" "ratio_ok (hRatio h)" using p by (auto simp: ratios_ok_def)
  have q: "rRatio r' = rRatio r \<or> (rRatio r' = tRatio t \<and> \<not> flt (tRatio t) (rRatio r))"
    "set (rPrefixes r) \<subseteq> set (rPrefixes r')" "set (rPrefixes r') \<subseteq> set (rPrefixes r) \<union> set (hPrefixes h)"
    "\<not> (flt (hRatio h) (rRatio r') \<and> flt (rRatio r) (rRatio r'))"
    using rampStep_Inr [OF step] p(1,3) t(2) by (metis option.inject)+
  have ok': "ratio_ok (rRatio r')" using q(1) ok t by auto
  have le: "fle (rRatio r) (rRatio r')" using q(1) ok ok' t fle_linear fle_refl by metis
  have up: "fle (rRatio r') (hRatio h) \<or> fle (rRatio r') (rRatio r)" using q(4) ok ok' fle_linear by metis
  show "in_ramp rgo (rRatio r) (rPrefixes r) key \<Longrightarrow> in_ramp rgo (rRatio r') (rPrefixes r') key"
    by (rule in_ramp_mono [OF ok(1) ok' le q(2)])
  assume "in_ramp rgo (rRatio r') (rPrefixes r') key"
  then have "in_limits rgo key" "hasPrefixOf (rPrefixes r') key \<or> by_ratio rgo (rRatio r') key" by (auto simp: in_ramp_def)
  moreover have "hasPrefixOf (rPrefixes r) key \<or> hasPrefixOf (hPrefixes h) key" if "hasPrefixOf (rPrefixes r') key"
    using that q(3) by (auto simp: hasPrefixOf_def list_ex_iff)
  moreover have "by_ratio rgo (rRatio r) key \<or> by_ratio rgo (hRatio h) key" if "by_ratio rgo (rRatio r') key"
    using that up by_ratio_mono [OF ok' ok(1)] by_ratio_mono [OF ok' ok(2)] by blast
  ultimately show "in_ramp rgo (rRatio r) (rPrefixes r) key \<or> in_ramp rgo (hRatio h) (hPrefixes h) key"
    by (auto simp: in_ramp_def)
qed

lemma applyPlain_ramping:
  assumes "applyPlain v t = Inr nv" "\<not> tHold t" "pState v = StateRamping"
  obtains (ramp) r where "tTo t = StateRamping" "pState nv = StateRamping" "same_roles v nv" "pRamp nv = Some r" "rampStep v t = Inr r"
  | (migrate) "tTo t = StateMigrating" "pState nv = StateMigrating" "same_roles v nv" "\<not> heldBelowOne v"
proof -
  obtain t' np where a: "applyGuards v t = Inr t'" "applyStep v t' = Inr np" "nv = applyFinish v t' np"
    using assms(1) by (rule applyPlain_Inr)
  have t': "t' = t" using inheritTarget_Inr [OF applyGuards_Inr(1) [OF a(1)]] assms(3) by simp
  have s: "same_roles v nv" using applyStep_roles [OF a(2)] assms(3) by (simp add: a(3) same_roles_def applyFinish_fields)
  have "tTo t = StateRamping \<or> tTo t = StateMigrating"
    using applyGuards_Inr(2) [OF a(1)] assms(3) by (auto elim!: legal_cases)
  then show thesis
  proof
    assume to: "tTo t = StateRamping"
    then obtain r where "rampStep v t = Inr r" "np = v\<lparr>pState := tTo t, pRamp := Some r\<rparr>"
      using a(2) assms(3) t' by (auto simp: applyStep_def Let_def split: sum.splits)
    then show thesis using ramp [OF to _ s] assms(2) to t' by (simp add: a(3) applyFinish_state applyFinish_ramp)
  next
    assume to: "tTo t = StateMigrating"
    then have "\<not> heldBelowOne v" "pState np = StateMigrating"
      using a(2) assms(2,3) t' by (auto simp: applyStep_def Let_def split: if_splits)
    then show thesis using migrate [OF to _ s] assms(2) t' by (simp add: a(3) applyFinish_state)
  qed
qed

lemma applyPlain_complete_writes:
  assumes step: "applyPlain v t = Inr nv" "\<not> tHold t" and v: "pState v = StateRamping" "pSource v \<noteq> ''''" "pMove v = None"
    and r: "pRamp v = Some r" "rHash r = RampHash" "ratios_ok r" "rHold r = Some h" and t: "ratio_ok (tRatio t)"
    and key: "in_limits (rRange r) key" and acc: "acceptsWrite v key = Some b"
  shows "acceptsWrite (limitTo (rRange r) nv) key = Some b"
proof -
  have av: "acceptsWrite v key =
    (if in_ramp (rRange r) (rRatio r) (rPrefixes r) key then Some (sideBucket v Primary)
     else if in_ramp (rRange r) (hRatio h) (hPrefixes h) key then None else Some (sideBucket v Source))"
    using acceptsWrite_ramping [OF v(1,2) r(1,2)] r(4) by (simp add: in_hold_def)
  from step v(1) show ?thesis
  proof (cases rule: applyPlain_ramping)
    case (ramp r')
    have r': "rHash r' = RampHash" "rHold r' = None" using rampStep_Inr [OF ramp(5)] by metis+
    have src: "pSource nv \<noteq> ''''" using v(2) ramp(3) by (simp add: same_roles_def)
    have "acceptsWrite (limitTo (rRange r) nv) key =
      (if in_ramp (rRange r) (rRatio r') (rPrefixes r') key then Some (sideBucket nv Primary) else Some (sideBucket nv Source))"
      using acceptsWrite_ramping [of "limitTo (rRange r) nv" "r'\<lparr>rRange := rRange r\<rparr>" key] src ramp(2,4) r'
      by (simp add: in_hold_def)
    then show ?thesis
      using av acc same_roles_bucket [OF ramp(3)] rampStep_ramps [OF ramp(5) r(1,3,4) t step(2), of "rRange r" key]
      by (auto split: if_splits)
  next
    case migrate
    have "\<not> flt (hRatio h) (Fin 1)" using migrate(4) r v(3) by (simp add: heldBelowOne_def Held_def)
    then have "fle (Fin 1) (hRatio h)" using r(3,4) by (auto simp: ratios_ok_def fle_def elim!: ratio_ok_cases)
    then have "by_ratio (rRange r) (hRatio h) key" by (cases "hRatio h") (auto simp: by_ratio_def fle_def split: option.splits)
    then have "in_ramp (rRange r) (hRatio h) (hPrefixes h) key" using key by (simp add: in_ramp_def)
    then have "b = sideBucket v Primary" using av acc by (auto split: if_splits)
    then show ?thesis using acceptsWrite_settled [of "limitTo (rRange r) nv"] migrate(2) same_roles_bucket [OF migrate(3)] by simp
  qed
qed

lemma release_writes:
  assumes rel: "release v bid = Inr nv" and v: "pSource v \<noteq> ''''" "\<And>r. pRamp v = Some r \<Longrightarrow> rHash r = RampHash"
    and acc: "acceptsWrite v key = Some b"
  shows "acceptsWrite nv key = Some b"
proof -
  obtain r where r: "pRamp v = Some r" "pState v = StateRamping" "rHold r \<noteq> None"
    using rel by (auto simp: release_def split: option.splits if_splits)
  note av = acceptsWrite_ramping [OF r(2) v(1) r(1) v(2) [OF r(1)]]
  show ?thesis
  proof (cases "feq (rRatio r) (Fin 0) \<and> rPrefixes r = []")
    case True
    then have nv: "pState nv = StateActive" "pPrimary nv = pSource v" "pNames nv = pNames v" "pLegClusters nv = pLegClusters v"
      using rel r by (auto simp: release_def Let_def split: if_splits)
    have "rRatio r = Fin 0" using True by (cases "rRatio r") auto
    then have "b = sideBucket v Source" using av acc True in_ramp_zero by (auto split: if_splits)
    then show ?thesis using acceptsWrite_settled [of nv] nv by (simp add: sideBucket_def roleBucket_def ClusterOf_def)
  next
    case False
    then have nv: "nv = v\<lparr>pBarrier := None, pRamp := Some (r\<lparr>rHold := None\<rparr>)\<rparr>"
      using rel r by (auto simp: release_def Let_def split: if_splits)
    have "acceptsWrite nv key = (if in_ramp (rRange r) (rRatio r) (rPrefixes r) key then Some (sideBucket nv Primary)
        else Some (sideBucket nv Source))"
      using acceptsWrite_ramping [of nv "r\<lparr>rHold := None\<rparr>" key] r v(1) v(2) [OF r(1)] by (simp add: nv in_hold_def)
    moreover have "sideBucket nv s = sideBucket v s" for s
      by (rule same_roles_bucket) (simp add: nv same_roles_def)
    ultimately show ?thesis using av acc by (auto split: if_splits)
  qed
qed

end
