(* ===== verification/Handover.thy ===== *)
theory Handover
  imports Fencing
begin

text \<open>
  The fence for every placement, plain or spread over legs: \<open>placeWrite\<close> is where a proxy that reads a
  placement accepts a write of a key, after \<^verbatim>\<open>Narrow\<close> has picked the part of a spread placement the key
  falls to. The lemmas follow \<^verbatim>\<open>Apply\<close> through its cases: the start of a move, a step of it, its release
  and its end, where the range changes owner and the placement may become plain again.
\<close>

subsection \<open>Where a placement accepts a write\<close>

definition placeWrite :: "placement \<Rightarrow> string \<Rightarrow> (string \<times> string) option" where
  "placeWrite p key =
     (if Spread p then (case Narrow p key of Inl _ \<Rightarrow> None | Inr v \<Rightarrow> acceptsWrite v key)
      else acceptsWrite p key)"

definition legBucket :: "placement \<Rightarrow> string \<Rightarrow> string \<times> string" where
  "legBucket p i = (lCluster (getLeg (legsOf p) i), lBucket (getLeg (legsOf p) i))"

abbreviation ownerFor :: "placement \<Rightarrow> string \<Rightarrow> string" where
  "ownerFor p key \<equiv> ownerAt p key (rampHash key)"

text \<open>What routing by owner needs of a placement.\<close>

definition routes :: "placement \<Rightarrow> bool" where
  "routes p \<longleftrightarrow> tables_ok p \<and> pKeyHash p = RampHash \<and> \<not> ownsKeys p ''''"

lemma OwnerOf_routes: "routes p \<Longrightarrow> OwnerOf p key = Inr (ownerFor p key)"
  using ownerAt_ownsKeys [of p key "rampHash key" "''''"] by (auto simp: routes_def OwnerOf_def ownerAt_def Let_def)

lemma placeWrite_rest:
  assumes "routes p" "Spread p" "\<not> InMove p key"
  shows "placeWrite p key = Some (legBucket p (ownerFor p key))"
  using assms OwnerOf_routes [OF assms(1)]
  by (auto simp: placeWrite_def Narrow_def onLeg_write legBucket_def routes_def split: option.splits)

lemma placeWrite_moving:
  assumes "routes p" "pMove p = Some m" "InMove p key"
  shows "placeWrite p key = acceptsWrite (MoveView p m) key"
  using assms by (simp add: placeWrite_def Spread_def Narrow_def routes_def)

lemma acceptsWrite_cong:
  assumes "pState q = pState p" "pSource q = pSource p" "pRamp q = pRamp p" "\<And>s. sideBucket q s = sideBucket p s"
  shows "acceptsWrite q key = acceptsWrite p key"
proof -
  have "Decide q ClassWrite key = Decide p ClassWrite key" by (simp only: Decide_def assms(1-3))
  then show ?thesis by (simp only: acceptsWrite_def assms(4))
qed

lemma MoveView_buckets:
  "mFrom m \<noteq> mTo m \<Longrightarrow> sideBucket (MoveView p m) s = legBucket p (case s of Primary \<Rightarrow> mTo m | Source \<Rightarrow> mFrom m)"
  by (cases s) (simp_all add: sideBucket_def roleBucket_def ClusterOf_def MoveView_def legBucket_def Let_def zeroPlacement_def)

text \<open>What a validated spread placement is, and a validated plain one, as far as routing and the lifecycle
  read them.\<close>

definition ramp_ok :: "ramp option \<Rightarrow> bool" where
  "ramp_ok ro \<longleftrightarrow> (\<forall>r. ro = Some r \<longrightarrow> rHash r = RampHash \<and> ratios_ok r)"

definition spread_ok :: "placement \<Rightarrow> bool" where
  "spread_ok p \<longleftrightarrow>
     Spread p \<and> checkV2 p = None \<and> checkSpread p = None \<and> pKeyHash p = RampHash \<and> pSource p = '''' \<and>
     pLegClusters p = fmempty \<and> (\<forall>m. pMove p = Some m \<longrightarrow> ramp_ok (mRamp m))"

definition plain_ok :: "placement \<Rightarrow> bool" where
  "plain_ok p \<longleftrightarrow>
     \<not> Spread p \<and> pPrimary p \<noteq> '''' \<and> pLegClusters p = fmempty \<and> ramp_ok (pRamp p) \<and>
     (pState p = StateActive \<longleftrightarrow> pSource p = '''') \<and>
     (\<forall>r. pRamp p = Some r \<longrightarrow> pState p = StateRamping \<and> rRange r = None)"

definition placement_ok :: "placement \<Rightarrow> bool" where
  "placement_ok p \<longleftrightarrow> (if Spread p then spread_ok p else plain_ok p)"

lemma known_ownsKeys:
  assumes "checkV2 p = None" "ownsKeys p i"
  shows "hasKey (legsOf p) i" "leg_ok p i"
proof -
  have "\<forall>r \<in> set (rulesOf p). known p (prOwners r)" "known p (ownersOf p)"
    using assms(1) by (auto simp: checkV2_None checkPrefixes_None rule_ok_def in_set_conv_nth)
  then show "hasKey (legsOf p) i" using assms(2) by (auto simp: ownsKeys_def known_def list_ex_iff simp del: hasKey_iff)
  then show "leg_ok p i" using assms(1) by (simp add: checkV2_None)
qed

lemma spread_ok_leg: "spread_ok p \<Longrightarrow> \<not> hasKey (legsOf p) ''''"
  unfolding spread_ok_def checkV2_None leg_ok_def by (metis legIDOK_nonempty)

lemma spread_ok_routes: "spread_ok p \<Longrightarrow> routes p"
  using known_ownsKeys(2) [of p "''''"] by (auto simp: spread_ok_def routes_def checkV2_tables leg_ok_def)

lemma spread_ok_move:
  assumes "spread_ok p" "pMove p = Some m"
  shows "mFrom m \<noteq> mTo m" "rgFrom (mRange m) \<le> rgTo (mRange m)" "hasKey (legsOf p) (mTo m)"
    "InMove p key \<Longrightarrow> ownerFor p key = mFrom m"
proof -
  have m: "move_ok p m" using assms by (simp add: spread_ok_def checkV2_None)
  then show "mFrom m \<noteq> mTo m" "rgFrom (mRange m) \<le> rgTo (mRange m)" "hasKey (legsOf p) (mTo m)" by (simp_all add: move_ok_def)
  obtain ow where "ow \<in> set (goSlice (scopeTable p (mScope m)))" "oLeg ow = mFrom m"
      "oFrom ow \<le> rgFrom (mRange m)" "rgTo (mRange m) \<le> oTo ow"
    using checkSpread_move(2) [of p m] assms by (auto simp: spread_ok_def)
  with InMove_owner [OF _ assms(2)] spread_ok_routes [OF assms(1)]
  show "InMove p key \<Longrightarrow> ownerFor p key = mFrom m" by (auto simp: routes_def)
qed

subsection \<open>Settling\<close>

lemma settleLeg_fold:
  "hasKey (namesOf v) c \<Longrightarrow>
   (let q = foldl (settleLeg p) v is in
    pPrimary q = pPrimary v \<and> pSource q = pSource v \<and> pLegClusters q = pLegClusters v \<and> pOwners q = pOwners v \<and>
    pMove q = pMove v \<and> pPrefixes q = pPrefixes v \<and> getStr (namesOf q) c = getStr (namesOf v) c)"
proof (induction "is" arbitrary: v)
  case (Cons i "is")
  have "hasKey (namesOf (settleLeg p v i)) c" "getStr (namesOf (settleLeg p v i)) c = getStr (namesOf v) c"
    "pPrimary (settleLeg p v i) = pPrimary v" "pSource (settleLeg p v i) = pSource v" "pLegClusters (settleLeg p v i) = pLegClusters v"
    "pOwners (settleLeg p v i) = pOwners v" "pMove (settleLeg p v i) = pMove v" "pPrefixes (settleLeg p v i) = pPrefixes v"
    using Cons.prems by (auto simp: settleLeg_def Let_def)
  with Cons.IH [of "settleLeg p v i"] show ?case by (simp del: hasKey_iff)
qed simp

text \<open>Settling an idle placement changes no bucket: each key stays where its owner is.\<close>

lemma placeWrite_settle:
  assumes r: "routes p" and m: "pMove p = None" and s: "pSource p = ''''" "pLegClusters p = fmempty"
  shows "placeWrite (settle p) key = Some (legBucket p (ownerFor p key))"
proof (cases "length (ownersOf p) = 1 \<and> rulesOf p = []")
  case True
  then obtain ow where ow: "ownersOf p = [ow]" by (auto simp: length_Suc_conv)
  let ?l = "getLeg (legsOf p) (oLeg ow)"
  let ?v = "p\<lparr>pLegs := None, pOwners := None, pKeyHash := '''', pPrimary := lCluster ?l,
      pNames := Some (fmupd (lCluster ?l) (lBucket ?l) fmempty)\<rparr>"
  have q: "settle p = foldl (settleLeg p) ?v (sortedKeys (legsOf p))" using ow True m by (simp add: settle_def Let_def)
  have f: "pPrimary (settle p) = lCluster ?l" "pSource (settle p) = ''''" "pLegClusters (settle p) = fmempty"
      "pOwners (settle p) = None" "pMove (settle p) = None" "pPrefixes (settle p) = pPrefixes p"
      "getStr (namesOf (settle p)) (lCluster ?l) = lBucket ?l"
    using settleLeg_fold [of ?v "lCluster ?l" p "sortedKeys (legsOf p)"] m s by (simp_all add: q Let_def)
  have "ownerFor p key = oLeg ow"
    using Scope_own [of p key] True ow partition_owner [of "[ow]" ow] r ownerAt_range [of p key "rampHash key"]
    by (auto simp: ownerAt_def routes_def tables_ok_def)
  moreover have "placeWrite (settle p) key = Some (sideBucket (settle p) Primary)"
    using f True acceptsWrite_settled [of "settle p"] by (simp add: placeWrite_def Spread_def)
  ultimately show ?thesis using f by (simp add: sideBucket_def roleBucket_def ClusterOf_def legBucket_def)
next
  case False
  have "ownersOf p \<noteq> []" using r by (auto simp: routes_def tables_ok_def partition_table_def hash_space_def)
  then have "Spread p" using False by (cases "ownersOf p") (auto simp: Spread_def)
  moreover have "settle p = p"
    using False m by (cases "ownersOf p" rule: remdups_adj.cases) (auto simp: settle_def)
  ultimately show ?thesis using placeWrite_rest [OF r, of key] m by (simp add: InMove_def)
qed

subsection \<open>Giving a range of a scope to another leg\<close>

lemma Scope_setScopeTable:
  assumes "rules_ok (rulesOf p)"
  shows "Scope (setScopeTable p s os) key = (if fst (Scope p key) = s then (s, os) else Scope p key)"
    and "rules_ok (rulesOf (setScopeTable p s os))"
proof -
  let ?q = "setScopeTable p s os" and ?f = "\<lambda>r. if prPrefix r = s then r\<lparr>prOwners := os\<rparr> else r"
  have rules: "rulesOf ?q = (if s = '''' then rulesOf p else map ?f (rulesOf p))"
    by (cases "pPrefixes p") (simp_all add: setScopeTable_def)
  have [simp]: "prPrefix (?f r) = prPrefix r" for r by simp
  show ok: "rules_ok (rulesOf ?q)" using assms by (auto simp: rules rules_ok_def comp_def)
  have ne: "prPrefix r \<noteq> ''''" if "r \<in> set (rulesOf p)" for r using that assms by (force simp: rules_ok_def)
  show "Scope ?q key = (if fst (Scope p key) = s then (s, os) else Scope p key)"
  proof (cases rule: Scope_cases [of key p])
    case (rule r)
    have "longest (\<lambda>r. prefix (prPrefix r) key) (rulesOf ?q) (if s = '''' then r else ?f r)"
      using rule(1) by (auto simp: rules longest_def)
    from Scope_rule [OF ok this] rule show ?thesis using ne by (auto simp: longest_def)
  next
    case own
    then have "Scope ?q key = ('''', ownersOf ?q)" by (intro Scope_own) (auto simp: rules)
    with own show ?thesis by (auto simp: setScopeTable_def)
  qed
qed

lemma setScopeTable_tables:
  assumes "tables_ok p" "partition_table os"
  shows "tables_ok (setScopeTable p s os)"
    "ownerAt (setScopeTable p s os) key h = (if fst (Scope p key) = s then OwnerIn os h else ownerAt p key h)"
proof -
  have rules: "rulesOf (setScopeTable p s os) =
      (if s = '''' then rulesOf p else map (\<lambda>r. if prPrefix r = s then r\<lparr>prOwners := os\<rparr> else r) (rulesOf p))"
    by (cases "pPrefixes p") (simp_all add: setScopeTable_def)
  show "tables_ok (setScopeTable p s os)"
    using assms Scope_setScopeTable(2) [of p s os] by (auto simp: tables_ok_def rules) (auto simp: setScopeTable_def)
  show "ownerAt (setScopeTable p s os) key h = (if fst (Scope p key) = s then OwnerIn os h else ownerAt p key h)"
    using assms(1) by (simp add: ownerAt_def tables_ok_def Scope_setScopeTable(1))
qed

subsection \<open>The end of a move\<close>

lemma tables_cong:
  assumes "pOwners q = pOwners p" "pPrefixes q = pPrefixes p"
  shows "Scope q = Scope p" "tables_ok q = tables_ok p" "ownerAt q = ownerAt p" "ownsKeys q = ownsKeys p"
proof -
  show s: "Scope q = Scope p" by (rule ext) (simp only: Scope_def assms)
  show "tables_ok q = tables_ok p" "ownerAt q = ownerAt p" "ownsKeys q = ownsKeys p"
    by (simp_all add: fun_eq_iff tables_ok_def ownerAt_def ownsKeys_def s assms)
qed

text \<open>A leg is written in some table exactly when some key is its own.\<close>

lemma Scope_of_rule: "rules_ok (rulesOf p) \<Longrightarrow> r \<in> set (rulesOf p) \<Longrightarrow> Scope p (prPrefix r) = (prPrefix r, prOwners r)"
  by (rule Scope_rule) (auto simp: longest_def intro: prefix_length_le)

lemma Scope_empty: "rules_ok (rulesOf p) \<Longrightarrow> Scope p '''' = ('''', ownersOf p)"
  by (rule Scope_own) (force simp: rules_ok_def)

lemma ownsKeys_iff:
  assumes "tables_ok p"
  shows "ownsKeys p i \<longleftrightarrow> (\<exists>key h. ownerAt p key h = i)"
proof
  have t: "OwnerIn os (oFrom ow) = oLeg ow" if "partition_table os" "ow \<in> set os" for os ow
    using partition_owner [OF that] that tile_from_to [of 0 os hash_space ow] by (simp add: partition_table_def)
  assume "ownsKeys p i"
  then consider ow where "ow \<in> set (ownersOf p)" "oLeg ow = i"
    | r ow where "r \<in> set (rulesOf p)" "ow \<in> set (prOwners r)" "oLeg ow = i"
    by (auto simp: ownsKeys_def list_ex_iff)
  then show "\<exists>key h. ownerAt p key h = i"
  proof cases
    case 1
    then have "ownerAt p '''' (oFrom ow) = i" using assms t by (simp add: ownerAt_def Scope_empty tables_ok_def)
    then show ?thesis by blast
  next
    case 2
    then have "ownerAt p (prPrefix r) (oFrom ow) = i" using assms t by (simp add: ownerAt_def Scope_of_rule tables_ok_def)
    then show ?thesis by blast
  qed
qed (use assms ownerAt_ownsKeys in blast)

lemma legBucket_fmdrop: "i \<noteq> j \<Longrightarrow> legBucket (p\<lparr>pLegs := map_option (fmdrop j) (pLegs p)\<rparr>) i = legBucket p i"
  by (cases "pLegs p") (simp_all add: legBucket_def getLeg_def)

text \<open>When a move ends, the keys it moved are its target's and every other key's owner is unchanged.\<close>

lemma moveDone_finish:
  assumes p: "spread_ok p" "pMove p = Some m" and nv: "pState nv = StateActive" "\<not> tRelease t"
  shows "placeWrite (moveDone p m t nv) key = Some (legBucket p (if InMove p key then mTo m else ownerFor p key))"
proof -
  note r = spread_ok_routes [OF p(1)] and mv = spread_ok_move [OF p]
  define os where "os = reassign (goSlice (scopeTable p (mScope m))) (mRange m) (mTo m)"
  define q where "q = setScopeTable (p\<lparr>pBarrier := pBarrier nv, pState := StateActive, pMove := None\<rparr>) (mScope m) os"
  define q' where "q' = (if \<not> ownsKeys q (mFrom m) then q\<lparr>pLegs := map_option (fmdrop (mFrom m)) (pLegs q)\<rparr> else q)"
  have done_eq: "moveDone p m t nv = settle q'" using nv by (simp add: moveDone_def q_def q'_def os_def Let_def)
  obtain tbl where tbl: "scopeTable p (mScope m) = Some tbl" "partition_table tbl"
    using p r by (auto simp: spread_ok_def checkSpread_def checkMove_def routes_def tables_ok_def scopeTable_def
        find_Some_iff split: option.splits if_splits)
  have os: "partition_table os" "OwnerIn os h = (if inRg (mRange m) h then mTo m else OwnerIn tbl h)" for h
    using reassign_partition [OF mv(2) tbl(2)] tbl(1) by (simp_all add: os_def)
  let ?p = "p\<lparr>pBarrier := pBarrier nv, pState := StateActive, pMove := None\<rparr>"
  have "tables_ok ?p" "ownerAt ?p = ownerAt p" "Scope ?p = Scope p"
    using tables_cong [of ?p p] r by (simp_all add: routes_def)
  then have tq: "tables_ok q" and oq: "ownerAt q k h = (if fst (Scope p k) = mScope m then OwnerIn os h else ownerAt p k h)" for k h
    using setScopeTable_tables [of ?p os "mScope m"] os(1) by (simp_all add: q_def)
  have own: "ownerAt q k h = (if fst (Scope p k) = mScope m \<and> inRg (mRange m) h then mTo m else ownerAt p k h)" for k h
  proof -
    have "fst (Scope p k) = mScope m \<Longrightarrow> OwnerIn tbl h = ownerAt p k h"
      using scopeTable_Scope [of p k] tbl(1) r by (simp add: ownerAt_def routes_def tables_ok_def)
    then show ?thesis by (simp add: oq os(2))
  qed
  have in_move: "InMove p key \<longleftrightarrow> fst (Scope p key) = mScope m \<and> inRg (mRange m) (rampHash key)"
    using p(2) by (auto simp: InMove_def InRangeHash_def inRg_def Let_def)
  have sel: "pKeyHash q = RampHash" "pMove q = None" "pSource q = ''''" "pLegClusters q = fmempty" "pLegs q = pLegs p"
    using p by (simp_all add: q_def setScopeTable_def spread_ok_def)
  have "hasKey (legsOf p) i" if "ownsKeys q i" for i
    using that ownsKeys_iff [OF tq] own mv(3) checkV2_owner(1) [of p] p(1) by (auto simp: spread_ok_def simp del: hasKey_iff split: if_splits)
  then have "\<not> ownsKeys q ''''" using spread_ok_leg [OF p(1)] by blast
  then have "routes q'" using tq sel tables_cong [of "q\<lparr>pLegs := map_option (fmdrop (mFrom m)) (pLegs q)\<rparr>" q]
    by (simp add: routes_def q'_def)
  then have "placeWrite (settle q') key = Some (legBucket q' (ownerFor q key))"
    using placeWrite_settle [of q' key] sel tables_cong(3) [of q' q] by (simp add: q'_def)
  moreover have "legBucket q' (ownerFor q key) = legBucket p (ownerFor q key)"
  proof (cases "ownsKeys q (mFrom m)")
    case False
    then have "ownerFor q key \<noteq> mFrom m" using ownerAt_ownsKeys [OF tq] by blast
    then show ?thesis using False legBucket_fmdrop [of _ _ q] sel(5) by (simp add: q'_def) (simp add: legBucket_def)
  qed (use sel(5) in \<open>simp add: q'_def legBucket_def\<close>)
  ultimately show ?thesis by (simp add: done_eq own in_move)
qed

subsection \<open>The steps of a move\<close>

text \<open>A step that leaves the move open: its keys follow the view the step gives, every other key stays.\<close>

lemma moveDone_step:
  assumes p: "spread_ok p" "pMove p = Some m" and nv: "pState nv \<noteq> StateActive" "same_roles (MoveView p m) nv"
  shows "placeWrite (moveDone p m t nv) key =
    (if InMove p key then acceptsWrite (limitTo (Some (mRange m)) nv) key else Some (legBucket p (ownerFor p key)))"
proof -
  define m' where "m' = m\<lparr>mRamp := limitRamp (mRange m) (pRamp nv), mCutover := pCutover nv\<rparr>"
  define q where "q = p\<lparr>pBarrier := pBarrier nv, pState := pState nv, pMove := Some m'\<rparr>"
  have q: "moveDone p m t nv = q" using nv(1) by (simp add: moveDone_def q_def m'_def Let_def)
  have t: "Scope q = Scope p" "tables_ok q = tables_ok p" "ownerAt q = ownerAt p" "ownsKeys q = ownsKeys p"
    using tables_cong [of q p] by (simp_all add: q_def)
  have r: "routes q" using spread_ok_routes [OF p(1)] t by (simp add: routes_def q_def)
  have i: "InMove q key = InMove p key" using p(2) t(1) by (simp add: InMove_def q_def m'_def)
  have b: "legBucket q = legBucket p" by (simp add: legBucket_def fun_eq_iff q_def)
  have mm: "pMove q = Some m'" "mFrom m' = mFrom m" "mTo m' = mTo m" "mRange m' = mRange m" "mFrom m' \<noteq> mTo m'"
    using spread_ok_move(1) [OF p] by (simp_all add: q_def m'_def)
  have "acceptsWrite (MoveView q m') key = acceptsWrite (limitTo (Some (mRange m)) nv) key"
  proof (rule acceptsWrite_cong)
    show "sideBucket (MoveView q m') s = sideBucket (limitTo (Some (mRange m)) nv) s" for s
      using MoveView_buckets [OF mm(5), of q s] MoveView_buckets [of m p s] mm same_roles_bucket [OF nv(2), of s]
      by (cases s) (simp_all add: b)
    show "pSource (MoveView q m') = pSource (limitTo (Some (mRange m)) nv)" "pState (MoveView q m') = pState (limitTo (Some (mRange m)) nv)"
      using nv(2) mm by (simp_all add: same_roles_def) (simp add: q_def)
    show "pRamp (MoveView q m') = pRamp (limitTo (Some (mRange m)) nv)"
      by (cases "pRamp nv") (simp_all add: m'_def limitRamp_def)
  qed
  then show ?thesis
    using placeWrite_moving [OF r mm(1), of key] placeWrite_rest [OF r, of key] i b t(3) mm(1) by (simp add: q Spread_def)
qed

lemma moveDone_release:
  assumes p: "spread_ok p" "pMove p = Some m" and nv: "pState nv = StateActive" "tRelease t"
  shows "placeWrite (moveDone p m t nv) key = Some (legBucket p (ownerFor p key))"
proof -
  define q where "q = p\<lparr>pBarrier := pBarrier nv, pState := StateActive, pMove := None\<rparr>"
  have q: "moveDone p m t nv = settle q" using nv by (simp add: moveDone_def q_def Let_def)
  have t: "tables_ok q = tables_ok p" "ownerAt q = ownerAt p" "ownsKeys q = ownsKeys p"
    using tables_cong [of q p] by (simp_all add: q_def)
  have "routes q" using spread_ok_routes [OF p(1)] t by (simp add: routes_def q_def)
  then show ?thesis
    using placeWrite_settle [of q key] p(1) t(2) by (simp add: q q_def spread_ok_def legBucket_def)
qed

lemma placeWrite_spread:
  assumes "spread_ok p" "pMove p = Some m"
  shows "placeWrite p key = (if InMove p key then acceptsWrite (MoveView p m) key else Some (legBucket p (ownerFor p key)))"
  using placeWrite_moving [OF spread_ok_routes [OF assms(1)] assms(2)] placeWrite_rest [OF spread_ok_routes [OF assms(1)]] assms
  by (simp add: spread_ok_def)

lemma placeWrite_plain: "plain_ok p \<Longrightarrow> placeWrite p key = acceptsWrite p key"
  by (simp add: plain_ok_def Spread_def placeWrite_def Spread_def)

subsection \<open>A held step\<close>

lemma applyPlain_tables:
  assumes "applyPlain p t = Inr np"
  shows "pOwners np = pOwners p" "pPrefixes np = pPrefixes p" "pMove np = pMove p" "pLegs np = pLegs p"
proof -
  obtain t' np' where a: "applyStep p t' = Inr np'" "np = applyFinish p t' np'" using assms by (rule applyPlain_Inr)
  have "pOwners np' = pOwners p \<and> pPrefixes np' = pPrefixes p \<and> pMove np' = pMove p \<and> pLegs np' = pLegs p"
    using a(1) unfolding applyStep_def leaveActive_def Let_def by (auto split: if_split_asm sum.split_asm)
  then show "pOwners np = pOwners p" "pPrefixes np = pPrefixes p" "pMove np = pMove p" "pLegs np = pLegs p"
    by (simp_all add: a(2) applyFinish_def Let_def)
qed

lemma placeWrite_applyPlain:
  assumes "plain_ok p" "applyPlain p t = Inr np"
  shows "placeWrite np key = acceptsWrite np key"
  using assms(1) applyPlain_tables [OF assms(2)] by (simp add: placeWrite_def Spread_def plain_ok_def Spread_def)

lemma applyPlain_hold_from:
  assumes "applyPlain v t = Inr nv" "tHold t"
  shows "pState v = StateActive \<or> pState v = StateRamping"
proof -
  obtain t' where "applyGuards v t = Inr t'" using assms(1) by (rule applyPlain_Inr)
  from applyGuards_Inr(2,3) [OF this] assms(2) show ?thesis by (auto elim!: legal_cases)
qed

lemma hold_move:
  assumes p: "spread_ok p" "pMove p = Some m" and step: "applyPlain (MoveView p m) t = Inr nv" "tHold t" "\<not> tRelease t"
    and acc: "placeWrite (moveDone p m t nv) key = Some b"
  shows "placeWrite p key = Some b"
proof -
  have "pState p \<noteq> StateActive" "pState p = StateRamping \<longleftrightarrow> mRamp m \<noteq> None"
    using checkSpread_move(1,3) [of p m] p by (auto simp: spread_ok_def)
  moreover have "pState p = StateActive \<or> pState p = StateRamping" "pState nv = StateRamping"
    using applyPlain_state(2) [OF step(1)] applyPlain_hold_from [OF step(1,2)] step(2) by simp_all
  ultimately obtain r where st: "pState p = StateRamping" "pState nv = StateRamping" "mRamp m = Some r" by auto
  have src: "mFrom m \<noteq> ''''" using p spread_ok_leg [OF p(1)] by (auto simp: spread_ok_def checkV2_None move_ok_def simp del: hasKey_iff)
  from step(1,2) have "same_roles (MoveView p m) nv" "limitTo (Some (mRange m)) nv = nv"
    by (rule applyPlain_hold; use st in \<open>simp add: limitTo_def limitRamp_def\<close>)+
  note step_eq = moveDone_step [OF p _ this(1), of t key] this(2)
  show ?thesis
  proof (cases "InMove p key")
    case True
    then have "acceptsWrite nv key = Some b" using acc step_eq st(2) by simp
    then have "acceptsWrite (MoveView p m) key = Some b"
      by (rule applyPlain_hold_writes [OF step(1,2), rotated -1])
         (use st src p in \<open>auto simp: limitRamp_def spread_ok_def ramp_ok_def\<close>)
    then show ?thesis using placeWrite_spread [OF p] True by simp
  qed (use acc step_eq st(2) placeWrite_spread [OF p] in simp)
qed

subsection \<open>The start of a move\<close>

lemma foldl_last:
  "foldl (\<lambda>s x. if P x then f x else s) s xs = s \<or> (\<exists>x \<in> set xs. P x \<and> foldl (\<lambda>s x. if P x then f x else s) s xs = f x)"
proof (induction xs arbitrary: s)
  case (Cons x xs)
  then show ?case by (cases "P x") fastforce+
qed simp

lemma startSource_owner:
  assumes "startSource table rg = src" "src \<noteq> ''''"
  shows "\<exists>ow \<in> set table. oLeg ow = src \<and> oFrom ow \<le> rgFrom rg \<and> rgTo rg \<le> oTo ow"
  using foldl_last [of "\<lambda>ow. oFrom ow \<le> rgFrom rg \<and> rgTo rg \<le> oTo ow" oLeg "''''" table] assms
  by (auto simp: startSource_def)

text \<open>Writing a plain placement as one leg that owns every hash changes no bucket.\<close>

lemma plain_as_leg:
  assumes p: "plain_ok p" "pState p = StateActive"
    and np: "legsOf np = fmupd (pPrimary p) \<lparr>lCluster = pPrimary p, lBucket = getStr (namesOf p) (pPrimary p)\<rparr> fmempty"
      "pOwners np = Some [\<lparr>oFrom = rgFrom FullRange, oTo = rgTo FullRange, oLeg = pPrimary p\<rparr>]"
      "pKeyHash np = RampHash" "pPrefixes np = pPrefixes p"
  shows "routes np" "ownsKeys np i \<Longrightarrow> hasKey (legsOf np) i" "placeWrite p key = Some (legBucket np (ownerFor np key))"
proof -
  have rl: "rulesOf np = []" using p np(4) by (simp add: plain_ok_def Spread_def)
  have o: "ownerFor np key = pPrimary p"
    using Scope_own [of np key] rl np(2) partition_owner [OF full_partition [of "pPrimary p"], where h = "rampHash key"]
    by (simp add: ownerAt_def FullRange_def)
  show "routes np" using np rl full_partition p by (simp add: routes_def tables_ok_def rules_ok_def ownsKeys_def plain_ok_def)
  show "hasKey (legsOf np) i" if "ownsKeys np i" using that np rl by (simp add: ownsKeys_def)
  have "placeWrite p key = Some (sideBucket p Primary)"
    using placeWrite_plain [OF p(1)] acceptsWrite_settled [of p] p(2) by simp
  then show "placeWrite p key = Some (legBucket np (ownerFor np key))"
    using p np(1) by (simp add: o sideBucket_def roleBucket_def ClusterOf_def legBucket_def getLeg_def plain_ok_def)
qed

lemma startLegs_writes:
  assumes ok: "placement_ok p" and p: "pMove p = None" "pState p = StateActive" and np: "startLegs p t = Inr (np, t')"
  shows "routes np" "pMove np = None" "\<And>i. ownsKeys np i \<Longrightarrow> hasKey (legsOf np) i"
    "placeWrite p key = Some (legBucket np (ownerFor np key))"
proof -
  have "routes np \<and> pMove np = None \<and> (\<forall>i. ownsKeys np i \<longrightarrow> hasKey (legsOf np) i) \<and>
    placeWrite p key = Some (legBucket np (ownerFor np key))"
  proof (cases "Spread p")
    case True
    then have "np = p" and s: "spread_ok p" using np ok by (simp_all add: startLegs_def placement_ok_def)
    then show ?thesis
      using spread_ok_routes [OF s] placeWrite_rest [of p key] known_ownsKeys(1) [of p] p(1) s
      by (simp add: InMove_def spread_ok_def del: hasKey_iff)
  next
    case False
    then have pl: "plain_ok p" using ok by (simp add: placement_ok_def)
    have f: "legsOf np = fmupd (pPrimary p) \<lparr>lCluster = pPrimary p, lBucket = getStr (namesOf p) (pPrimary p)\<rparr> fmempty"
        "pOwners np = Some [\<lparr>oFrom = rgFrom FullRange, oTo = rgTo FullRange, oLeg = pPrimary p\<rparr>]"
        "pKeyHash np = RampHash" "pPrefixes np = pPrefixes p" "pMove np = None"
      using np False p(1) by (auto simp: startLegs_def Let_def split: if_split_asm)
    show ?thesis using plain_as_leg [OF pl p(2) f(1-4)] f(5) by blast
  qed
  then show "routes np" "pMove np = None" "\<And>i. ownsKeys np i \<Longrightarrow> hasKey (legsOf np) i"
    "placeWrite p key = Some (legBucket np (ownerFor np key))" by blast+
qed

lemma if_Inl_Inr: "(if c then Inl e else x) = Inr y \<longleftrightarrow> \<not> c \<and> x = Inr y"
  by simp

lemma destLeg_cases:
  assumes "destLeg p t np0 src = Inr (dst, np)"
  obtains "np = np0" "dst \<noteq> src"
  | ls l where "newLegID (legsOf np0) (tTarget t) = Some dst" "pLegs np0 = Some ls" "np = np0\<lparr>pLegs := Some (fmupd dst l ls)\<rparr>"
proof -
  obtain d n where dn: "startDest (legsOf np0) t = (d, n)" by fastforce
  note eq = assms [unfolded destLeg_def dn Let_def prod.case if_Inl_Inr]
  show thesis
  proof (cases "d = ''''")
    case False
    note e = eq [THEN conjunct2, THEN conjunct2, THEN conjunct2, unfolded if_not_P [OF False] sum.inject prod.inject]
    show thesis
      by (rule that(1) [OF e [THEN conjunct2, symmetric] eq [THEN conjunct2, THEN conjunct1, unfolded e [THEN conjunct1]]])
  next
    case True
    note e = eq [THEN conjunct2, THEN conjunct2, THEN conjunct2, unfolded if_P [OF True]]
    obtain i where i: "newLegID (legsOf np0) (tTarget t) = Some i"
      using e by (cases "newLegID (legsOf np0) (tTarget t)") simp_all
    note e = e [unfolded i option.case]
    have "pLegs np0 \<noteq> None"
    proof
      assume none: "pLegs np0 = None"
      show False using e [unfolded none option.case] by (simp only: sum.distinct)
    qed
    then obtain ls where ls: "pLegs np0 = Some ls" by blast
    note e = e [unfolded ls option.case sum.inject prod.inject]
    note d = e [THEN conjunct1]
    show thesis by (rule that(2) [OF i [unfolded d] ls e [THEN conjunct2, symmetric, unfolded d]])
  qed
qed

lemma destLeg_Inr:
  assumes "destLeg p t np0 src = Inr (dst, np)" "hasKey (legsOf np0) src"
  shows "dst \<noteq> src \<and> pOwners np = pOwners np0 \<and> pPrefixes np = pPrefixes np0 \<and> pKeyHash np = pKeyHash np0 \<and>
    (\<forall>i. hasKey (legsOf np0) i \<longrightarrow> legBucket np i = legBucket np0 i)"
  using assms(1)
proof (cases rule: destLeg_cases)
  case (2 ls l)
  then have "\<not> hasKey (legsOf np0) dst" using newLegID_Some by blast
  then show ?thesis using 2(2,3) assms(2) by (auto simp: legBucket_def getLeg_def)
qed simp

lemma scopeTable_ownsKeys:
  assumes "ow \<in> set (goSlice (scopeTable p s))"
  shows "ownsKeys p (oLeg ow)"
proof (cases "s = ''''")
  case True
  then show ?thesis using assms by (auto simp: scopeTable_def ownsKeys_def list_ex_iff)
next
  case False
  then obtain r where r: "find (\<lambda>r. prPrefix r = s) (rulesOf p) = Some r"
    using assms by (cases "find (\<lambda>r. prPrefix r = s) (rulesOf p)") (simp_all add: scopeTable_def)
  then have "r \<in> set (rulesOf p)" by (auto simp: find_Some_iff)
  moreover have "ow \<in> set (prOwners r)" using assms False r by (simp add: scopeTable_def)
  ultimately show ?thesis by (auto simp: ownsKeys_def list_ex_iff)
qed

lemma startDone_writes:
  assumes ok: "placement_ok p" and p: "pMove p = None" and prep: "startPrep p t = Inr (np, rg, src, dst, t')"
    and q_def: "q = startDone np rg src dst t' nv"
  shows "routes q" "dst \<noteq> src" "legBucket q src = legBucket np src" "src \<noteq> ''''"
    "\<not> InMove q key \<Longrightarrow> placeWrite q key = placeWrite p key"
    "InMove q key \<Longrightarrow> placeWrite p key = Some (legBucket q src)"
proof -
  from prep obtain np0 t0 rg0 leg where s: "startChecks p t = None" "startLegs p t = Inr (np0, t0)"
      "src = startSource (goSlice (scopeTable np0 (tScope t0))) rg" "src \<noteq> ''''"
      "destLeg p t0 np0 src = Inr (dst, np)" "t' = t0\<lparr>tShare := Fin 0\<rparr>"
    by (rule startPrep_Inr)
  have "pState p = StateActive" using s(1) by (simp add: startChecks_def)
  note w = startLegs_writes [OF ok p this s(2)]
  obtain ow where ow: "ow \<in> set (goSlice (scopeTable np0 (tScope t0)))" "oLeg ow = src" "oFrom ow \<le> rgFrom rg" "rgTo rg \<le> oTo ow"
    using startSource_owner [OF s(3) [symmetric] s(4)] by blast
  have "ownsKeys np0 src"
    using scopeTable_ownsKeys [OF ow(1)] ow(2) by simp
  then have k: "hasKey (legsOf np0) src" using w(3) by blast
  have d: "dst \<noteq> src" "pOwners np = pOwners np0" "pPrefixes np = pPrefixes np0" "pKeyHash np = pKeyHash np0"
    "\<And>i. hasKey (legsOf np0) i \<Longrightarrow> legBucket np i = legBucket np0 i"
    using destLeg_Inr [OF s(5) k] by blast+
  have f: "pMove q = Some \<lparr>mScope = tScope t', mRange = rg, mFrom = src, mTo = dst, mRamp = limitRamp rg (pRamp nv), mCutover = pCutover nv\<rparr>"
      "pOwners q = pOwners np0" "pPrefixes q = pPrefixes np0" "pKeyHash q = pKeyHash np0" "legBucket q = legBucket np"
    using d by (simp_all add: q_def startDone_def legBucket_def fun_eq_iff)
  note t = tables_cong [OF f(2,3)]
  show r: "routes q" using w(1) f t by (simp add: routes_def)
  show "dst \<noteq> src" "legBucket q src = legBucket np src" "src \<noteq> ''''" using d(1) f(5) s(4) by simp_all
  have b: "legBucket q (ownerFor q key) = legBucket np0 (ownerFor np0 key)"
    using d(5) w(1,3) ownerAt_ownsKeys [of np0 key] t(3) f(5) by (auto simp: routes_def)
  show "\<not> InMove q key \<Longrightarrow> placeWrite q key = placeWrite p key"
    using placeWrite_rest [OF r] f(1) b w(4) by (simp add: Spread_def)
  assume "InMove q key"
  moreover have "scopeTable q = scopeTable np0" by (rule ext) (simp only: scopeTable_def f(2,3))
  ultimately have "ownerFor q key = src"
    using InMove_owner [OF _ f(1), of key ow] r ow s(6) by (simp add: routes_def)
  then show "placeWrite p key = Some (legBucket q src)" using w(4) b by simp
qed

lemma hold_start:
  assumes ok: "placement_ok p" and p: "pMove p = None" and prep: "startPrep p t = Inr (np, rg, src, dst, t')"
    and step: "applyPlain (startView np src) (startStep np t' dst) = Inr nv" "tHold t'"
    and acc: "placeWrite (startDone np rg src dst t' nv) key = Some b"
  shows "placeWrite p key = Some b"
proof -
  define q where "q = startDone np rg src dst t' nv"
  note w = startDone_writes [OF ok p prep q_def]
  show ?thesis
  proof (cases "InMove q key")
    case True
    define m where "m = \<lparr>mScope = tScope t', mRange = rg, mFrom = src, mTo = dst, mRamp = limitRamp rg (pRamp nv), mCutover = pCutover nv\<rparr>"
    have m: "pMove q = Some m" by (simp add: q_def m_def startDone_def)
    have hold: "tHold (startStep np t' dst)" using step(2) by (simp add: startStep_def)
    from step(1) hold obtain h where nv: "pState nv = StateRamping" "pRamp nv = Some (zeroRamp\<lparr>rHash := RampHash, rHold := Some h\<rparr>)"
      by (rule applyPlain_hold) auto
    let ?r = "zeroRamp\<lparr>rHash := RampHash, rRange := Some rg, rHold := Some h\<rparr>"
    have v: "pState (MoveView q m) = StateRamping" "pSource (MoveView q m) \<noteq> ''''" "pRamp (MoveView q m) = Some ?r"
      using nv w(4) by (simp_all add: m_def limitRamp_def) (simp_all add: q_def startDone_def)
    have "placeWrite q key = (if in_hold ?r key then None else Some (sideBucket (MoveView q m) Source))"
      using placeWrite_moving [OF w(1) m True] acceptsWrite_ramping [OF v] in_ramp_zero by (simp add: zeroRamp_def)
    then have "b = legBucket q src"
      using acc MoveView_buckets [of m q Source] w(2) by (simp add: q_def [symmetric] m_def split: if_splits)
    then show ?thesis using w(6) True by simp
  qed (use w(5) acc in \<open>simp add: q_def\<close>)
qed

text \<open>Publishing a held step: a proxy on the new placement accepts a write only where one on the old
  placement does.\<close>

lemma Apply_hold:
  assumes ok: "placement_ok p" and step: "Apply p t = Inr np" "tHold t" "\<not> tRelease t" and acc: "placeWrite np key = Some b"
  shows "placeWrite p key = Some b"
  using step(1)
proof (cases rule: Apply_cases)
  case (release t')
  then show ?thesis using readTransition_same [OF release(1)] step(3) by (simp add: same_step_def)
next
  case (plain t')
  have h: "tHold t'" using readTransition_same [OF plain(1)] step(2) by (simp add: same_step_def)
  have pl: "plain_ok p" using ok plain(2) by (simp add: placement_ok_def moves_def)
  have "acceptsWrite np key = Some b" using acc placeWrite_applyPlain [OF pl plain(4)] by simp
  then have "acceptsWrite p key = Some b"
    by (rule applyPlain_hold_writes [OF plain(4) h, rotated -1]) (use pl in \<open>auto simp: plain_ok_def ramp_ok_def\<close>)
  then show ?thesis using placeWrite_plain [OF pl] by simp
next
  case (move t' m t'' nv)
  have same: "same_step t t''"
    using readTransition_same [OF move(1)] moveChecks_same [OF move(3)] by (rule same_step_trans)
  then have h: "tHold t''" "\<not> tRelease t''" using step by (simp_all add: same_step_def)
  have "spread_ok p" using ok move(2) by (simp add: placement_ok_def Spread_def)
  from hold_move [OF this move(2) _ h] move(4,5) h acc show ?thesis by simp
next
  case (start t' np' rg src dst t'' nv)
  have "same_step t t''"
    using readTransition_same [OF start(1)] startPrep_same [OF start(4)] same_step_trans by blast
  then have "tHold t''" using step(2) by (simp add: same_step_def)
  from hold_start [OF ok start(3,4,6) this] acc start(7) show ?thesis by simp
qed

subsection \<open>Completing a held step\<close>

lemma complete_move:
  assumes p: "spread_ok p" "pMove p = Some m" "pState p = StateRamping" "Held p"
    and step: "applyPlain (MoveView p m) t = Inr nv" "\<not> tHold t" "ratio_ok (tRatio t)" and acc: "placeWrite p key = Some b"
  shows "placeWrite (moveDone p m t nv) key = Some b"
proof -
  obtain r0 h where r0: "mRamp m = Some r0" "rHold r0 = Some h" using p(2,4) by (auto simp: Held_def split: option.splits)
  let ?r = "r0\<lparr>rRange := Some (mRange m)\<rparr>"
  have r: "pRamp (MoveView p m) = Some ?r" "rHash ?r = RampHash" "ratios_ok ?r" "rHold ?r = Some h"
    using r0 p(1,2) by (simp_all add: limitRamp_def spread_ok_def ramp_ok_def ratios_ok_def)
  have src: "pSource (MoveView p m) \<noteq> ''''"
    using p(1,2) spread_ok_leg [OF p(1)] by (auto simp: spread_ok_def checkV2_None move_ok_def simp del: hasKey_iff)
  have st: "pState nv \<noteq> StateActive" "same_roles (MoveView p m) nv"
    by (rule applyPlain_ramping [OF step(1,2)]; use p(3) in simp)+
  note eq = moveDone_step [OF p(1,2) st, of t key]
  show ?thesis
  proof (cases "InMove p key")
    case True
    then have k: "in_limits (rRange ?r) key" using p(2) by (auto simp: InMove_def InRangeHash_def in_limits_def Let_def)
    have "acceptsWrite (MoveView p m) key = Some b" using placeWrite_spread [OF p(1,2), of key] True acc by simp
    from applyPlain_complete_writes [OF step(1,2) _ src _ r step(3) k this] p(3) True show ?thesis by (simp add: eq)
  qed (use acc placeWrite_spread [OF p(1,2)] in \<open>simp add: eq\<close>)
qed

lemma complete_plain:
  assumes p: "plain_ok p" "pState p = StateRamping" "Held p"
    and step: "applyPlain p t = Inr np" "\<not> tHold t" "ratio_ok (tRatio t)" and acc: "acceptsWrite p key = Some b"
  shows "acceptsWrite np key = Some b"
proof -
  have m: "pMove p = None" and src: "pSource p \<noteq> ''''" using p(1,2) by (auto simp: plain_ok_def Spread_def)
  obtain r h where r: "pRamp p = Some r" "rHold r = Some h" using p(3) m by (auto simp: Held_def split: option.splits)
  have ok: "rHash r = RampHash" "ratios_ok r" "rRange r = None" using p(1) r(1) by (simp_all add: plain_ok_def ramp_ok_def)
  have lim: "acceptsWrite (limitTo None np) key = Some b"
    using applyPlain_complete_writes [OF step(1,2) p(2) src m r(1) ok(1,2) r(2) step(3) _ acc] ok(3) by (simp add: in_limits_def)
  from step(1,2) p(2) show ?thesis
  proof (cases rule: applyPlain_ramping)
    case (ramp r')
    have "rRange r' = None" using rampStep_Inr [OF ramp(5)] by metis
    then have "limitTo None np = np" using ramp(4) by (simp add: limitTo_def)
    then show ?thesis using lim by simp
  next
    case migrate
    then show ?thesis using lim acceptsWrite_settled [of np] acceptsWrite_settled [of "limitTo None np"] by simp
  qed
qed

text \<open>Completing a held step: what a proxy on the held placement accepts, one on the new placement accepts
  in the same bucket.\<close>

lemma Apply_complete:
  assumes ok: "placement_ok p" "pState p = StateRamping" "Held p"
    and step: "Apply p t = Inr np" "\<not> tHold t" "\<not> tRelease t" "ratio_ok (tRatio t)" and acc: "placeWrite p key = Some b"
  shows "placeWrite np key = Some b"
  using step(1)
proof (cases rule: Apply_cases)
  case (release t')
  then show ?thesis using readTransition_same [OF release(1)] step(3) by (simp add: same_step_def)
next
  case (plain t')
  have t': "\<not> tHold t'" "ratio_ok (tRatio t')" using readTransition_same [OF plain(1)] step by (simp_all add: same_step_def)
  have pl: "plain_ok p" using ok plain(2) by (simp add: placement_ok_def moves_def)
  from complete_plain [OF pl ok(2,3) plain(4) t'] acc show ?thesis
    by (simp add: placeWrite_plain [OF pl] placeWrite_applyPlain [OF pl plain(4)])
next
  case (move t' m t'' nv)
  have "same_step t t''"
    using readTransition_same [OF move(1)] moveChecks_same [OF move(3)] by (rule same_step_trans)
  then have t': "\<not> tHold t''" "\<not> tRelease t''" "ratio_ok (tRatio t'')" using step by (simp_all add: same_step_def)
  have "spread_ok p" using ok move(2) by (simp add: placement_ok_def Spread_def)
  from complete_move [OF this move(2) ok(2,3) _ t'(1,3) acc] move(4,5) t'(2) show ?thesis by simp
next
  case (start t' np' rg src dst t'' nv)
  from start(4) obtain "startChecks p t' = None" by (rule startPrep_Inr)
  then show ?thesis using ok(2) by (simp add: startChecks_def)
qed

subsection \<open>Releasing a held step\<close>

lemma release_shape:
  assumes "release v bid = Inr nv"
  shows "pMove nv = pMove v" "pOwners nv = pOwners v" "pPrefixes nv = pPrefixes v"
    "pState nv \<noteq> StateActive \<Longrightarrow> same_roles v nv \<and> map_option rRange (pRamp nv) = map_option rRange (pRamp v)"
  using assms by (auto simp: release_def same_roles_def Let_def split: option.splits if_splits)

lemma release_move:
  assumes p: "spread_ok p" "pMove p = Some m" and step: "release (MoveView p m) bid = Inr nv" "tRelease t"
    and acc: "placeWrite p key = Some b"
  shows "placeWrite (moveDone p m t nv) key = Some b"
proof -
  have src: "pSource (MoveView p m) \<noteq> ''''"
    using p spread_ok_leg [OF p(1)] by (auto simp: spread_ok_def checkV2_None move_ok_def simp del: hasKey_iff)
  have w: "acceptsWrite nv key = Some b" if "InMove p key"
    by (rule release_writes [OF step(1) src])
       (use p that acc placeWrite_spread [OF p, of key] in \<open>auto simp: limitRamp_def spread_ok_def ramp_ok_def\<close>)
  show ?thesis
  proof (cases "pState nv = StateActive")
    case True
    have "acceptsWrite nv key = Some (legBucket p (mFrom m))"
    proof -
      have "pPrimary nv = mFrom m" "pNames nv = pNames (MoveView p m)" "pLegClusters nv = pLegClusters (MoveView p m)"
        using step(1) True release_state(1) [OF step(1)] by (auto simp: release_def Let_def split: option.splits if_splits)
      then have "sideBucket nv Primary = sideBucket (MoveView p m) Source"
        by (simp add: sideBucket_def roleBucket_def ClusterOf_def)
      then show ?thesis using True acceptsWrite_settled [of nv] MoveView_buckets [OF spread_ok_move(1) [OF p], of p Source] by simp
    qed
    then show ?thesis
      using moveDone_release [where t = t, OF p True step(2)] w acc spread_ok_move(4) [OF p] placeWrite_spread [OF p, of key]
      by (cases "InMove p key") simp_all
  next
    case False
    note rs = release_shape(4) [OF step(1) False]
    then have "limitTo (Some (mRange m)) nv = nv"
      by (cases "pRamp nv"; cases "mRamp m") (auto simp: limitTo_def limitRamp_def)
    then show ?thesis
      using moveDone_step [OF p False conjunct1 [OF rs], of t key] w acc placeWrite_spread [OF p, of key]
      by (cases "InMove p key") simp_all
  qed
qed

lemma Apply_release:
  assumes ok: "placement_ok p" and step: "Apply p t = Inr np" "tRelease t" and acc: "placeWrite p key = Some b"
  shows "placeWrite np key = Some b"
  using step(1)
proof (cases rule: Apply_cases)
  case (release t')
  have pl: "plain_ok p" using ok release(2) by (simp add: placement_ok_def moves_def)
  have src: "pSource p \<noteq> ''''" using pl release_state(1) [OF release(4)] by (auto simp: plain_ok_def)
  have "acceptsWrite np key = Some b"
    by (rule release_writes [OF release(4) src]) (use pl acc in \<open>auto simp: plain_ok_def ramp_ok_def placeWrite_plain [OF pl]\<close>)
  moreover have "\<not> Spread np" using pl release_shape(1-3) [OF release(4)] by (simp add: Spread_def plain_ok_def Spread_def)
  ultimately show ?thesis by (simp add: placeWrite_def)
next
  case (plain t')
  then show ?thesis using readTransition_same [OF plain(1)] step(2) by (simp add: same_step_def)
next
  case (move t' m t'' nv)
  have "same_step t t''"
    using readTransition_same [OF move(1)] moveChecks_same [OF move(3)] by (rule same_step_trans)
  then have r: "tRelease t''" using step(2) by (simp add: same_step_def)
  have "spread_ok p" using ok move(2) by (simp add: placement_ok_def Spread_def)
  from release_move [OF this move(2) _ r acc] move(4,5) r show ?thesis by simp
next
  case (start t' np' rg src dst t'' nv)
  have "same_step t t''"
    using readTransition_same [OF start(1)] startPrep_same [OF start(4)] same_step_trans by blast
  then show ?thesis using step(2) start(5) by (simp add: same_step_def)
qed

subsection \<open>Cutting over and finishing\<close>

lemma applyPlain_settled:
  assumes "applyPlain v t = Inr nv" "pState v = StateMigrating \<or> pState v = StateCutover"
  shows "\<not> tHold t" "if pState v = StateMigrating then tTo t = StateCutover \<and> same_roles v nv else tTo t = StateActive"
    "sideBucket nv Primary = sideBucket v Primary" "pState nv = tTo t"
proof -
  obtain t' np where a: "applyGuards v t = Inr t'" "applyStep v t' = Inr np" "nv = applyFinish v t' np"
    using assms(1) by (rule applyPlain_Inr)
  show h: "\<not> tHold t" using applyPlain_hold_from [OF assms(1)] assms(2) by auto
  have to: "tTo t' = tTo t" "if pState v = StateMigrating then tTo t = StateCutover else tTo t = StateActive"
    using applyGuards_same [OF a(1)] applyGuards_Inr(2) [OF a(1)] assms(2) by (auto simp: same_step_def elim!: legal_cases)
  show "pState nv = tTo t" using applyPlain_state(2) [OF assms(1)] h by simp
  show "if pState v = StateMigrating then tTo t = StateCutover \<and> same_roles v nv else tTo t = StateActive"
    using to applyStep_roles [OF a(2)] by (simp add: a(3) same_roles_def applyFinish_fields)
  have np: "pPrimary np = pPrimary v" "pLegClusters np = pLegClusters v" "getStr (namesOf np) (pPrimary v) = getStr (namesOf v) (pPrimary v)"
    using a(2) to assms(2)
    by (cases "pNames v"; auto simp: applyStep_def getStr_fmdrop Let_def split: if_split_asm)+
  show "sideBucket nv Primary = sideBucket v Primary"
    using np by (simp add: a(3) sideBucket_def roleBucket_def ClusterOf_def applyFinish_fields)
qed

text \<open>Recording the cutover and finishing move no write.\<close>

lemma Apply_settled:
  assumes ok: "placement_ok p" and step: "Apply p t = Inr np" "\<not> tRelease t"
    and st: "pState p = StateMigrating \<or> pState p = StateCutover"
  shows "placeWrite np key = placeWrite p key"
  using step(1)
proof (cases rule: Apply_cases)
  case (release t')
  then show ?thesis using readTransition_same [OF release(1)] step(2) by (simp add: same_step_def)
next
  case (plain t')
  have pl: "plain_ok p" using ok plain(2) by (simp add: placement_ok_def moves_def)
  note a = applyPlain_settled [OF plain(4) st]
  have "pState np \<noteq> StateRamping" using a st by (auto split: if_splits)
  then show ?thesis
    using acceptsWrite_settled [of np key] acceptsWrite_settled [of p key] a(3) st
    by (auto simp: placeWrite_plain [OF pl] placeWrite_applyPlain [OF pl plain(4)])
next
  case (move t' m t'' nv)
  have "same_step t t''"
    using readTransition_same [OF move(1)] moveChecks_same [OF move(3)] by (rule same_step_trans)
  then have r: "\<not> tRelease t''" using step(2) by (simp add: same_step_def)
  with move(4) have a: "applyPlain (MoveView p m) t'' = Inr nv" by simp
  have sp: "spread_ok p" using ok move(2) by (simp add: placement_ok_def Spread_def)
  note w = applyPlain_settled [OF a, simplified, OF st]
  have before: "acceptsWrite (MoveView p m) key = Some (legBucket p (mTo m))"
    using acceptsWrite_settled [of "MoveView p m" key] st MoveView_buckets [OF spread_ok_move(1) [OF sp move(2)], of p Primary] by auto
  show ?thesis
  proof (cases "pState p = StateMigrating")
    case True
    then have nv: "pState nv \<noteq> StateActive" "pState nv \<noteq> StateRamping" "same_roles (MoveView p m) nv" using w by auto
    have "acceptsWrite (limitTo (Some (mRange m)) nv) key = acceptsWrite (MoveView p m) key"
      using acceptsWrite_settled [of "limitTo (Some (mRange m)) nv" key] acceptsWrite_settled [of "MoveView p m" key] nv st w(3) by auto
    then show ?thesis using moveDone_step [OF sp move(2) nv(1,3), of t'' key] placeWrite_spread [OF sp move(2), of key] by (simp add: move(5))
  next
    case False
    then have "pState nv = StateActive" using w by auto
    from moveDone_finish [where t = t'', OF sp move(2) this r, of key]
    show ?thesis using placeWrite_spread [OF sp move(2), of key] before by (simp add: move(5))
  qed
next
  case (start t' np' rg src dst t'' nv)
  from start(4) obtain "startChecks p t' = None" by (rule startPrep_Inr)
  then show ?thesis using st by (auto simp: startChecks_def)
qed

subsection \<open>The fence\<close>

text \<open>A published change is fenced when it is a held step, the completion or the release of one, or a step
  after the ramp.\<close>

definition fenced :: "placement \<Rightarrow> transition \<Rightarrow> bool" where
  "fenced p t \<longleftrightarrow> tHold t \<or> tRelease t \<or> Held p \<and> pState p = StateRamping \<or> pState p = StateMigrating \<or> pState p = StateCutover"

lemma Apply_fenced:
  assumes "placement_ok p" "ratio_ok (tRatio t)" "fenced p t" "Apply p t = Inr np"
    and "placeWrite p key = Some b" "placeWrite np key = Some b'"
  shows "b' = b"
proof -
  consider "tRelease t" | "tHold t" "\<not> tRelease t" | "Held p" "pState p = StateRamping" "\<not> tHold t" "\<not> tRelease t"
    | "pState p = StateMigrating \<or> pState p = StateCutover" "\<not> tRelease t"
    using assms(3) by (auto simp: fenced_def)
  then show ?thesis
  proof cases
    case 1 then show ?thesis using Apply_release [OF assms(1,4)] assms(5,6) by simp
  next
    case 2 then show ?thesis using Apply_hold [OF assms(1,4)] assms(5,6) by simp
  next
    case 3 then show ?thesis using Apply_complete [OF assms(1) _ _ assms(4)] assms(2,5,6) by simp
  next
    case 4 then show ?thesis using Apply_settled [OF assms(1,4)] assms(5,6) by simp
  qed
qed

text \<open>A move touches its own keys only: no step of it changes where any other key is written.\<close>

lemma view_same_roles:
  assumes "applyPlain v t = Inr nv" "pState v \<noteq> StateActive" "pState nv \<noteq> StateActive"
  shows "same_roles v nv"
proof -
  obtain t' np where a: "applyGuards v t = Inr t'" "applyStep v t' = Inr np" "nv = applyFinish v t' np"
    using assms(1) by (rule applyPlain_Inr)
  have "legal (pState v) (tTo t)" "pState nv = (if tHold t then StateRamping else tTo t)"
    using applyPlain_state [OF assms(1)] by auto
  then have "pState v = StateRamping \<or> pState v = StateMigrating"
    using assms(2,3) applyPlain_hold_from [OF assms(1)] by (auto elim!: legal_cases split: if_splits)
  from applyStep_roles [OF a(2) this] show ?thesis by (simp add: a(3) same_roles_def applyFinish_fields)
qed

lemma Apply_outside:
  assumes ok: "spread_ok p" "pMove p = Some m" and step: "Apply p t = Inr np" and key: "\<not> InMove p key"
  shows "placeWrite np key = placeWrite p key"
proof -
  have "moves p t'" for t' using ok by (simp add: moves_def spread_ok_def)
  with step ok(2) obtain t'' nv where s: "np = moveDone p m t'' nv"
      "(if tRelease t'' then release (MoveView p m) (tBarrier t'') else applyPlain (MoveView p m) t'') = Inr nv"
    by (cases rule: Apply_cases) auto
  have st: "pState p \<noteq> StateActive" using checkSpread_move(1) ok by (auto simp: spread_ok_def)
  show ?thesis
  proof (cases "pState nv = StateActive")
    case True
    then show ?thesis
      using moveDone_release [OF ok True, of t'' key] moveDone_finish [OF ok True, of t'' key] placeWrite_spread [OF ok, of key] key
      by (cases "tRelease t''") (simp_all add: s(1))
  next
    case False
    have "same_roles (MoveView p m) nv"
      using s(2) False st view_same_roles [of "MoveView p m" t'' nv] release_shape(4) [of "MoveView p m" "tBarrier t''" nv]
      by (auto split: if_splits)
    from moveDone_step [OF ok False this, of t'' key] show ?thesis using placeWrite_spread [OF ok, of key] key by (simp add: s(1))
  qed
qed

end
