(* ===== verification/Directory.thy ===== *)
theory Directory
  imports Handover
begin

text \<open>
  The directory file and the changes an operator or a proxy makes to it: \<^verbatim>\<open>File\<close>, \<^verbatim>\<open>References\<close> and
  \<^verbatim>\<open>Snapshot\<close> of \<^verbatim>\<open>internal/directory/directory.go\<close>, the mutations of \<^verbatim>\<open>mutations.go\<close>, and \<^verbatim>\<open>Carve\<close> and
  \<^verbatim>\<open>Merge\<close> of \<^verbatim>\<open>scopes.go\<close>. Each mutation is a function from a file to an error or the changed file.

  A nil map of the file reads as an empty one, and every write to it comes after \<^verbatim>\<open>ensureMaps\<close> or after
  finding the key in it, so the maps are plain finite maps. Times are nanoseconds since Go's zero time.
  The lemmas show which mutations leave every write where it is, and that a snapshot answers what its
  file holds.
\<close>

subsection \<open>The file\<close>

record identity =
  idClusterID :: string
  idEpoch :: string

record dir_file =
  fVersion :: int
  fSchema :: int
  fIdentity :: identity
  fGenerations :: "(string, int) fmap"
  fClusters :: "(string, cluster) fmap"
  fTenants :: "(string, tenant) fmap"
  fPlacements :: "(string, placement) fmap"

datatype dir_error =
    ErrExists
  | ErrInUse message
  | ErrNotFound message
  | ErrConflict message
  | ErrRefused message
  | ErrApply apply_error

definition getPlacement :: "dir_file \<Rightarrow> string \<Rightarrow> placement option" where
  "getPlacement f k = fmlookup (fPlacements f) k"

definition putPlacement :: "dir_file \<Rightarrow> string \<Rightarrow> placement \<Rightarrow> dir_file" where
  "putPlacement f k p = f\<lparr>fPlacements := fmupd k p (fPlacements f)\<rparr>"

text \<open>\<^verbatim>\<open>now.UTC().Truncate(time.Millisecond)\<close>\<close>

definition truncateMs :: "int \<Rightarrow> int" where
  "truncateMs t = t - t mod 1000000"

definition References :: "dir_file \<Rightarrow> string \<Rightarrow> string list" where
  "References f cluster =
     map (\<lambda>name. ''tenants.'' @ name @ ''.default_cluster'')
       (filter (\<lambda>name. case fmlookup (fTenants f) name of None \<Rightarrow> False | Some t \<Rightarrow> tnDefaultCluster t = cluster)
         (sortedKeys (fTenants f)))
     @ map (\<lambda>k. ''placements.'' @ k)
       (filter (\<lambda>k. case fmlookup (fPlacements f) k of
                  None \<Rightarrow> False
                | Some p \<Rightarrow> pPrimary p = cluster \<or> pSource p = cluster \<or> pTarget p = cluster \<or> pCold p = cluster \<or>
                    hasKey (namesOf p) cluster \<or>
                    list_ex (\<lambda>i. lCluster (getLeg (legsOf p) i) = cluster) (sortedKeys (legsOf p)))
         (sortedKeys (fPlacements f)))"

subsection \<open>Placements come and go\<close>

definition newPlacement :: "string \<Rightarrow> string \<Rightarrow> int \<Rightarrow> placement" where
  "newPlacement cluster backend now =
     zeroPlacement\<lparr>pState := StateActive, pPrimary := cluster, pNames := Some (fmupd cluster backend fmempty),
       pCreated := truncateMs now\<rparr>"

definition Create :: "dir_file \<Rightarrow> string \<Rightarrow> string \<Rightarrow> string \<Rightarrow> string \<Rightarrow> int \<Rightarrow> dir_error + dir_file" where
  "Create f tenant bucket cluster backend now =
     (let k = Key tenant bucket in
      if hasKey (fPlacements f) k then Inl ErrExists
      else if \<not> hasKey (fTenants f) tenant then Inl (ErrNotFound (''tenant %q is not in the directory'', [AStr tenant]))
      else Inr (putPlacement f k (newPlacement cluster backend now)))"

definition Delete :: "dir_file \<Rightarrow> string \<Rightarrow> string \<Rightarrow> dir_error + dir_file" where
  "Delete f tenant bucket =
     (let k = Key tenant bucket in
      case getPlacement f k of
        None \<Rightarrow> Inl (ErrNotFound ('''', []))
      | Some p \<Rightarrow>
          if pState p \<noteq> StateActive
          then Inl (ErrConflict (''%s is %s; only an ACTIVE placement can be deleted'', [AStr k, AStr (pState p)]))
          else Inr (f\<lparr>fPlacements := fmdrop k (fPlacements f)\<rparr>))"

definition SetTenantDefault :: "dir_file \<Rightarrow> string \<Rightarrow> string \<Rightarrow> dir_error + dir_file" where
  "SetTenantDefault f tenant cluster =
     (case fmlookup (fTenants f) tenant of
        None \<Rightarrow> Inl (ErrNotFound (''tenant %q is not in the directory'', [AStr tenant]))
      | Some t \<Rightarrow>
          if \<not> hasKey (fClusters f) cluster then Inl (ErrNotFound (''cluster %q is not in the directory'', [AStr cluster]))
          else if tnDefaultCluster t = cluster
          then Inl (ErrConflict (''%s already defaults to %s'', [AStr tenant, AStr cluster]))
          else Inr (f\<lparr>fTenants := fmupd tenant (t\<lparr>tnDefaultCluster := cluster\<rparr>) (fTenants f)\<rparr>))"

definition SetState :: "dir_file \<Rightarrow> string \<Rightarrow> string \<Rightarrow> string \<Rightarrow> transition \<Rightarrow> dir_error + dir_file" where
  "SetState f tenant bucket from t =
     (let k = Key tenant bucket in
      case getPlacement f k of
        None \<Rightarrow> Inl (ErrNotFound ('''', []))
      | Some p \<Rightarrow>
          if pState p \<noteq> from
          then Inl (ErrConflict (''%s is %s in the directory, expected %s'', [AStr k, AStr (pState p), AStr from]))
          else (case Apply p t of Inl e \<Rightarrow> Inl (ErrApply e) | Inr np \<Rightarrow> Inr (putPlacement f k np)))"

subsection \<open>Switches and barriers\<close>

definition carries :: "barrier option \<Rightarrow> string \<Rightarrow> bool" where
  "carries b i = (case b of None \<Rightarrow> False | Some b \<Rightarrow> bID b = i)"

definition barrierID :: "barrier option \<Rightarrow> string" where
  "barrierID b = (case b of None \<Rightarrow> '''' | Some b \<Rightarrow> bID b)"

definition mutationsBarrier :: "bool \<Rightarrow> string \<Rightarrow> barrier option" where
  "mutationsBarrier readOnly i = (if readOnly \<and> i \<noteq> '''' then Some \<lparr>bID = i, bKind = BarrierMutations\<rparr> else None)"

definition SetPlacementReadOnly :: "dir_file \<Rightarrow> string \<Rightarrow> string \<Rightarrow> bool \<Rightarrow> bool \<Rightarrow> string \<Rightarrow> dir_error + dir_file" where
  "SetPlacementReadOnly f tenant bucket readOnly reject i =
     (let k = Key tenant bucket in
      case getPlacement f k of
        None \<Rightarrow> Inl (ErrNotFound (''no bucket %s in the directory'', [AStr k]))
      | Some p \<Rightarrow>
          if \<not> readOnly \<and> i \<noteq> '''' \<and> \<not> carries (pBarrier p) i
          then Inl (ErrConflict (''%s does not carry barrier %s'', [AStr k, AStr i]))
          else if pReadOnly p = readOnly \<and> pRejectWrites p = (readOnly \<and> reject) \<and> (i = '''' \<or> pBarrier p \<noteq> None)
          then Inl (ErrConflict (''%s read-only is already %t'', [AStr k, ABool readOnly]))
          else if readOnly \<and> i \<noteq> '''' \<and> pBarrier p \<noteq> None \<and> \<not> carries (pBarrier p) i
          then Inl (ErrConflict (''%s carries barrier %s of another change'', [AStr k, AStr (barrierID (pBarrier p))]))
          else Inr (putPlacement f k
            (p\<lparr>pReadOnly := readOnly, pRejectWrites := readOnly \<and> reject, pBarrier := mutationsBarrier readOnly i\<rparr>)))"

definition SetBarrier :: "dir_file \<Rightarrow> string \<Rightarrow> string \<Rightarrow> barrier \<Rightarrow> dir_error + dir_file" where
  "SetBarrier f tenant bucket b =
     (let k = Key tenant bucket in
      case getPlacement f k of
        None \<Rightarrow> Inl (ErrNotFound (''no bucket %s in the directory'', [AStr k]))
      | Some p \<Rightarrow>
          (case pBarrier p of
             Some pb \<Rightarrow>
               if pb = b then Inl (ErrConflict (''%s already carries barrier %s'', [AStr k, AStr (bID b)]))
               else Inl (ErrConflict (''%s carries barrier %s of another change'', [AStr k, AStr (bID pb)]))
           | None \<Rightarrow> Inr (putPlacement f k (p\<lparr>pBarrier := Some b\<rparr>))))"

definition ClearBarrier :: "dir_file \<Rightarrow> string \<Rightarrow> string \<Rightarrow> string \<Rightarrow> dir_error + dir_file" where
  "ClearBarrier f tenant bucket i =
     (let k = Key tenant bucket in
      case getPlacement f k of
        None \<Rightarrow> Inl (ErrNotFound (''no bucket %s in the directory'', [AStr k]))
      | Some p \<Rightarrow>
          if \<not> carries (pBarrier p) i then Inl (ErrConflict (''%s does not carry barrier %s'', [AStr k, AStr i]))
          else Inr (putPlacement f k (p\<lparr>pBarrier := None\<rparr>)))"

definition SetPlacementWatch :: "dir_file \<Rightarrow> string \<Rightarrow> string \<Rightarrow> bool \<Rightarrow> dir_error + dir_file" where
  "SetPlacementWatch f tenant bucket watch =
     (let k = Key tenant bucket in
      case getPlacement f k of
        None \<Rightarrow> Inl (ErrNotFound (''no bucket %s in the directory'', [AStr k]))
      | Some p \<Rightarrow>
          if pWatch p = watch then Inl (ErrConflict (''%s watch is already %t'', [AStr k, ABool watch]))
          else Inr (putPlacement f k (p\<lparr>pWatch := watch\<rparr>)))"

definition putCluster :: "dir_file \<Rightarrow> string \<Rightarrow> cluster \<Rightarrow> dir_file" where
  "putCluster f name c = f\<lparr>fClusters := fmupd name c (fClusters f)\<rparr>"

definition SetClusterReadOnly :: "dir_file \<Rightarrow> string \<Rightarrow> bool \<Rightarrow> bool \<Rightarrow> string \<Rightarrow> dir_error + dir_file" where
  "SetClusterReadOnly f name readOnly reject i =
     (case fmlookup (fClusters f) name of
        None \<Rightarrow> Inl (ErrNotFound (''cluster %q is not in the directory'', [AStr name]))
      | Some c \<Rightarrow>
          if \<not> readOnly \<and> i \<noteq> '''' \<and> \<not> carries (cBarrier c) i
          then Inl (ErrConflict (''cluster %s does not carry barrier %s'', [AStr name, AStr i]))
          else if cReadOnly c = readOnly \<and> cRejectWrites c = (readOnly \<and> reject) \<and> (i = '''' \<or> cBarrier c \<noteq> None)
          then Inl (ErrConflict (''cluster %s read-only is already %t'', [AStr name, ABool readOnly]))
          else if readOnly \<and> i \<noteq> '''' \<and> cBarrier c \<noteq> None \<and> \<not> carries (cBarrier c) i
          then Inl (ErrConflict (''cluster %s carries barrier %s of another change'', [AStr name, AStr (barrierID (cBarrier c))]))
          else Inr (putCluster f name
            (c\<lparr>cReadOnly := readOnly, cRejectWrites := readOnly \<and> reject, cBarrier := mutationsBarrier readOnly i\<rparr>)))"

definition cutPrefix :: "string \<Rightarrow> string \<Rightarrow> string option" where
  "cutPrefix s pre = (if prefix pre s then Some (drop (length pre) s) else None)"

definition ReleaseReadOnly :: "dir_file \<Rightarrow> string \<Rightarrow> string \<Rightarrow> bool \<Rightarrow> bool \<Rightarrow> dir_error + dir_file" where
  "ReleaseReadOnly f resource i readOnly reject =
     (case cutPrefix resource ''cluster:'' of
        Some name \<Rightarrow>
          (case fmlookup (fClusters f) name of
             None \<Rightarrow> Inl (ErrNotFound (''cluster %q is not in the directory'', [AStr name]))
           | Some c \<Rightarrow>
               if \<not> carries (cBarrier c) i
               then Inl (ErrConflict (''cluster %s does not carry barrier %s'', [AStr name, AStr i]))
               else Inr (putCluster f name (c\<lparr>cReadOnly := readOnly, cRejectWrites := readOnly \<and> reject, cBarrier := None\<rparr>)))
      | None \<Rightarrow>
          (let k = (case cutPrefix resource ''placement:'' of None \<Rightarrow> resource | Some k \<Rightarrow> k) in
           case getPlacement f k of
             None \<Rightarrow> Inl (ErrNotFound (''no bucket %s in the directory'', [AStr k]))
           | Some p \<Rightarrow>
               if \<not> carries (pBarrier p) i then Inl (ErrConflict (''%s does not carry barrier %s'', [AStr k, AStr i]))
               else Inr (putPlacement f k (p\<lparr>pReadOnly := readOnly, pRejectWrites := readOnly \<and> reject, pBarrier := None\<rparr>))))"

definition ClearClusterBarrier :: "dir_file \<Rightarrow> string \<Rightarrow> string \<Rightarrow> dir_error + dir_file" where
  "ClearClusterBarrier f name i =
     (case fmlookup (fClusters f) name of
        None \<Rightarrow> Inl (ErrNotFound (''cluster %q is not in the directory'', [AStr name]))
      | Some c \<Rightarrow>
          if \<not> carries (cBarrier c) i
          then Inl (ErrConflict (''cluster %s does not carry barrier %s'', [AStr name, AStr i]))
          else Inr (putCluster f name (c\<lparr>cBarrier := None\<rparr>)))"

subsection \<open>Clusters\<close>

definition PutCluster :: "dir_file \<Rightarrow> string \<Rightarrow> cluster \<Rightarrow> dir_file" where
  "PutCluster f name c = f\<lparr>fClusters := ApplyClusterDefaults (fmupd name c (fClusters f))\<rparr>"

definition RemoveCluster :: "dir_file \<Rightarrow> string \<Rightarrow> dir_error + dir_file" where
  "RemoveCluster f name =
     (if \<not> hasKey (fClusters f) name then Inl (ErrNotFound (''cluster %q is not in the directory'', [AStr name]))
      else if References f name \<noteq> []
      then Inl (ErrInUse (''cluster %q is still referenced by %s'', [AStr name, AStrs (References f name)]))
      else Inr (f\<lparr>fClusters := fmdrop name (fClusters f)\<rparr>))"

subsection \<open>Taking over buckets\<close>

definition ensureTenant :: "dir_file \<Rightarrow> string \<Rightarrow> string \<Rightarrow> dir_file" where
  "ensureTenant f tenant cluster =
     (if hasKey (fTenants f) tenant then f
      else f\<lparr>fTenants := fmupd tenant \<lparr>tnDefaultCluster = cluster\<rparr> (fTenants f)\<rparr>)"

definition Adopt :: "dir_file \<Rightarrow> string \<Rightarrow> string \<Rightarrow> string \<Rightarrow> string \<Rightarrow> int \<Rightarrow> dir_error + dir_file" where
  "Adopt f tenant bucket cluster backend now =
     (let k = Key tenant bucket in
      if hasKey (fPlacements f) k then Inl ErrExists
      else Inr (putPlacement (ensureTenant f tenant cluster) k (newPlacement cluster backend now)))"

fun spreadLegs :: "leg list \<Rightarrow> (string, leg) fmap \<Rightarrow> string list \<Rightarrow> string + (string, leg) fmap \<times> string list" where
  "spreadLegs [] byID ids = Inr (byID, ids)"
| "spreadLegs (l # ls) byID ids =
     (if hasKey byID (lCluster l) then Inl (lCluster l)
      else spreadLegs ls (fmupd (lCluster l) l byID) (ids @ [lCluster l]))"

definition CreateSpread :: "dir_file \<Rightarrow> string \<Rightarrow> string \<Rightarrow> leg list \<Rightarrow> int \<Rightarrow> dir_error + dir_file" where
  "CreateSpread f tenant bucket legs now =
     (let k = Key tenant bucket in
      if hasKey (fPlacements f) k then Inl ErrExists
      else if length legs < 2 \<or> MaxLegs < length legs
      then Inl (ErrConflict (''a spread bucket has 2 to %d legs, not %d'', [ANat MaxLegs, ANat (length legs)]))
      else case spreadLegs legs fmempty [] of
        Inl c \<Rightarrow> Inl (ErrConflict (''cluster %s is named twice; a new bucket spreads over different clusters'', [AStr c]))
      | Inr (byID, ids) \<Rightarrow>
          Inr (putPlacement (ensureTenant f tenant (lCluster (hd legs))) k
            (zeroPlacement\<lparr>pState := StateActive, pLegs := Some byID, pOwners := EvenOwners ids, pKeyHash := RampHash,
               pCreated := truncateMs now\<rparr>)))"

definition SetTarget :: "dir_file \<Rightarrow> string \<Rightarrow> string \<Rightarrow> string \<Rightarrow> string \<Rightarrow> dir_error + dir_file" where
  "SetTarget f tenant bucket cluster backend =
     (let k = Key tenant bucket in
      case getPlacement f k of
        None \<Rightarrow> Inl (ErrNotFound ('''', []))
      | Some p \<Rightarrow>
          if pState p \<noteq> StateActive
          then Inl (ErrConflict (''%s is %s; expand prepares an ACTIVE placement'', [AStr k, AStr (pState p)]))
          else if Spread p
          then Inl (ErrConflict (''%s is spread over %d legs; expanding it is ADR-0018 N3'', [AStr k, ANat (mapLen (legsOf p))]))
          else if pTarget p \<noteq> '''' \<and> pTarget p \<noteq> cluster
          then Inl (ErrConflict (''%s is already expanded to %s'', [AStr k, AStr (pTarget p)]))
          else Inr (putPlacement f k (p\<lparr>pTarget := cluster, pNames := Some (fmupd cluster backend (namesOf p))\<rparr>)))"

definition ClearTarget :: "dir_file \<Rightarrow> string \<Rightarrow> string \<Rightarrow> dir_error + dir_file" where
  "ClearTarget f tenant bucket =
     (let k = Key tenant bucket in
      case getPlacement f k of
        None \<Rightarrow> Inl (ErrNotFound ('''', []))
      | Some p \<Rightarrow>
          if pState p \<noteq> StateActive
          then Inl (ErrConflict (''%s is %s; a target can only be cleared before the first step'', [AStr k, AStr (pState p)]))
          else if Spread p then
            (let idle = IdleLegs p in
             if idle = [] then Inl (ErrConflict (''every leg of %s owns keys; there is no idle leg to retire'', [AStr k]))
             else Inr (putPlacement f k (settle (p\<lparr>pLegs := map_option (fmdrop_set (set idle)) (pLegs p)\<rparr>))))
          else if pTarget p = '''' then Inl (ErrConflict (''%s has no target to clear'', [AStr k]))
          else Inr (putPlacement f k
            (p\<lparr>pNames := (if pTarget p \<noteq> pCold p then map_option (fmdrop (pTarget p)) (pNames p) else pNames p),
               pTarget := ''''\<rparr>)))"

text \<open>\<^verbatim>\<open>range f.Placements\<close> visits the placements in an order the runtime picks: the parameter \<open>order\<close>.\<close>

definition usesBucket :: "placement \<Rightarrow> string \<Rightarrow> string \<Rightarrow> bool" where
  "usesBucket p cluster name \<longleftrightarrow>
     getStr (namesOf p) cluster = name \<or>
     list_ex (\<lambda>i. getLeg (legsOf p) i = \<lparr>lCluster = cluster, lBucket = name\<rparr>) (sortedKeys (legsOf p))"

definition BucketUser :: "string list \<Rightarrow> dir_file \<Rightarrow> string \<Rightarrow> string \<Rightarrow> string \<Rightarrow> string" where
  "BucketUser order f cluster name except =
     (if name = '''' then ''''
      else case find (\<lambda>k. k \<noteq> except \<and> (case getPlacement f k of None \<Rightarrow> False | Some p \<Rightarrow> usesBucket p cluster name)) order of
             None \<Rightarrow> ''''
           | Some k \<Rightarrow> k)"

subsection \<open>Prefix rules\<close>

definition insertRule :: "prefix_rule \<Rightarrow> prefix_rule list \<Rightarrow> prefix_rule list" where
  "insertRule r rs = sort_key prPrefix (rs @ [r])"

definition carveRefuses :: "string \<Rightarrow> placement \<Rightarrow> string \<Rightarrow> dir_error option" where
  "carveRefuses k p pre = refuse
     [(pState p \<noteq> StateActive \<or> pMove p \<noteq> None,
         ErrRefused (''%s is %s; prefix rules change only at rest, with no move in progress'', [AStr k, AStr (pState p)])),
      (pre = '''', ErrRefused (''a prefix is required; the empty prefix is every key'', [])),
      (MaxPrefixLen < length pre, ErrRefused (''a prefix has at most %d bytes'', [ANat MaxPrefixLen])),
      (MaxPrefixRules \<le> length (rulesOf p),
         ErrRefused (''%s has %d prefix rules, the most a bucket may have (ADR-0020)'', [AStr k, ANat MaxPrefixRules])),
      (list_ex (\<lambda>r. prPrefix r = pre) (rulesOf p), ErrRefused (''%s already has a rule for %q'', [AStr k, AStr pre])),
      (\<not> Spread p \<and> (pTarget p \<noteq> '''' \<or> pCold p \<noteq> '''' \<or> pTier p \<noteq> '''' \<or> pLifecycle p \<noteq> ''''),
         ErrRefused (''%s has a target, cold tier or lifecycle recorded; prefix rules need a bucket with none (clear the target first)'', [AStr k]))]"

definition carveLegs :: "placement \<Rightarrow> placement" where
  "carveLegs p =
     (if Spread p then p
      else p\<lparr>pLegs := Some (fmupd (pPrimary p) \<lparr>lCluster = pPrimary p, lBucket = getStr (namesOf p) (pPrimary p)\<rparr> fmempty),
             pOwners := Some [\<lparr>oFrom = rgFrom FullRange, oTo = rgTo FullRange, oLeg = pPrimary p\<rparr>],
             pPrimary := '''', pNames := None\<rparr>)"

definition carved :: "placement \<Rightarrow> string \<Rightarrow> placement" where
  "carved p pre =
     (let np = (carveLegs p)\<lparr>pKeyHash := RampHash\<rparr>
      in np\<lparr>pPrefixes := Some (insertRule \<lparr>prPrefix = pre, prOwners = parentTable np pre\<rparr> (rulesOf np))\<rparr>)"

definition Carve :: "dir_file \<Rightarrow> string \<Rightarrow> string \<Rightarrow> string \<Rightarrow> dir_error + dir_file" where
  "Carve f tenant bucket pre =
     (let k = Key tenant bucket in
      case getPlacement f k of
        None \<Rightarrow> Inl (ErrNotFound ('''', []))
      | Some p \<Rightarrow>
          (case carveRefuses k p pre of Some e \<Rightarrow> Inl e | None \<Rightarrow> Inr (putPlacement f k (carved p pre))))"

definition mergeRefuses :: "string \<Rightarrow> placement \<Rightarrow> string \<Rightarrow> dir_error option" where
  "mergeRefuses k p pre = refuse
     [(\<not> list_ex (\<lambda>r. prPrefix r = pre) (rulesOf p), ErrRefused (''%s has no rule for %q'', [AStr k, AStr pre])),
      (pState p \<noteq> StateActive \<or> pMove p \<noteq> None,
         ErrRefused (''%s is %s; prefix rules change only at rest, with no move in progress'', [AStr k, AStr (pState p)])),
      (map_option prOwners (find (\<lambda>r. prPrefix r = pre) (rulesOf p)) \<noteq> Some (parentTable p pre),
         ErrRefused (''the keys under %q are owned differently from the rest of their scope; move them to match before merging the rule'', [AStr pre]))]"

fun deleteRule :: "string \<Rightarrow> prefix_rule list \<Rightarrow> prefix_rule list" where
  "deleteRule pre [] = []"
| "deleteRule pre (r # rs) = (if prPrefix r = pre then rs else r # deleteRule pre rs)"

definition merged :: "placement \<Rightarrow> string \<Rightarrow> placement" where
  "merged p pre =
     (let rs = deleteRule pre (rulesOf p)
      in settle (p\<lparr>pPrefixes := (if rs = [] then None else Some rs)\<rparr>))"

definition Merge :: "dir_file \<Rightarrow> string \<Rightarrow> string \<Rightarrow> string \<Rightarrow> dir_error + dir_file" where
  "Merge f tenant bucket pre =
     (let k = Key tenant bucket in
      case getPlacement f k of
        None \<Rightarrow> Inl (ErrNotFound ('''', []))
      | Some p \<Rightarrow>
          (case mergeRefuses k p pre of Some e \<Rightarrow> Inl e | None \<Rightarrow> Inr (putPlacement f k (merged p pre))))"

subsection \<open>Snapshots\<close>

record snapshot =
  snFile :: dir_file
  snByKey :: "(string \<times> string, placement) fmap"
  snBuckets :: "(string, string list) fmap"

definition addToSnapshot :: "dir_file \<Rightarrow> snapshot \<Rightarrow> string \<Rightarrow> snapshot" where
  "addToSnapshot f s k =
     (case (SplitKey k, getPlacement f k) of
        ((tenant, bucket, True), Some p) \<Rightarrow>
          s\<lparr>snByKey := fmupd (tenant, bucket) p (snByKey s),
            snBuckets := fmupd tenant (goSlice (fmlookup (snBuckets s) tenant) @ [bucket]) (snBuckets s)\<rparr>
      | _ \<Rightarrow> s)"

definition newSnapshot :: "dir_file \<Rightarrow> snapshot" where
  "newSnapshot f =
     (let s = foldl (addToSnapshot f) \<lparr>snFile = f, snByKey = fmempty, snBuckets = fmempty\<rparr> (sortedKeys (fPlacements f))
      in s\<lparr>snBuckets := fmmap sort (snBuckets s)\<rparr>)"

definition Lookup :: "snapshot \<Rightarrow> string \<Rightarrow> string \<Rightarrow> placement option" where
  "Lookup s tenant bucket = fmlookup (snByKey s) (tenant, bucket)"

definition snVersion :: "snapshot \<Rightarrow> int" where
  "snVersion s = fVersion (snFile s)"

definition snCluster :: "snapshot \<Rightarrow> string \<Rightarrow> cluster option" where
  "snCluster s name = fmlookup (fClusters (snFile s)) name"

definition snTenant :: "snapshot \<Rightarrow> string \<Rightarrow> tenant option" where
  "snTenant s name = fmlookup (fTenants (snFile s)) name"

definition Buckets :: "snapshot \<Rightarrow> string \<Rightarrow> string list" where
  "Buckets s tenant = goSlice (fmlookup (snBuckets s) tenant)"

subsection \<open>Prefix rules change no owner\<close>

text \<open>Placements with the same owner for every key and the same legs write every key alike.\<close>

lemma routes_same:
  assumes "routes p" "tables_ok q" "pKeyHash q = RampHash" "ownerAt q = ownerAt p"
  shows "routes q"
  using assms ownsKeys_iff [of p] ownsKeys_iff [of q] by (simp add: routes_def)

lemma set_insertRule [simp]: "set (insertRule r rs) = insert r (set rs)"
  by (auto simp: insertRule_def)

lemma insertRule_ok:
  assumes "rules_ok rs" "prPrefix r \<noteq> ''''" "prPrefix r \<notin> prPrefix ` set rs"
  shows "rules_ok (insertRule r rs)"
proof -
  have d: "distinct rs" "inj_on prPrefix (set rs)" "'''' \<notin> prPrefix ` set rs" using assms(1) by (simp_all add: rules_ok_def distinct_map)
  have "distinct (insertRule r rs)" using d(1) assms(3) by (auto simp: insertRule_def)
  moreover have "inj_on prPrefix (insert r (set rs))" using d(2) assms(3) by (auto simp: inj_on_insert)
  ultimately show ?thesis using d(3) assms(2) by (simp add: rules_ok_def distinct_map)
qed

lemma carve_base:
  assumes ok: "placement_ok p" and p: "pState p = StateActive" "pMove p = None"
  defines "np \<equiv> (carveLegs p)\<lparr>pKeyHash := RampHash\<rparr>"
  shows "routes np" "pMove np = None" "placeWrite p key = Some (legBucket np (ownerFor np key))"
proof -
  have "routes np \<and> pMove np = None \<and> placeWrite p key = Some (legBucket np (ownerFor np key))"
  proof (cases "Spread p")
    case True
    then have s: "spread_ok p" using ok by (simp add: placement_ok_def)
    then have "np = p" using True by (simp add: np_def carveLegs_def spread_ok_def)
    then show ?thesis using spread_ok_routes [OF s] placeWrite_rest [of p key] True p(2) by (simp add: InMove_def)
  next
    case False
    then have pl: "plain_ok p" using ok by (simp add: placement_ok_def)
    show ?thesis using plain_as_leg(1,3) [OF pl p(1), of np] False p(2) by (simp add: np_def carveLegs_def)
  qed
  then show "routes np" "pMove np = None" "placeWrite p key = Some (legBucket np (ownerFor np key))" by blast+
qed

lemma carved_writes:
  assumes ok: "placement_ok p" and c: "carveRefuses k p pre = None"
  shows "placeWrite (carved p pre) key = placeWrite p key"
proof -
  define np where "np = (carveLegs p)\<lparr>pKeyHash := RampHash\<rparr>"
  define r where "r = \<lparr>prPrefix = pre, prOwners = parentTable np pre\<rparr>"
  define q where "q = np\<lparr>pPrefixes := Some (insertRule r (rulesOf np))\<rparr>"
  have q: "carved p pre = q" by (simp add: carved_def np_def r_def q_def Let_def)
  have g: "pState p = StateActive" "pMove p = None" "pre \<noteq> ''''" "\<forall>r \<in> set (rulesOf p). prPrefix r \<noteq> pre"
    using c by (auto simp: carveRefuses_def list_ex_iff)
  note b = carve_base [OF ok g(1,2), folded np_def]
  have rules: "rulesOf np = rulesOf p" by (simp add: np_def carveLegs_def)
  have new: "pre \<notin> set (prefixesOf np)" using g(4) by (auto simp: prefixesOf_def rules)
  have okr: "rules_ok (rulesOf np)" "rules_ok (rulesOf q)"
    using b(1) g(3) new insertRule_ok [of "rulesOf np" r]
    by (simp_all add: routes_def tables_ok_def q_def r_def prefixesOf_def)
  have os: "parentTable np pre = snd (Scope np pre)" using new by (rule parentTable_Scope)
  have sc: "snd (Scope q key) = snd (Scope np key)" for key
    by (rule Scope_with_rule [OF okr, of pre "parentTable np pre"]) (simp_all add: q_def r_def new os)
  have o: "ownerAt q = ownerAt np" by (simp add: fun_eq_iff ownerAt_def sc)
  have "tables_ok q"
    using b(1) okr(2) Scope_partition [of np pre] os by (auto simp: tables_ok_def routes_def q_def r_def)
  then have "routes q" using routes_same [OF b(1) _ _ o] by (simp add: q_def np_def)
  moreover have "Spread q" "\<not> InMove q key"
    using b(2) by (auto simp: q_def Spread_def InMove_def insertRule_def)
  ultimately show ?thesis using placeWrite_rest [of q key] b(3) o by (simp add: q legBucket_def q_def)
qed

lemma foldl_deleteRule:
  "(\<And>r. prPrefix r = pre \<Longrightarrow> \<not> ok r) \<Longrightarrow> foldl (longerRule ok) b (deleteRule pre rs) = foldl (longerRule ok) b rs"
  by (induction rs arbitrary: b) (auto simp: longerRule_def)

lemma set_deleteRule:
  "distinct (map prPrefix rs) \<Longrightarrow> set (deleteRule pre rs) = {r \<in> set rs. prPrefix r \<noteq> pre}"
  by (induction rs) (auto simp: image_iff)

lemma deleteRule_ok: "rules_ok rs \<Longrightarrow> rules_ok (deleteRule pre rs)"
  by (induction rs) (auto simp: rules_ok_def set_deleteRule)

lemma merged_writes:
  assumes ok: "placement_ok p" and c: "mergeRefuses k p pre = None"
  shows "placeWrite (merged p pre) key = placeWrite p key"
proof -
  obtain r where r: "find (\<lambda>r. prPrefix r = pre) (rulesOf p) = Some r" "prOwners r = parentTable p pre" "pMove p = None"
    using c by (auto simp: mergeRefuses_def)
  then have rm: "r \<in> set (rulesOf p)" "prPrefix r = pre" by (auto simp: find_Some_iff)
  then have "Spread p" by (auto simp: Spread_def)
  then have sp: "spread_ok p" using ok by (simp add: placement_ok_def)
  note rt = spread_ok_routes [OF sp]
  define rs where "rs = deleteRule pre (rulesOf p)"
  define q where "q = p\<lparr>pPrefixes := (if rs = [] then None else Some rs)\<rparr>"
  have q: "merged p pre = settle q" by (simp add: merged_def rs_def q_def Let_def)
  have rq: "rulesOf q = rs" and oq: "pOwners q = pOwners p" by (simp_all add: q_def)
  have okp: "rules_ok (rulesOf p)" using rt by (simp add: routes_def tables_ok_def)
  then have okr: "rules_ok (rulesOf q)" by (simp add: rq rs_def deleteRule_ok)
  have sq: "set (rulesOf q) = {r \<in> set (rulesOf p). prPrefix r \<noteq> pre}"
    using okp by (simp add: rq rs_def set_deleteRule rules_ok_def)
  have new: "pre \<notin> set (prefixesOf q)" using sq by (auto simp: prefixesOf_def)
  have ins: "set (rulesOf p) = insert \<lparr>prPrefix = pre, prOwners = parentTable p pre\<rparr> (set (rulesOf q))"
  proof -
    have "r = \<lparr>prPrefix = pre, prOwners = parentTable p pre\<rparr>" using r(2) rm(2) by simp
    then show ?thesis using rm sq rules_ok_inj [OF okp] by auto
  qed
  have "parentTable p pre = parentTable q pre"
    using foldl_deleteRule [of pre "\<lambda>r. prPrefix r \<noteq> pre \<and> prefix (prPrefix r) pre" None "rulesOf p"]
    by (simp add: parentTable_def rq rs_def oq split: option.split)
  then have os: "parentTable p pre = snd (Scope q pre)" using parentTable_Scope [OF new] by simp
  have sc: "snd (Scope p key) = snd (Scope q key)" for key
    by (rule Scope_with_rule [OF okr okp _ ins new os]) (simp add: q_def)
  have o: "ownerAt q = ownerAt p" by (simp add: fun_eq_iff ownerAt_def sc)
  have "tables_ok q" using rt okr sq by (simp add: tables_ok_def routes_def q_def)
  then have "routes q" using routes_same [OF rt _ _ o] sp by (simp add: q_def spread_ok_def)
  then have "placeWrite (settle q) key = Some (legBucket q (ownerFor q key))"
    using r(3) sp by (intro placeWrite_settle) (simp_all add: q_def spread_ok_def)
  moreover have "placeWrite p key = Some (legBucket p (ownerFor p key))"
    using placeWrite_rest [OF rt \<open>Spread p\<close>] r(3) by (simp add: InMove_def)
  moreover have "legBucket q = legBucket p" by (simp add: fun_eq_iff legBucket_def q_def)
  ultimately show ?thesis by (simp add: q o)
qed

subsection \<open>What a snapshot answers\<close>

lemma SplitKey_True: "SplitKey k = (t, b, True) \<longleftrightarrow> k = Key t b \<and> CHR ''/'' \<notin> set t \<and> t \<noteq> '''' \<and> b \<noteq> ''''"
  using Key_SplitKey [of k t b] SplitKey_Key [of t b] by auto

lemma addToSnapshot_other:
  assumes "SplitKey k \<noteq> (t, b, True) \<or> getPlacement f k = None"
  shows "fmlookup (snByKey (addToSnapshot f s k)) (t, b) = fmlookup (snByKey s) (t, b)"
  using assms by (auto simp: addToSnapshot_def split: prod.split bool.split option.split)

lemma addToSnapshot_key:
  assumes "SplitKey k = (t, b, True)" "getPlacement f k = Some p"
  shows "fmlookup (snByKey (addToSnapshot f s k)) (t, b) = Some p"
  using assms by (simp add: addToSnapshot_def)

lemma addToSnapshot_fold:
  assumes "SplitKey k = (t, b, True)"
  shows "fmlookup (snByKey (foldl (addToSnapshot f) s ks)) (t, b) =
    (if k \<in> set ks \<and> getPlacement f k \<noteq> None then getPlacement f k else fmlookup (snByKey s) (t, b))"
proof (induction ks arbitrary: s)
  case (Cons x ks)
  show ?case
  proof (cases "x = k \<and> getPlacement f k \<noteq> None")
    case True
    then show ?thesis using Cons.IH [of "addToSnapshot f s x"] addToSnapshot_key [OF assms] by auto
  next
    case False
    have "SplitKey x \<noteq> (t, b, True) \<or> getPlacement f x = None" using False assms by (auto simp: SplitKey_True)
    from addToSnapshot_other [OF this] show ?thesis using Cons.IH [of "addToSnapshot f s x"] False by auto
  qed
qed simp

lemma Lookup_newSnapshot:
  assumes "CHR ''/'' \<notin> set t" "t \<noteq> ''''" "b \<noteq> ''''"
  shows "Lookup (newSnapshot f) t b = getPlacement f (Key t b)"
proof -
  have k: "SplitKey (Key t b) = (t, b, True)" using assms by (simp add: SplitKey_Key)
  have "getPlacement f (Key t b) \<noteq> None \<Longrightarrow> Key t b \<in> set (sortedKeys (fPlacements f))"
    by (auto simp: getPlacement_def fmdomI)
  then show ?thesis
    using addToSnapshot_fold [OF k, of f "\<lparr>snFile = f, snByKey = fmempty, snBuckets = fmempty\<rparr>" "sortedKeys (fPlacements f)"]
    by (cases "getPlacement f (Key t b)") (simp_all add: Lookup_def newSnapshot_def Let_def)
qed

lemma addToSnapshot_buckets:
  "goSlice (fmlookup (snBuckets (foldl (addToSnapshot f) s ks)) t) =
   goSlice (fmlookup (snBuckets s) t)
   @ map (fst \<circ> snd \<circ> SplitKey) (filter (\<lambda>k. fst (SplitKey k) = t \<and> snd (snd (SplitKey k)) \<and> getPlacement f k \<noteq> None) ks)"
proof (induction ks arbitrary: s)
  case (Cons k ks)
  obtain t' b ok where k: "SplitKey k = (t', b, ok)" by (metis prod_cases3)
  have "goSlice (fmlookup (snBuckets (addToSnapshot f s k)) t) =
    goSlice (fmlookup (snBuckets s) t) @ (if t' = t \<and> ok \<and> getPlacement f k \<noteq> None then [b] else [])"
    by (cases ok; cases "getPlacement f k") (simp_all add: addToSnapshot_def k)
  then show ?case using Cons.IH [of "addToSnapshot f s k"] by (simp add: k)
qed simp

lemma Buckets_newSnapshot:
  "sorted (Buckets (newSnapshot f) t)" "distinct (Buckets (newSnapshot f) t)"
  "b \<in> set (Buckets (newSnapshot f) t) \<longleftrightarrow> SplitKey (Key t b) = (t, b, True) \<and> getPlacement f (Key t b) \<noteq> None"
proof -
  define bs where "bs = map (fst \<circ> snd \<circ> SplitKey)
    (filter (\<lambda>k. fst (SplitKey k) = t \<and> snd (snd (SplitKey k)) \<and> getPlacement f k \<noteq> None) (sortedKeys (fPlacements f)))"
  define s where "s = foldl (addToSnapshot f) \<lparr>snFile = f, snByKey = fmempty, snBuckets = fmempty\<rparr> (sortedKeys (fPlacements f))"
  have "goSlice (fmlookup (snBuckets s) t) = bs"
    using addToSnapshot_buckets [of f _ "sortedKeys (fPlacements f)" t] by (simp add: s_def bs_def)
  then have b: "Buckets (newSnapshot f) t = sort bs"
    by (cases "fmlookup (snBuckets s) t") (simp_all add: Buckets_def newSnapshot_def s_def [symmetric] Let_def)
  have split: "SplitKey k = (t, fst (snd (SplitKey k)), True)" if "fst (SplitKey k) = t" "snd (snd (SplitKey k))" for k
    using that by (cases "SplitKey k") auto
  have "x = y" if "fst (SplitKey x) = t" "snd (snd (SplitKey x))" "fst (SplitKey y) = t" "snd (snd (SplitKey y))"
      "fst (snd (SplitKey x)) = fst (snd (SplitKey y))" for x y
    using split [OF that(1,2)] split [OF that(3,4)] that(5) by (metis SplitKey_True)
  then have "distinct bs" unfolding bs_def by (auto simp: distinct_map inj_on_def)
  then show "sorted (Buckets (newSnapshot f) t)" "distinct (Buckets (newSnapshot f) t)" by (simp_all add: b)
  show "b \<in> set (Buckets (newSnapshot f) t) \<longleftrightarrow> SplitKey (Key t b) = (t, b, True) \<and> getPlacement f (Key t b) \<noteq> None"
  proof
    assume "b \<in> set (Buckets (newSnapshot f) t)"
    then obtain k where k: "fst (SplitKey k) = t" "snd (snd (SplitKey k))" "getPlacement f k \<noteq> None" "b = fst (snd (SplitKey k))"
      unfolding \<open>Buckets (newSnapshot f) t = sort bs\<close> by (auto simp: bs_def)
    then have "SplitKey k = (t, b, True)" using split by metis
    then show "SplitKey (Key t b) = (t, b, True) \<and> getPlacement f (Key t b) \<noteq> None" using k(3) by (simp add: SplitKey_True)
  next
    assume r: "SplitKey (Key t b) = (t, b, True) \<and> getPlacement f (Key t b) \<noteq> None"
    then have "Key t b \<in> set (sortedKeys (fPlacements f))" by (auto simp: getPlacement_def fmdomI)
    with r show "b \<in> set (Buckets (newSnapshot f) t)" unfolding b bs_def by (force simp: image_iff)
  qed
qed

end
