(* ===== verification/Validate.thy ===== *)
theory Validate
  imports Directory
begin

text \<open>
  What a directory file must satisfy before it is installed or written: \<^verbatim>\<open>internal/directory/validate.go\<close>
  and the lineage checks of \<^verbatim>\<open>identity.go\<close>. The code appends every failure to one list and threads the
  backend buckets already claimed through the placements; both are explicit here.

  The lemmas show what an accepted file has: every reference resolves, no two placements claim one
  backend bucket, generations stay between 1 and the version, and each placement has the shape the
  routing and lifecycle lemmas assume.
\<close>

datatype dverr = DErr string message | DCluster verror

definition tierModes :: "string list" where "tierModes = [''native'', ''emulated'']"

definition dirOneOf :: "string \<Rightarrow> string \<Rightarrow> string list \<Rightarrow> dverr list" where
  "dirOneOf key val allowed =
     (if val \<in> set allowed then []
      else if val = '''' then [DErr key (''required; one of %s'', [AStrs allowed])]
      else [DErr key (''%q is not one of %s'', [AStr val, AStrs allowed])])"

definition dirRef :: "(string, cluster) fmap \<Rightarrow> string \<Rightarrow> string \<Rightarrow> dverr list" where
  "dirRef clusters key name =
     (if name = '''' then [DErr key (''required'', [])]
      else if \<not> hasKey clusters name then [DErr key (''unknown cluster %q'', [AStr name])]
      else [])"

definition validTenant :: "string \<Rightarrow> bool" where
  "validTenant name \<longleftrightarrow>
     name \<noteq> '''' \<and> length name \<le> 32 \<and> hd name \<noteq> CHR ''-'' \<and> last name \<noteq> CHR ''-'' \<and>
     list_all (\<lambda>c. isLower c \<or> isDigit c \<or> c = CHR ''-'') name"

subsection \<open>Lineage\<close>

definition SchemaVersion :: int where "SchemaVersion = 2"

definition idLen :: nat where "idLen = 32"

definition validID :: "string \<Rightarrow> bool" where
  "validID s \<longleftrightarrow> length s = idLen \<and> list_all (\<lambda>c. isDigit c \<or> (CHR ''a'' \<le> c \<and> c \<le> CHR ''f'')) s"

definition zeroIdentity :: identity where "zeroIdentity = \<lparr>idClusterID = '''', idEpoch = ''''\<rparr>"

definition IsZero :: "identity \<Rightarrow> bool" where "IsZero i \<longleftrightarrow> i = zeroIdentity"

definition validateIdentity :: "identity \<Rightarrow> message option" where
  "validateIdentity i =
     (if \<not> validID (idClusterID i) then Some (''cluster_id %q: want %d lowercase hex characters'', [AStr (idClusterID i), ANat idLen])
      else if \<not> validID (idEpoch i) then Some (''epoch %q: want %d lowercase hex characters'', [AStr (idEpoch i), ANat idLen])
      else None)"

definition CheckSchema :: "int \<Rightarrow> message option" where
  "CheckSchema schema =
     (if SchemaVersion < schema
      then Some (''(schema %d; this build reads schema %d): upgrade this binary'', [AInt schema, AInt SchemaVersion])
      else None)"

definition validateLineage :: "dir_file \<Rightarrow> dverr list" where
  "validateLineage f =
     (case CheckSchema (fSchema f) of None \<Rightarrow> [] | Some m \<Rightarrow> [DErr ''schema'' m])
     @ (if IsZero (fIdentity f) then []
        else case validateIdentity (fIdentity f) of None \<Rightarrow> [] | Some m \<Rightarrow> [DErr ''identity'' m])
     @ concat (map (\<lambda>res. case fmlookup (fGenerations f) res of
                 None \<Rightarrow> []
               | Some g \<Rightarrow>
                   if g \<le> 0 \<or> fVersion f < g
                   then [DErr (''generations.'' @ res) (''generation %d outside 1..version %d'', [AInt g, AInt (fVersion f)])]
                   else [])
             (sortedKeys (fGenerations f)))"

subsection \<open>Parts of a placement\<close>

definition validateRamp :: "string \<Rightarrow> string \<Rightarrow> ramp option \<Rightarrow> dverr list" where
  "validateRamp k state ro =
     (case ro of
        Some r \<Rightarrow>
          (if state \<noteq> StateRamping then [DErr (k @ ''.ramp'') (''only allowed in state RAMPING'', [])] else [])
          @ (if \<not> validRampHashName (rHash r)
             then [DErr (k @ ''.ramp.hash'') (''required: the name of the hash that splits the keys of the ramp, e.g. %s; got %q'', [AStr RampHash, AStr (rHash r)])]
             else [])
          @ (if flt (rRatio r) (Fin 0) \<or> flt (Fin 1) (rRatio r)
             then [DErr (k @ ''.ramp.ratio'') (''must be within [0, 1], got %v'', [AFloat (rRatio r)])] else [])
          @ (if feq (rRatio r) (Fin 0) \<and> rPrefixes r = [] \<and> rHold r = None
             then [DErr (k @ ''.ramp'') (''needs a ratio or at least one prefix'', [])] else [])
          @ (case rHold r of
               None \<Rightarrow> []
             | Some h \<Rightarrow>
                 (if flt (hRatio h) (Fin 0) \<or> flt (Fin 1) (hRatio h)
                  then [DErr (k @ ''.ramp.hold.ratio'') (''must be within [0, 1], got %v'', [AFloat (hRatio h)])] else [])
                 @ (if feq (hRatio h) (Fin 0) \<and> hPrefixes h = []
                    then [DErr (k @ ''.ramp.hold'') (''needs a ratio or at least one prefix'', [])] else []))
      | None \<Rightarrow> if state = StateRamping then [DErr (k @ ''.ramp'') (''required in state RAMPING'', [])] else [])
     @ (case ro of
          Some r \<Rightarrow>
            (case rRange r of
               Some rg \<Rightarrow> if rgTo rg < rgFrom rg then [DErr (k @ ''.ramp.range'') (''from is after to'', [])] else []
             | None \<Rightarrow> [])
        | None \<Rightarrow> [])"

definition validateBarrier :: "string \<Rightarrow> placement \<Rightarrow> dverr list" where
  "validateBarrier k p =
     (case pBarrier p of
        None \<Rightarrow> []
      | Some b \<Rightarrow>
          (case validateBarrierOf b of
             Some e \<Rightarrow> [DErr (k @ ''.barrier'') (''%v'', [ABarrier e])]
           | None \<Rightarrow>
               if bKind b = BarrierSource \<and> pState p \<noteq> StateCutover
               then [DErr (k @ ''.barrier.kind'')
                      (''a source barrier is only written on a placement in CUTOVER; the placement is %s'', [AStr (pState p)])]
               else []))"

definition validateTier :: "(string, cluster) fmap \<Rightarrow> string \<Rightarrow> placement \<Rightarrow> dverr list" where
  "validateTier clusters k p =
     (if pTier p \<noteq> '''' \<and> pTier p \<notin> set tierModes then dirOneOf (k @ ''.tier'') (pTier p) tierModes
      else if pTier p = '''' then
        (if pCold p \<noteq> '''' then [DErr (k @ ''.tier'') (''required when cold is set; one of %s'', [AStrs tierModes])] else [])
        @ (if pLifecycle p \<noteq> '''' then [DErr (k @ ''.tier'') (''required when lifecycle is set'', [])] else [])
      else if pTier p = ''native'' then
        (if pCold p \<noteq> '''' then [DErr (k @ ''.cold'') (''not allowed with tier: native; the backend owns its classes'', [])] else [])
        @ (case fmlookup clusters (pPrimary p) of
             Some cl \<Rightarrow>
               if cStorageClasses cl \<noteq> ''native''
               then [DErr (k @ ''.tier'') (''native requires clusters.%s.storage_classes: native'', [AStr (pPrimary p)])] else []
           | None \<Rightarrow> [])
      else
        (if pCold p = '''' then [DErr (k @ ''.cold'') (''required with tier: emulated'', [])]
         else case fmlookup clusters (pCold p) of
                None \<Rightarrow> dirRef clusters (k @ ''.cold'') (pCold p)
              | Some cl \<Rightarrow>
                  (if cStorageClass cl = ''''
                   then [DErr (k @ ''.cold'') (''cluster %q has no storage_class; an emulated cold cluster must state one'', [AStr (pCold p)])]
                   else [])
                  @ (if pCold p = pPrimary p then [DErr (k @ ''.cold'') (''must differ from primary'', [])] else [])))"

subsection \<open>Backend buckets\<close>

text \<open>\<^verbatim>\<open>used\<close>: who claimed a backend bucket, by cluster and name. A bucket is claimed or reported.\<close>

type_synonym used = "(string \<times> string, string) fmap"

definition claim :: "string \<Rightarrow> string \<Rightarrow> string \<Rightarrow> string \<Rightarrow> dverr list \<times> used \<Rightarrow> dverr list \<times> used" where
  "claim key pk cl name eu =
     (let (e, used) = eu in
      case fmlookup used (cl, name) of
        Some other \<Rightarrow>
          (e @ [DErr key (''backend bucket %q on cluster %q is already used by placement %q; placements must never share a backend bucket'',
                          [AStr name, AStr cl, AStr other])], used)
      | None \<Rightarrow> (e, fmupd (cl, name) pk used))"

definition validateName :: "(string, cluster) fmap \<Rightarrow> string \<Rightarrow> string \<Rightarrow> placement \<Rightarrow> dverr list \<times> used \<Rightarrow> string \<Rightarrow> dverr list \<times> used" where
  "validateName clusters k pk p eu cl =
     (let nk = k @ ''.names.'' @ cl; name = getStr (namesOf p) cl; (e, used) = eu; e = e @ dirRef clusters nk cl in
      if name = '''' then (e @ [DErr nk (''backend bucket name is empty'', [])], used)
      else if \<not> ValidBucketName name then (e @ [DErr nk (''%q is not a valid S3 bucket name'', [AStr name])], used)
      else claim nk pk cl name (e, used))"

definition validateLeg :: "(string, cluster) fmap \<Rightarrow> string \<Rightarrow> string \<Rightarrow> placement \<Rightarrow> dverr list \<times> used \<Rightarrow> string \<Rightarrow> dverr list \<times> used" where
  "validateLeg clusters k pk p eu i =
     (let l = getLeg (legsOf p) i; lk = k @ ''.legs.'' @ i; (e, used) = eu; r = dirRef clusters (lk @ ''.cluster'') (lCluster l) in
      if r \<noteq> [] then (e @ r, used)
      else if \<not> ValidBucketName (lBucket l)
      then (e @ [DErr (lk @ ''.bucket'') (''%q is not a valid S3 bucket name'', [AStr (lBucket l)])], used)
      else claim (lk @ ''.bucket'') pk (lCluster l) (lBucket l) (e, used))"

definition optErr :: "string \<Rightarrow> message option \<Rightarrow> dverr list" where
  "optErr k m = (case m of None \<Rightarrow> [] | Some m \<Rightarrow> [DErr k m])"

definition validateSpread :: "(string, cluster) fmap \<Rightarrow> string \<Rightarrow> string \<Rightarrow> placement \<Rightarrow> used \<Rightarrow> dverr list \<times> used" where
  "validateSpread clusters k pk p used =
     (if checkV2 p \<noteq> None then (optErr k (checkV2 p), used)
      else foldl (validateLeg clusters k pk p)
        (optErr k (checkSpread p)
         @ (case pMove p of None \<Rightarrow> [] | Some m \<Rightarrow> validateRamp (k @ ''.move'') (pState p) (mRamp m))
         @ validateBarrier k p
         @ (if pPrimary p \<noteq> '''' \<or> pSource p \<noteq> '''' \<or> pNames p \<noteq> None \<or> pRamp p \<noteq> None \<or> pCutover p \<noteq> None
            then [DErr k (''a placement spread over legs names its buckets in legs, not in primary, source, names, ramp or cutover'', [])]
            else []), used)
        (sortedKeys (legsOf p)))"

subsection \<open>Placements\<close>

definition validateKey :: "dir_file \<Rightarrow> string \<Rightarrow> string \<Rightarrow> dverr list" where
  "validateKey f k pk =
     (case SplitKey pk of
        (tenant, bucket, ok) \<Rightarrow>
          if \<not> ok \<or> CHR ''/'' \<in> set bucket then [DErr k (''key must be <tenant>/<bucket>'', [])]
          else (if \<not> hasKey (fTenants f) tenant then [DErr k (''unknown tenant %q'', [AStr tenant])] else [])
               @ (if \<not> ValidBucketName bucket then [DErr k (''%q is not a valid S3 bucket name'', [AStr bucket])] else []))"

definition validateRoles :: "(string, cluster) fmap \<Rightarrow> string \<Rightarrow> placement \<Rightarrow> dverr list" where
  "validateRoles clusters k p =
     (let migrating = pState p \<noteq> StateActive in
      dirRef clusters (k @ ''.primary'') (pPrimary p)
      @ (if pTarget p = '''' then []
         else if migrating
         then [DErr (k @ ''.target'') (''only allowed in state ACTIVE; a move in progress names its clusters in primary and source'', [])]
         else if pTarget p = pPrimary p then [DErr (k @ ''.target'') (''must differ from primary'', [])]
         else if dirRef clusters (k @ ''.target'') (pTarget p) \<noteq> [] then dirRef clusters (k @ ''.target'') (pTarget p)
         else if \<not> hasKey (namesOf p) (pTarget p)
         then [DErr (k @ ''.names'') (''missing backend bucket name for target cluster %q'', [AStr (pTarget p)])]
         else [])
      @ (if pCutover p \<noteq> None \<and> pState p \<noteq> StateCutover then [DErr (k @ ''.cutover'') (''only allowed in state CUTOVER'', [])] else [])
      @ validateBarrier k p
      @ (if migrating \<and> pSource p = '''' then [DErr (k @ ''.source'') (''required in state %s'', [AStr (pState p)])]
         else if \<not> migrating \<and> pSource p \<noteq> '''' then [DErr (k @ ''.source'') (''not allowed in state ACTIVE'', [])]
         else if pSource p \<noteq> ''''
         then dirRef clusters (k @ ''.source'') (pSource p)
              @ (if pSource p = pPrimary p then [DErr (k @ ''.source'') (''must differ from primary'', [])] else [])
         else [])
      @ validateRamp k (pState p) (pRamp p))"

definition missingName :: "(string, cluster) fmap \<Rightarrow> string \<Rightarrow> placement \<Rightarrow> string \<Rightarrow> dverr list" where
  "missingName clusters k p cl =
     (if cl = '''' \<or> \<not> hasKey clusters cl \<or> hasKey (namesOf p) cl then []
      else [DErr (k @ ''.names'') (''missing backend bucket name for cluster %q'', [AStr cl])])"

definition validatePlain :: "(string, cluster) fmap \<Rightarrow> string \<Rightarrow> string \<Rightarrow> placement \<Rightarrow> used \<Rightarrow> dverr list \<times> used" where
  "validatePlain clusters k pk p used =
     (let (e, used) = foldl (validateName clusters k pk p) (validateRoles clusters k p, used) (sortedKeys (namesOf p))
      in (e @ concat (map (missingName clusters k p) [pPrimary p, pSource p, pCold p]) @ validateTier clusters k p, used))"

definition validatePlacement :: "dir_file \<Rightarrow> dverr list \<times> used \<Rightarrow> string \<Rightarrow> dverr list \<times> used" where
  "validatePlacement f eu pk =
     (case getPlacement f pk of
        None \<Rightarrow> eu
      | Some p \<Rightarrow>
          let k = ''placements.'' @ pk; (e, used) = eu; e = e @ validateKey f k pk @ dirOneOf (k @ ''.state'') (pState p) States in
          if pState p \<notin> set States then (e, used)
          else let (e', used) = (if Spread p then validateSpread (fClusters f) k pk p used
                                 else validatePlain (fClusters f) k pk p used)
               in (e @ e', used))"

definition validateTenant :: "dir_file \<Rightarrow> string \<Rightarrow> dverr list" where
  "validateTenant f name =
     (let k = ''tenants.'' @ name in
      (if \<not> validTenant name
       then [DErr k (''tenant names are 1-32 lowercase letters, digits, and hyphens, starting and ending with a letter or digit'', [])]
       else [])
      @ (case fmlookup (fTenants f) name of
           None \<Rightarrow> []
         | Some t \<Rightarrow>
             if tnDefaultCluster t = '''' then [DErr (k @ ''.default_cluster'') (''required'', [])]
             else if \<not> hasKey (fClusters f) (tnDefaultCluster t)
             then [DErr (k @ ''.default_cluster'') (''unknown cluster %q'', [AStr (tnDefaultCluster t)])]
             else []))"

definition validate :: "dir_file \<Rightarrow> dverr list" where
  "validate f =
     (if fVersion f < 0 then [DErr ''version'' (''must not be negative'', [])] else [])
     @ validateLineage f
     @ map DCluster (ValidateClusters ''clusters'' (fClusters f))
     @ concat (map (validateTenant f) (sortedKeys (fTenants f)))
     @ fst (foldl (validatePlacement f) ([], fmempty) (sortedKeys (fPlacements f)))"

subsection \<open>What an accepted file has\<close>

text \<open>A loop that appends errors and adds claims: when it ends without errors, it had none before, and no
  two of its claims met.\<close>

lemma foldl_claims:
  assumes step: "\<And>eu x u'. g eu x = ([], u') \<Longrightarrow>
      fst eu = [] \<and> B x \<inter> fmdom' (snd eu) = {} \<and> fmdom' u' = fmdom' (snd eu) \<union> B x \<and> Q x"
  shows "foldl g eu xs = ([], u') \<Longrightarrow> distinct xs \<Longrightarrow>
      fst eu = [] \<and> (\<Union>x \<in> set xs. B x) \<inter> fmdom' (snd eu) = {} \<and> fmdom' u' = fmdom' (snd eu) \<union> (\<Union>x \<in> set xs. B x) \<and>
      (\<forall>x \<in> set xs. Q x) \<and> (\<forall>x \<in> set xs. \<forall>y \<in> set xs. x \<noteq> y \<longrightarrow> B x \<inter> B y = {})"
proof (induction xs arbitrary: eu)
  case Nil
  then show ?case by simp
next
  case (Cons x xs)
  obtain e1 u1 where 1: "g eu x = (e1, u1)" by fastforce
  have IH: "e1 = [] \<and> (\<Union>x \<in> set xs. B x) \<inter> fmdom' u1 = {} \<and> fmdom' u' = fmdom' u1 \<union> (\<Union>x \<in> set xs. B x) \<and>
      (\<forall>x \<in> set xs. Q x) \<and> (\<forall>x \<in> set xs. \<forall>y \<in> set xs. x \<noteq> y \<longrightarrow> B x \<inter> B y = {})"
    using Cons.IH [of "(e1, u1)"] Cons.prems 1 by simp
  moreover have "fst eu = [] \<and> B x \<inter> fmdom' (snd eu) = {} \<and> fmdom' u1 = fmdom' (snd eu) \<union> B x \<and> Q x"
    using step [of eu x u1] 1 IH by simp
  ultimately show ?case by auto
qed

lemma claim_Nil:
  assumes "claim key pk cl name eu = ([], u')"
  shows "fst eu = []" "(cl, name) \<notin> fmdom' (snd eu)" "fmdom' u' = insert (cl, name) (fmdom' (snd eu))"
  using assms by (auto simp: claim_def fmdom'_alt_def fmdom'I split: prod.splits option.splits)

lemma validateLeg_Nil:
  assumes "validateLeg clusters k pk p eu i = ([], u')"
  shows "fst eu = [] \<and> {legBucket p i} \<inter> fmdom' (snd eu) = {} \<and> fmdom' u' = fmdom' (snd eu) \<union> {legBucket p i} \<and>
    (hasKey clusters (lCluster (getLeg (legsOf p) i)) \<and> ValidBucketName (lBucket (getLeg (legsOf p) i)))"
proof -
  obtain e u where eu: "eu = (e, u)" by fastforce
  have r: "dirRef clusters ((k @ ''.legs.'' @ i) @ ''.cluster'') (lCluster (getLeg (legsOf p) i)) = []"
    and v: "ValidBucketName (lBucket (getLeg (legsOf p) i))"
    and c: "claim ((k @ ''.legs.'' @ i) @ ''.bucket'') pk (lCluster (getLeg (legsOf p) i)) (lBucket (getLeg (legsOf p) i)) (e, u) = ([], u')"
    using assms by (auto simp: validateLeg_def eu Let_def split: if_split_asm)
  then show ?thesis using claim_Nil [OF c] by (auto simp: eu legBucket_def dirRef_def split: if_split_asm)
qed

lemma validateName_Nil:
  assumes "validateName clusters k pk p eu cl = ([], u')"
  shows "fst eu = [] \<and> {(cl, getStr (namesOf p) cl)} \<inter> fmdom' (snd eu) = {} \<and>
    fmdom' u' = fmdom' (snd eu) \<union> {(cl, getStr (namesOf p) cl)} \<and>
    (hasKey clusters cl \<and> ValidBucketName (getStr (namesOf p) cl))"
proof -
  obtain e u where eu: "eu = (e, u)" by fastforce
  have v: "ValidBucketName (getStr (namesOf p) cl)"
    and c: "claim (k @ ''.names.'' @ cl) pk cl (getStr (namesOf p) cl) (e @ dirRef clusters (k @ ''.names.'' @ cl) cl, u) = ([], u')"
    using assms by (auto simp: validateName_def eu Let_def split: if_split_asm)
  then show ?thesis using claim_Nil [OF c] by (auto simp: eu dirRef_def split: if_split_asm)
qed

definition backendBuckets :: "placement \<Rightarrow> (string \<times> string) list" where
  "backendBuckets p =
     (if Spread p then map (legBucket p) (sortedKeys (legsOf p))
      else map (\<lambda>cl. (cl, getStr (namesOf p) cl)) (sortedKeys (namesOf p)))"

text \<open>What \<open>validatePlacement\<close> finds in order, apart from the claims.\<close>

definition spread_valid :: "dir_file \<Rightarrow> string \<Rightarrow> placement \<Rightarrow> bool" where
  "spread_valid f k p \<longleftrightarrow>
     checkV2 p = None \<and> checkSpread p = None \<and>
     (\<forall>m. pMove p = Some m \<longrightarrow> validateRamp (k @ ''.move'') (pState p) (mRamp m) = []) \<and> validateBarrier k p = [] \<and>
     pPrimary p = '''' \<and> pSource p = '''' \<and> pNames p = None \<and> pRamp p = None \<and> pCutover p = None \<and>
     (\<forall>i. hasKey (legsOf p) i \<longrightarrow> hasKey (fClusters f) (lCluster (getLeg (legsOf p) i)) \<and> ValidBucketName (lBucket (getLeg (legsOf p) i))) \<and>
     inj_on (legBucket p) {i. hasKey (legsOf p) i}"

definition plain_valid :: "dir_file \<Rightarrow> string \<Rightarrow> placement \<Rightarrow> bool" where
  "plain_valid f k p \<longleftrightarrow>
     validateRoles (fClusters f) k p = [] \<and>
     (\<forall>cl. hasKey (namesOf p) cl \<longrightarrow> hasKey (fClusters f) cl \<and> ValidBucketName (getStr (namesOf p) cl)) \<and>
     (\<forall>cl \<in> {pPrimary p, pSource p, pCold p}. missingName (fClusters f) k p cl = []) \<and> validateTier (fClusters f) k p = []"

definition placement_valid :: "dir_file \<Rightarrow> string \<Rightarrow> placement \<Rightarrow> bool" where
  "placement_valid f pk p \<longleftrightarrow>
     validateKey f (''placements.'' @ pk) pk = [] \<and> pState p \<in> set States \<and>
     (if Spread p then spread_valid f (''placements.'' @ pk) p else plain_valid f (''placements.'' @ pk) p)"

lemma optErr_Nil [simp]: "optErr k m = [] \<longleftrightarrow> m = None"
  by (simp add: optErr_def split: option.split)

lemma validateSpread_Nil:
  assumes "validateSpread (fClusters f) k pk p u = ([], u')" "Spread p"
  shows "spread_valid f k p" "set (backendBuckets p) \<inter> fmdom' u = {}" "fmdom' u' = fmdom' u \<union> set (backendBuckets p)"
proof -
  have c: "checkV2 p = None"
  proof (rule ccontr)
    assume "checkV2 p \<noteq> None"
    then show False using assms(1) by (simp add: validateSpread_def)
  qed
  define e0 where "e0 = optErr k (checkSpread p)
         @ (case pMove p of None \<Rightarrow> [] | Some m \<Rightarrow> validateRamp (k @ ''.move'') (pState p) (mRamp m))
         @ validateBarrier k p
         @ (if pPrimary p \<noteq> '''' \<or> pSource p \<noteq> '''' \<or> pNames p \<noteq> None \<or> pRamp p \<noteq> None \<or> pCutover p \<noteq> None
            then [DErr k (''a placement spread over legs names its buckets in legs, not in primary, source, names, ramp or cutover'', [])]
            else [])"
  have f: "foldl (validateLeg (fClusters f) k pk p) (e0, u) (sortedKeys (legsOf p)) = ([], u')"
    using assms(1) c by (simp add: validateSpread_def e0_def)
  note g = foldl_claims [where B = "\<lambda>i. {legBucket p i}", OF validateLeg_Nil [of "fClusters f" k pk p] f distinct_sortedKeys]
  then have "e0 = []" by simp
  then show "spread_valid f k p" using g c
    by (auto simp: spread_valid_def e0_def inj_on_def split: option.splits if_split_asm)
  show "set (backendBuckets p) \<inter> fmdom' u = {}" "fmdom' u' = fmdom' u \<union> set (backendBuckets p)"
    using g assms(2) by (auto simp: backendBuckets_def)
qed

lemma validatePlain_Nil:
  assumes "validatePlain (fClusters f) k pk p u = ([], u')" "\<not> Spread p"
  shows "plain_valid f k p" "set (backendBuckets p) \<inter> fmdom' u = {}" "fmdom' u' = fmdom' u \<union> set (backendBuckets p)"
proof -
  obtain u1 where f: "foldl (validateName (fClusters f) k pk p) (validateRoles (fClusters f) k p, u) (sortedKeys (namesOf p)) = ([], u1)"
      "u' = u1" "concat (map (missingName (fClusters f) k p) [pPrimary p, pSource p, pCold p]) = []" "validateTier (fClusters f) k p = []"
    using assms(1) by (auto simp: validatePlain_def split: prod.splits)
  note g = foldl_claims [where B = "\<lambda>cl. {(cl, getStr (namesOf p) cl)}", OF validateName_Nil [of "fClusters f" k pk p] f(1) distinct_sortedKeys]
  show "plain_valid f k p" using g f(3,4) by (auto simp: plain_valid_def)
  show "set (backendBuckets p) \<inter> fmdom' u = {}" "fmdom' u' = fmdom' u \<union> set (backendBuckets p)"
    using g assms(2) f(2) by (auto simp: backendBuckets_def)
qed

lemma validatePlacement_Nil:
  assumes "validatePlacement f eu pk = ([], u')" "getPlacement f pk = Some p"
  shows "fst eu = [] \<and> set (backendBuckets p) \<inter> fmdom' (snd eu) = {} \<and>
    fmdom' u' = fmdom' (snd eu) \<union> set (backendBuckets p) \<and> placement_valid f pk p"
proof -
  obtain e u where eu: "eu = (e, u)" by fastforce
  let ?k = "''placements.'' @ pk"
  have s: "pState p \<in> set States"
    using assms by (auto simp: validatePlacement_def eu dirOneOf_def Let_def split: if_split_asm)
  obtain e' where v: "(if Spread p then validateSpread (fClusters f) ?k pk p u else validatePlain (fClusters f) ?k pk p u) = (e', u')"
      "e @ validateKey f ?k pk @ dirOneOf (?k @ ''.state'') (pState p) States @ e' = []"
    using assms s by (auto simp: validatePlacement_def eu Let_def split: prod.splits if_split_asm)
  then show ?thesis
    using s validateSpread_Nil [of f ?k pk p u u'] validatePlain_Nil [of f ?k pk p u u']
    by (cases "Spread p") (simp_all add: eu placement_valid_def)
qed

lemma validate_placements:
  assumes "validate f = []"
  shows "\<And>k p. getPlacement f k = Some p \<Longrightarrow> placement_valid f k p"
    and "\<And>k k' p p'. getPlacement f k = Some p \<Longrightarrow> getPlacement f k' = Some p' \<Longrightarrow> k \<noteq> k' \<Longrightarrow>
      set (backendBuckets p) \<inter> set (backendBuckets p') = {}"
proof -
  define B where "B k = (case getPlacement f k of None \<Rightarrow> {} | Some p \<Rightarrow> set (backendBuckets p))" for k
  define Q where "Q k = (\<forall>p. getPlacement f k = Some p \<longrightarrow> placement_valid f k p)" for k
  obtain u' where fold: "foldl (validatePlacement f) ([], fmempty) (sortedKeys (fPlacements f)) = ([], u')"
    using assms by (cases "foldl (validatePlacement f) ([], fmempty) (sortedKeys (fPlacements f))") (simp add: validate_def)
  have step: "fst eu = [] \<and> B k \<inter> fmdom' (snd eu) = {} \<and> fmdom' u'' = fmdom' (snd eu) \<union> B k \<and> Q k"
    if "validatePlacement f eu k = ([], u'')" for eu k u''
  proof (cases "getPlacement f k")
    case None
    then show ?thesis using that by (simp add: validatePlacement_def B_def Q_def)
  next
    case (Some p)
    from validatePlacement_Nil [OF that Some] show ?thesis by (simp add: B_def Q_def Some)
  qed
  note g = foldl_claims [of "validatePlacement f" B Q, OF step fold distinct_sortedKeys]
  have k: "k \<in> set (sortedKeys (fPlacements f))" if "getPlacement f k = Some p" for k p
    using that by (simp add: getPlacement_def fmdomI)
  show "placement_valid f k p" if "getPlacement f k = Some p" for k p
    using g k [OF that] that by (simp only: Q_def)
  show "set (backendBuckets p) \<inter> set (backendBuckets p') = {}"
    if "getPlacement f k = Some p" "getPlacement f k' = Some p'" "k \<noteq> k'" for k k' p p'
  proof -
    have "B k \<inter> B k' = {}" using g k [OF that(1)] k [OF that(2)] that(3) by blast
    then show ?thesis using that by (simp add: B_def)
  qed
qed

text \<open>The shape the routing lemmas assume. Validation leaves two things open: whether this build knows the
  hash a placement names, and that a ratio is a number.\<close>

definition ramp_known :: "ramp option \<Rightarrow> bool" where
  "ramp_known ro \<longleftrightarrow> (\<forall>r. ro = Some r \<longrightarrow> rHash r = RampHash \<and> isDouble (rRatio r) \<and> rRatio r \<noteq> NaN \<and>
     (\<forall>h. rHold r = Some h \<longrightarrow> isDouble (hRatio h) \<and> hRatio h \<noteq> NaN))"

definition routable :: "placement \<Rightarrow> bool" where
  "routable p \<longleftrightarrow> pLegClusters p = fmempty \<and>
     (if Spread p then pKeyHash p = RampHash \<and> (\<forall>m. pMove p = Some m \<longrightarrow> ramp_known (mRamp m))
      else ramp_known (pRamp p) \<and> (\<forall>r. pRamp p = Some r \<longrightarrow> rRange r = None))"

lemma in_unit: "\<not> flt x (Fin 0) \<Longrightarrow> \<not> flt (Fin 1) x \<Longrightarrow> isDouble x \<Longrightarrow> x \<noteq> NaN \<Longrightarrow> ratio_ok x"
  by (cases x) (auto simp: ratio_ok_def fle_def)

lemma validateRamp_ok:
  assumes "validateRamp k s ro = []" "ramp_known ro"
  shows "ramp_ok ro" "ro \<noteq> None \<longleftrightarrow> s = StateRamping"
  using assms in_unit
  by (auto simp: validateRamp_def ramp_known_def ramp_ok_def ratios_ok_def split: option.splits if_split_asm)

lemma placement_valid_ok:
  assumes v: "placement_valid f k p" and r: "routable p"
  shows "placement_ok p"
proof (cases "Spread p")
  case True
  then have s: "spread_valid f (''placements.'' @ k) p" using v by (simp add: placement_valid_def)
  have "ramp_ok (mRamp m)" if "pMove p = Some m" for m
    using s r True that validateRamp_ok(1) by (auto simp: spread_valid_def routable_def)
  then show ?thesis using s r True by (simp add: placement_ok_def spread_ok_def spread_valid_def routable_def)
next
  case False
  then have s: "validateRoles (fClusters f) (''placements.'' @ k) p = []" using v by (simp add: placement_valid_def plain_valid_def)
  have "pPrimary p \<noteq> ''''" "pState p = StateActive \<longleftrightarrow> pSource p = ''''" "validateRamp (''placements.'' @ k) (pState p) (pRamp p) = []"
    using s by (auto simp: validateRoles_def dirRef_def Let_def split: if_split_asm)
  then show ?thesis
    using False r validateRamp_ok [of "''placements.'' @ k" "pState p" "pRamp p"]
    by (auto simp: placement_ok_def plain_ok_def routable_def)
qed

subsection \<open>Removing a cluster\<close>

lemma References_Nil:
  assumes "References f name = []"
  shows "\<And>t tn. fmlookup (fTenants f) t = Some tn \<Longrightarrow> tnDefaultCluster tn \<noteq> name"
    and "\<And>k p. getPlacement f k = Some p \<Longrightarrow>
      pPrimary p \<noteq> name \<and> pSource p \<noteq> name \<and> pTarget p \<noteq> name \<and> pCold p \<noteq> name \<and> \<not> hasKey (namesOf p) name \<and>
      (\<forall>i \<in> set (sortedKeys (legsOf p)). lCluster (getLeg (legsOf p) i) \<noteq> name)"
proof -
  note c = assms [unfolded References_def append_is_Nil_conv map_is_Nil_conv filter_empty_conv]
  note t = conjunct1 [OF c] and p = conjunct2 [OF c]
  show "tnDefaultCluster tn \<noteq> name" if "fmlookup (fTenants f) t = Some tn" for t tn
  proof -
    have "t \<in> set (sortedKeys (fTenants f))" using that by (simp add: fmdomI)
    from bspec [OF t this] that show ?thesis by simp
  qed
  show "pPrimary p \<noteq> name \<and> pSource p \<noteq> name \<and> pTarget p \<noteq> name \<and> pCold p \<noteq> name \<and> \<not> hasKey (namesOf p) name \<and>
      (\<forall>i \<in> set (sortedKeys (legsOf p)). lCluster (getLeg (legsOf p) i) \<noteq> name)" if "getPlacement f k = Some p" for k p
  proof -
    have "k \<in> set (sortedKeys (fPlacements f))" using that by (simp add: getPlacement_def fmdomI)
    from bspec [OF p this] that show ?thesis by (simp add: getPlacement_def list_ex_iff del: hasKey_iff)
  qed
qed

lemma hasKey_fmdrop: "hasKey (fmdrop a m) k \<longleftrightarrow> k \<noteq> a \<and> hasKey m k"
  by auto

lemma dirRef_fmdrop: "n \<noteq> name \<Longrightarrow> dirRef (fmdrop name cs) key n = dirRef cs key n"
  by (simp add: dirRef_def)

lemma validateSpread_fmdrop:
  assumes "\<forall>i \<in> set (sortedKeys (legsOf p)). lCluster (getLeg (legsOf p) i) \<noteq> name"
  shows "validateSpread (fmdrop name cs) k pk p u = validateSpread cs k pk p u"
proof -
  have "foldl (validateLeg (fmdrop name cs) k pk p) eu (sortedKeys (legsOf p)) = foldl (validateLeg cs k pk p) eu (sortedKeys (legsOf p))" for eu
    by (rule foldl_cong) (use assms in \<open>auto simp: validateLeg_def dirRef_fmdrop\<close>)
  then show ?thesis by (simp add: validateSpread_def)
qed

lemma validatePlain_fmdrop:
  assumes "pPrimary p \<noteq> name" "pSource p \<noteq> name" "pTarget p \<noteq> name" "pCold p \<noteq> name" "\<not> hasKey (namesOf p) name"
  shows "validatePlain (fmdrop name cs) k pk p u = validatePlain cs k pk p u"
proof -
  have "foldl (validateName (fmdrop name cs) k pk p) eu (sortedKeys (namesOf p)) = foldl (validateName cs k pk p) eu (sortedKeys (namesOf p))" for eu
  proof (rule foldl_cong)
    fix eu x assume "x \<in> set (sortedKeys (namesOf p))"
    then have "x \<noteq> name" using assms(5) by auto
    then show "validateName (fmdrop name cs) k pk p eu x = validateName cs k pk p eu x" by (simp add: validateName_def dirRef_fmdrop)
  qed simp_all
  moreover have "validateRoles (fmdrop name cs) k p = validateRoles cs k p"
    using assms by (simp add: validateRoles_def dirRef_fmdrop)
  moreover have "missingName (fmdrop name cs) k p cl = missingName cs k p cl" if "cl \<in> {pPrimary p, pSource p, pCold p}" for cl
    using that assms by (auto simp: missingName_def)
  moreover have "validateTier (fmdrop name cs) k p = validateTier cs k p"
    using assms by (cases "fmlookup cs (pCold p)") (simp_all add: validateTier_def dirRef_fmdrop)
  ultimately show ?thesis by (simp add: validatePlain_def)
qed

lemma RemoveCluster_valid:
  assumes v: "validate f = []" and r: "RemoveCluster f name = Inr f'"
  shows "validate f' = []"
proof -
  have refs: "References f name = []" and f': "f' = f\<lparr>fClusters := fmdrop name (fClusters f)\<rparr>"
    using r by (simp_all add: RemoveCluster_def split: if_split_asm)
  note n = References_Nil [OF refs]
  have cl: "ValidateClusters ''clusters'' (fClusters f') = []"
    using v by (auto simp: validate_def ValidateClusters_def f')
  have tn: "validateTenant f' t = validateTenant f t" for t
    using n(1) [of t] by (cases "fmlookup (fTenants f) t") (simp_all add: validateTenant_def f' Let_def)
  have pl: "validatePlacement f' eu k = validatePlacement f eu k" for eu k
  proof (cases "getPlacement f k")
    case (Some p)
    have "validateKey f' kk k = validateKey f kk k" for kk by (simp add: validateKey_def f' split: prod.split)
    then show ?thesis
      using Some n(2) [OF Some] validateSpread_fmdrop [of p name "fClusters f"] validatePlain_fmdrop [of p name "fClusters f"]
      by (simp add: validatePlacement_def getPlacement_def f' Let_def del: hasKey_iff split: prod.split)
  qed (simp add: validatePlacement_def getPlacement_def f')
  have "foldl (validatePlacement f') eu ks = foldl (validatePlacement f) eu ks" for eu ks
    by (rule foldl_cong) (simp_all add: pl)
  moreover have sel: "fVersion f' = fVersion f" "fSchema f' = fSchema f" "fIdentity f' = fIdentity f"
      "fGenerations f' = fGenerations f" "fTenants f' = fTenants f" "fPlacements f' = fPlacements f" by (simp_all add: f')
  moreover have "validateLineage f' = validateLineage f" by (simp only: validateLineage_def sel)
  ultimately show ?thesis using v cl tn by (simp add: validate_def)
qed

end
