(* ===== verification/Sha256.thy ===== *)
theory Sha256
  imports Prelude
begin

text \<open>
  SHA-256 as \<^verbatim>\<open>crypto/sha256\<close> computes it (FIPS 180-4): backend bucket names, the file backend's
  change detection and signatures use it. Bytes are characters; the state is eight 32-bit words.
\<close>

type_synonym u32 = "32 word"

definition rotr :: "nat \<Rightarrow> u32 \<Rightarrow> u32" where
  "rotr n x = drop_bit n x OR push_bit (32 - n) x"

text \<open>The constants are the first 32 bits of the fractional parts of roots of the first primes: cube roots for the
  rounds, square roots for the initial state. \<open>rootBits k n b 0\<close> is the integer \<open>k\<close>-th root of \<open>n\<close> when it has at
  most \<open>b\<close> bits.\<close>

fun rootBits :: "nat \<Rightarrow> nat \<Rightarrow> nat \<Rightarrow> nat \<Rightarrow> nat" where
  "rootBits k n 0 r = r"
| "rootBits k n (Suc b) r = (let r' = r + 2 ^ b in rootBits k n b (if r' ^ k \<le> n then r' else r))"

definition primesTo :: "nat \<Rightarrow> nat list" where
  "primesTo m = filter (\<lambda>n. list_all (\<lambda>d. n mod d \<noteq> 0) [2..<n]) [2..<Suc m]"

definition rootFraction :: "nat \<Rightarrow> nat \<Rightarrow> u32" where
  "rootFraction k p = of_nat (rootBits k (p * 2 ^ (32 * k)) 40 0)"

definition sha256K :: "u32 list" where
  "sha256K = map (rootFraction 3) (primesTo 311)"

definition sha256Init :: "u32 list" where
  "sha256Init = map (rootFraction 2) (primesTo 19)"

lemma rootBits_root:
  assumes "r ^ k \<le> n" "n < (r + 2 ^ b) ^ k"
  shows "rootBits k n b r ^ k \<le> n \<and> n < (rootBits k n b r + 1) ^ k"
  using assms
proof (induction b arbitrary: r)
  case (Suc b)
  show ?case
  proof (cases "(r + 2 ^ b) ^ k \<le> n")
    case True
    have "n < (r + 2 ^ b + 2 ^ b) ^ k" using Suc.prems(2) by (simp add: mult_2 add.assoc)
    with True show ?thesis using Suc.IH [of "r + 2 ^ b"] by (simp add: Let_def)
  next
    case False
    then show ?thesis using Suc.IH [of r] Suc.prems(1) by (simp add: Let_def)
  qed
qed simp

text \<open>The padding: a one bit, zeros to 56 modulo 64 bytes, and the length in bits as eight bytes.\<close>

definition beBytes :: "nat \<Rightarrow> nat \<Rightarrow> string" where
  "beBytes n x = map (\<lambda>i. char_of (x div 256 ^ (n - 1 - i) mod 256)) [0..<n]"

definition sha256Pad :: "string \<Rightarrow> string" where
  "sha256Pad m =
     m @ [char_of (128::nat)] @ replicate ((119 - length m mod 64) mod 64) (char_of (0::nat)) @ beBytes 8 (8 * length m mod 2 ^ 64)"

fun wordsOf :: "string \<Rightarrow> u32 list" where
  "wordsOf (a # b # c # d # cs) =
     of_nat (((of_char a * 256 + of_char b) * 256 + of_char c) * 256 + of_char d) # wordsOf cs"
| "wordsOf _ = []"

text \<open>The message schedule, kept newest first: the last sixteen words decide the next.\<close>

definition scheduleStep :: "u32 list \<Rightarrow> u32 list" where
  "scheduleStep ws =
     (let w2 = ws ! 1; w7 = ws ! 6; w15 = ws ! 14; w16 = ws ! 15;
          s0 = rotr 7 w15 XOR rotr 18 w15 XOR drop_bit 3 w15;
          s1 = rotr 17 w2 XOR rotr 19 w2 XOR drop_bit 10 w2
      in (w16 + s0 + w7 + s1) # ws)"

definition schedule :: "u32 list \<Rightarrow> u32 list" where
  "schedule ws = rev ((scheduleStep ^^ 48) (rev ws))"

fun sha256Round :: "u32 list \<Rightarrow> u32 \<times> u32 \<Rightarrow> u32 list" where
  "sha256Round [a, b, c, d, e, f, g, h] (k, w) =
     (let s1 = rotr 6 e XOR rotr 11 e XOR rotr 25 e;
          ch = (e AND f) XOR (NOT e AND g);
          t1 = h + s1 + ch + k + w;
          s0 = rotr 2 a XOR rotr 13 a XOR rotr 22 a;
          maj = (a AND b) XOR (a AND c) XOR (b AND c)
      in [t1 + (s0 + maj), a, b, c, d + t1, e, f, g])"
| "sha256Round st _ = st"

definition sha256Block :: "u32 list \<Rightarrow> u32 list \<Rightarrow> u32 list" where
  "sha256Block st ws = map2 (+) st (foldl sha256Round st (zip sha256K (schedule ws)))"

fun sha256Blocks :: "u32 list \<Rightarrow> u32 list \<Rightarrow> u32 list" where
  "sha256Blocks st ws =
     (if length ws < 16 then st else sha256Blocks (sha256Block st (take 16 ws)) (drop 16 ws))"

declare sha256Blocks.simps [simp del]

definition sha256 :: "string \<Rightarrow> string" where
  "sha256 m = concat (map (\<lambda>w. beBytes 4 (unat w)) (sha256Blocks sha256Init (wordsOf (sha256Pad m))))"

definition hexEncode :: "string \<Rightarrow> string" where
  "hexEncode s =
     concat (map (\<lambda>c. [''0123456789abcdef'' ! (of_char c div 16), ''0123456789abcdef'' ! (of_char c mod 16)]) s)"

lemma length_sha256Init [simp]: "length sha256Init = 8"
proof -
  have "length (primesTo 19) = 8" by code_simp
  then show ?thesis by (simp add: sha256Init_def)
qed

lemma length_sha256Block: "length st = 8 \<Longrightarrow> length (sha256Block st ws) = 8"
proof -
  have "length (sha256Round st kw) = length st" for st kw
    by (cases "(st, kw)" rule: sha256Round.cases) (simp_all add: Let_def)
  then have "length (foldl sha256Round st xs) = length st" for st xs by (induction xs arbitrary: st) simp_all
  then show "length st = 8 \<Longrightarrow> length (sha256Block st ws) = 8" by (simp add: sha256Block_def)
qed

lemma length_sha256Blocks: "length st = 8 \<Longrightarrow> length (sha256Blocks st ws) = 8"
proof (induction st ws rule: sha256Blocks.induct)
  case (1 st ws)
  then show ?case using length_sha256Block [of st "take 16 ws"] by (subst sha256Blocks.simps) simp
qed

lemma length_sha256 [simp]: "length (sha256 m) = 32"
  using length_sha256Blocks [of sha256Init "wordsOf (sha256Pad m)"]
  by (simp add: sha256_def length_concat comp_def beBytes_def sum_list_triv)

lemma length_hexEncode [simp]: "length (hexEncode s) = 2 * length s"
  by (simp add: hexEncode_def length_concat comp_def sum_list_triv)

lemma hexEncode_chars: "c \<in> set (hexEncode s) \<Longrightarrow> isDigit c \<or> (CHR ''a'' \<le> c \<and> c \<le> CHR ''f'')"
proof -
  have n: "x < 16 \<Longrightarrow> isDigit (''0123456789abcdef'' ! x) \<or> (CHR ''a'' \<le> ''0123456789abcdef'' ! x \<and> ''0123456789abcdef'' ! x \<le> CHR ''f'')" for x :: nat
    by (simp only: numeral_eq_Suc less_Suc_eq pred_numeral_simps eval_nat_numeral BitM.simps)
       (elim disjE; simp add: isDigit_def less_eq_char_def)
  assume "c \<in> set (hexEncode s)"
  then obtain x where "x \<in> set s" "c = ''0123456789abcdef'' ! (of_char x div 16) \<or> c = ''0123456789abcdef'' ! (of_char x mod 16)"
    by (auto simp: hexEncode_def)
  moreover have "of_char x div 16 < (16::nat)" by (simp add: less_mult_imp_div_less)
  moreover have "of_char x mod 16 < (16::nat)" by simp
  ultimately show ?thesis using n by blast
qed

end
