(* ===== verification/File_Store.thy ===== *)
theory File_Store
  imports Validate Sha256
begin

text \<open>
  The file backend of the directory (\<^verbatim>\<open>internal/directory/file.go\<close>, ADR-0005) and the lineage every write
  carries (\<^verbatim>\<open>Stamp\<close> of \<^verbatim>\<open>identity.go\<close>, \<^verbatim>\<open>parse\<close> of \<^verbatim>\<open>directory.go\<close>).

  The operations of \<^verbatim>\<open>Store\<close> are the datatype \<open>store_op\<close>; \<open>runOp\<close> is the method each one is. YAML decoding
  and encoding are the parameters \<open>decode\<close> and \<open>encode\<close>, the random identity a first write draws is
  \<open>drawn\<close>, and what the operating system answers is part of the arguments. The lemmas show that a write is
  all or nothing, that it raises the version by one and keeps the identity, that a reload never goes
  back, and that a generation names one content of a resource for good.
\<close>

subsection \<open>Lineage\<close>

definition PlacementResource :: "string \<Rightarrow> string" where "PlacementResource key = ''placement:'' @ key"

definition ClusterResource :: "string \<Rightarrow> string" where "ClusterResource name = ''cluster:'' @ name"

definition SecretResource :: "string \<Rightarrow> string" where "SecretResource name = ''secret:'' @ name"

definition TenantResource :: "string \<Rightarrow> string" where "TenantResource name = ''tenant:'' @ name"

definition Generation :: "dir_file \<Rightarrow> string \<Rightarrow> int" where
  "Generation f resource = (case fmlookup (fGenerations f) resource of None \<Rightarrow> 0 | Some g \<Rightarrow> g)"

text \<open>\<^verbatim>\<open>sameJSON\<close>: deep equality, or equal encodings. An encoding leaves out empty collections and the
  leg clusters of a view, and fails on a number JSON has no form for.\<close>

definition rampFloats :: "ramp option \<Rightarrow> float64 list" where
  "rampFloats ro =
     (case ro of None \<Rightarrow> [] | Some r \<Rightarrow> rRatio r # (case rHold r of None \<Rightarrow> [] | Some h \<Rightarrow> [hRatio h]))"

definition placementFloats :: "placement \<Rightarrow> float64 list" where
  "placementFloats p =
     rampFloats (pRamp p) @ (case pCutover p of None \<Rightarrow> [] | Some e \<Rightarrow> [evFallbackReads e])
     @ (case pMove p of
          None \<Rightarrow> []
        | Some m \<Rightarrow> rampFloats (mRamp m) @ (case mCutover m of None \<Rightarrow> [] | Some e \<Rightarrow> [evFallbackReads e]))"

definition dropEmptyMap :: "('a, 'b) fmap option \<Rightarrow> ('a, 'b) fmap option" where
  "dropEmptyMap m = (if mapLen (goMap m) = 0 then None else m)"

definition dropEmptySlice :: "'a list option \<Rightarrow> 'a list option" where
  "dropEmptySlice s = (if goSlice s = [] then None else s)"

definition stored :: "placement \<Rightarrow> placement" where
  "stored p = p\<lparr>pNames := dropEmptyMap (pNames p), pLegs := dropEmptyMap (pLegs p), pOwners := dropEmptySlice (pOwners p),
     pPrefixes := dropEmptySlice (pPrefixes p), pLegClusters := fmempty\<rparr>"

definition isFinite :: "float64 \<Rightarrow> bool" where
  "isFinite x = (case x of Fin _ \<Rightarrow> True | _ \<Rightarrow> False)"

definition sameJSON :: "placement \<Rightarrow> placement \<Rightarrow> bool" where
  "sameJSON a b \<longleftrightarrow>
     (a = b \<and> NaN \<notin> set (placementFloats a)) \<or>
     (list_all isFinite (placementFloats a) \<and> list_all isFinite (placementFloats b) \<and> stored a = stored b)"

definition stampRes :: "dir_file \<Rightarrow> int \<Rightarrow> string \<Rightarrow> bool \<Rightarrow> (string, int) fmap \<Rightarrow> (string, int) fmap" where
  "stampRes prev version res same gens =
     (if \<not> same then fmupd res version gens
      else if 0 < Generation prev res then fmupd res (Generation prev res) gens else gens)"

definition stampPlacements :: "dir_file \<Rightarrow> dir_file \<Rightarrow> (string, int) fmap \<Rightarrow> (string, int) fmap" where
  "stampPlacements prev next gens =
     foldl (\<lambda>gens k. stampRes prev (fVersion next) (PlacementResource k)
              (case (getPlacement prev k, getPlacement next k) of (Some old, Some new) \<Rightarrow> sameJSON old new | _ \<Rightarrow> False) gens)
       gens (sortedKeys (fPlacements next))"

definition stampClusters :: "dir_file \<Rightarrow> dir_file \<Rightarrow> (string, int) fmap \<Rightarrow> (string, int) fmap" where
  "stampClusters prev next gens =
     foldl (\<lambda>gens n. stampRes prev (fVersion next) (ClusterResource n)
              (hasKey (fClusters prev) n \<and> fmlookup (fClusters prev) n = fmlookup (fClusters next) n) gens)
       gens (sortedKeys (fClusters next))"

definition stampTenants :: "dir_file \<Rightarrow> dir_file \<Rightarrow> (string, int) fmap \<Rightarrow> (string, int) fmap" where
  "stampTenants prev next gens =
     foldl (\<lambda>gens n. stampRes prev (fVersion next) (TenantResource n)
              (hasKey (fTenants prev) n \<and> fmlookup (fTenants prev) n = fmlookup (fTenants next) n) gens)
       gens (sortedKeys (fTenants next))"

definition carrySecrets :: "dir_file \<Rightarrow> dir_file \<Rightarrow> (string, int) fmap \<Rightarrow> (string, int) fmap" where
  "carrySecrets prev next gens =
     foldl (\<lambda>gens n. stampRes prev (fVersion next) (SecretResource n) True gens) gens (sortedKeys (fClusters next))"

definition stampChanged :: "dir_file \<Rightarrow> string list \<Rightarrow> (string, int) fmap \<Rightarrow> (string, int) fmap" where
  "stampChanged next changed gens = foldl (\<lambda>gens res. fmupd res (fVersion next) gens) gens changed"

definition Stamp :: "identity option \<Rightarrow> dir_file \<Rightarrow> dir_file \<Rightarrow> string list \<Rightarrow> dir_file option" where
  "Stamp drawn prev next changed =
     (let next = next\<lparr>fSchema := SchemaVersion, fIdentity := fIdentity prev\<rparr> in
      case (if IsZero (fIdentity next) then drawn else Some (fIdentity next)) of
        None \<Rightarrow> None
      | Some i \<Rightarrow>
          Some (next\<lparr>fIdentity := i,
            fGenerations := stampChanged next changed (carrySecrets prev next
              (stampTenants prev next (stampClusters prev next (stampPlacements prev next fmempty))))\<rparr>))"

subsection \<open>Decoding\<close>

datatype parse_error = DecodeError string | BadPlacement string message

definition zeroFile :: dir_file where
  "zeroFile = \<lparr>fVersion = 0, fSchema = 0, fIdentity = zeroIdentity, fGenerations = fmempty, fClusters = fmempty,
     fTenants = fmempty, fPlacements = fmempty\<rparr>"

text \<open>\<^verbatim>\<open>bytes.TrimSpace\<close> leaves nothing: every character is white space, in UTF-8.\<close>

fun isBlank :: "string \<Rightarrow> bool" where
  "isBlank [] = True"
| "isBlank (c # cs) =
     (let n = (of_char c :: nat) in
      if n = 32 \<or> 9 \<le> n \<and> n \<le> 13 then isBlank cs
      else case cs of
        d # ds \<Rightarrow>
          let m = (of_char d :: nat) in
          if n = 194 \<and> (m = 133 \<or> m = 160) then isBlank ds
          else (case ds of
            e # es \<Rightarrow>
              let l = (of_char e :: nat) in
              if n = 225 \<and> m = 154 \<and> l = 128 \<or> n = 227 \<and> m = 128 \<and> l = 128 \<or> n = 226 \<and> m = 129 \<and> l = 159 \<or>
                 n = 226 \<and> m = 128 \<and> (128 \<le> l \<and> l \<le> 138 \<or> l = 168 \<or> l = 169 \<or> l = 175)
              then isBlank es else False
          | [] \<Rightarrow> False)
      | [] \<Rightarrow> False)"

fun convertAll :: "dir_file \<Rightarrow> string list \<Rightarrow> parse_error + dir_file" where
  "convertAll f [] = Inr f"
| "convertAll f (k # ks) =
     (case getPlacement f k of
        None \<Rightarrow> convertAll f ks
      | Some p \<Rightarrow> (case fromV2 p of Inl m \<Rightarrow> Inl (BadPlacement k m) | Inr p \<Rightarrow> convertAll (putPlacement f k p) ks))"

text \<open>\<open>decode\<close> stands for the YAML decoder: \<open>None\<close> is the end of an empty document.\<close>

definition parseFile :: "(string \<Rightarrow> string + dir_file option) \<Rightarrow> string \<Rightarrow> parse_error + dir_file" where
  "parseFile decode data =
     (if isBlank data then Inr zeroFile
      else case decode data of
        Inl e \<Rightarrow> Inl (DecodeError e)
      | Inr None \<Rightarrow> Inr zeroFile
      | Inr (Some f) \<Rightarrow>
          (case convertAll f (sortedKeys (fPlacements f)) of
             Inl e \<Rightarrow> Inl e
           | Inr f \<Rightarrow> Inr (f\<lparr>fClusters := ApplyClusterDefaults (fClusters f)\<rparr>)))"

subsection \<open>The operations of a store\<close>

datatype store_op =
    OpCreate string string string string int
  | OpDelete string string
  | OpSetTenantDefault string string
  | OpSetState string string string transition
  | OpSetPlacementWatch string string bool
  | OpSetPlacementReadOnly string string bool bool string
  | OpSetClusterReadOnly string bool bool string
  | OpSetBarrier string string barrier
  | OpClearBarrier string string
  | OpReleaseReadOnly string string bool bool
  | OpPutCluster string cluster string
  | OpRemoveCluster string
  | OpAdopt string string string string int
  | OpCreateSpread string string "leg list" int
  | OpCarve string string string
  | OpMerge string string string
  | OpClearTarget string string
  | OpSetTarget string string string string

datatype store_error =
    OpError dir_error
  | SecretInline
  | NotResource string
  | ReadFailed string
  | DiskInvalid
  | DrawFailed
  | Invalid "dverr list"
  | PrepareFailed string
  | WriteFailed string
  | LockFailed string

definition opError :: "dir_error + dir_file \<Rightarrow> store_error + dir_file" where
  "opError r = map_sum OpError id r"

definition trimPrefix :: "string \<Rightarrow> string \<Rightarrow> string" where
  "trimPrefix s pre = (if prefix pre s then drop (length pre) s else s)"

definition runOp :: "store_op \<Rightarrow> dir_file \<Rightarrow> store_error + dir_file" where
  "runOp op f =
     (case op of
        OpCreate t b c n now \<Rightarrow> opError (Create f t b c n now)
      | OpDelete t b \<Rightarrow> opError (Delete f t b)
      | OpSetTenantDefault t c \<Rightarrow> opError (SetTenantDefault f t c)
      | OpSetState t b from tr \<Rightarrow> opError (SetState f t b from tr)
      | OpSetPlacementWatch t b w \<Rightarrow> opError (SetPlacementWatch f t b w)
      | OpSetPlacementReadOnly t b ro rj i \<Rightarrow> opError (SetPlacementReadOnly f t b ro rj i)
      | OpSetClusterReadOnly n ro rj i \<Rightarrow> opError (SetClusterReadOnly f n ro rj i)
      | OpSetBarrier t b br \<Rightarrow> opError (SetBarrier f t b br)
      | OpClearBarrier res i \<Rightarrow>
          (case cutPrefix res ''cluster:'' of
             Some n \<Rightarrow> opError (ClearClusterBarrier f n i)
           | None \<Rightarrow>
               (case SplitKey (trimPrefix res ''placement:'') of
                  (t, b, ok) \<Rightarrow> if \<not> ok then Inl (NotResource res) else opError (ClearBarrier f t b i)))
      | OpReleaseReadOnly res i ro rj \<Rightarrow> opError (ReleaseReadOnly f res i ro rj)
      | OpPutCluster n c secret \<Rightarrow> if secret \<noteq> '''' then Inl SecretInline else Inr (PutCluster f n c)
      | OpRemoveCluster n \<Rightarrow> opError (RemoveCluster f n)
      | OpAdopt t b c n now \<Rightarrow> opError (Adopt f t b c n now)
      | OpCreateSpread t b legs now \<Rightarrow> opError (CreateSpread f t b legs now)
      | OpCarve t b pre \<Rightarrow> opError (Carve f t b pre)
      | OpMerge t b pre \<Rightarrow> opError (Merge f t b pre)
      | OpClearTarget t b \<Rightarrow> opError (ClearTarget f t b)
      | OpSetTarget t b c n \<Rightarrow> opError (SetTarget f t b c n))"

definition clusterKey :: "string \<Rightarrow> string" where "clusterKey name = ''clusters/'' @ name"

text \<open>The key of the change record each operation writes.\<close>

definition opKey :: "store_op \<Rightarrow> string" where
  "opKey op =
     (case op of
        OpCreate t b c n now \<Rightarrow> Key t b
      | OpDelete t b \<Rightarrow> Key t b
      | OpSetTenantDefault t c \<Rightarrow> t
      | OpSetState t b from tr \<Rightarrow> Key t b
      | OpSetPlacementWatch t b w \<Rightarrow> Key t b
      | OpSetPlacementReadOnly t b ro rj i \<Rightarrow> Key t b
      | OpSetClusterReadOnly n ro rj i \<Rightarrow> clusterKey n
      | OpSetBarrier t b br \<Rightarrow> Key t b
      | OpClearBarrier res i \<Rightarrow>
          (case cutPrefix res ''cluster:'' of Some n \<Rightarrow> clusterKey n | None \<Rightarrow> trimPrefix res ''placement:'')
      | OpReleaseReadOnly res i ro rj \<Rightarrow>
          (case cutPrefix res ''cluster:'' of Some n \<Rightarrow> clusterKey n | None \<Rightarrow> trimPrefix res ''placement:'')
      | OpPutCluster n c secret \<Rightarrow> clusterKey n
      | OpRemoveCluster n \<Rightarrow> clusterKey n
      | OpAdopt t b c n now \<Rightarrow> Key t b
      | OpCreateSpread t b legs now \<Rightarrow> Key t b
      | OpCarve t b pre \<Rightarrow> Key t b
      | OpMerge t b pre \<Rightarrow> Key t b
      | OpClearTarget t b \<Rightarrow> Key t b
      | OpSetTarget t b c n \<Rightarrow> Key t b)"

definition opName :: "store_op \<Rightarrow> string" where
  "opName op =
     (case op of
        OpCreate t b c n now \<Rightarrow> ''create''
      | OpDelete t b \<Rightarrow> ''delete''
      | OpSetTenantDefault t c \<Rightarrow> ''set-default''
      | OpSetState t b from tr \<Rightarrow> ''set-state''
      | OpSetPlacementWatch t b w \<Rightarrow> ''set-watch''
      | OpSetPlacementReadOnly t b ro rj i \<Rightarrow> ''placement-read-only''
      | OpSetClusterReadOnly n ro rj i \<Rightarrow> ''cluster-read-only''
      | OpSetBarrier t b br \<Rightarrow> ''set-barrier''
      | OpClearBarrier res i \<Rightarrow> ''clear-barrier''
      | OpReleaseReadOnly res i ro rj \<Rightarrow> ''release-read-only''
      | OpPutCluster n c secret \<Rightarrow> ''cluster-put''
      | OpRemoveCluster n \<Rightarrow> ''cluster-remove''
      | OpAdopt t b c n now \<Rightarrow> ''adopt''
      | OpCreateSpread t b legs now \<Rightarrow> ''create-spread''
      | OpCarve t b pre \<Rightarrow> ''carve''
      | OpMerge t b pre \<Rightarrow> ''merge''
      | OpClearTarget t b \<Rightarrow> ''clear-target''
      | OpSetTarget t b c n \<Rightarrow> ''set-target'')"

subsection \<open>The file backend\<close>

text \<open>What \<^verbatim>\<open>sameStamp\<close> compares of an \<^verbatim>\<open>os.FileInfo\<close>: the file, its modification time and its size.\<close>

record file_stamp =
  stFile :: nat
  stMod :: int
  stSize :: nat

record file_dir =
  fdSnap :: snapshot
  fdStamp :: "file_stamp option"
  fdSum :: string
  fdStatErr :: string

definition installFile :: "file_dir \<Rightarrow> dir_file \<Rightarrow> string \<Rightarrow> file_stamp option \<Rightarrow> file_dir" where
  "installFile d f data st =
     d\<lparr>fdSum := sha256 data, fdStamp := (if st \<noteq> None then st else fdStamp d), fdSnap := newSnapshot f\<rparr>"

datatype reload_error = StatFailed string | CannotRead string | Rejected int | Stale int int | NotPrepared int string

definition Reload ::
  "(string \<Rightarrow> string + dir_file option) \<Rightarrow> (dir_file \<Rightarrow> string option) \<Rightarrow> string + file_stamp \<Rightarrow>
   string + string \<times> file_stamp \<Rightarrow> file_dir \<Rightarrow> file_dir \<times> (reload_error + bool)" where
  "Reload decode prepare stat contents d =
     (case stat of
        Inl msg \<Rightarrow>
          if msg \<noteq> fdStatErr d then (d\<lparr>fdStatErr := msg\<rparr>, Inl (StatFailed msg)) else (d, Inr False)
      | Inr st \<Rightarrow>
          let d = d\<lparr>fdStatErr := ''''\<rparr> in
          if fdStamp d = Some st then (d, Inr False)
          else case contents of
            Inl e \<Rightarrow> (d, Inl (CannotRead e))
          | Inr (data, st) \<Rightarrow>
              let d = d\<lparr>fdStamp := Some st\<rparr>; cur = snVersion (fdSnap d) in
              case parseFile decode data of
                Inl e \<Rightarrow> (d, Inl (Rejected cur))
              | Inr f \<Rightarrow>
                  if validate f \<noteq> [] then (d, Inl (Rejected cur))
                  else if fVersion f \<le> cur then
                    if fVersion f = cur \<and> sha256 data = fdSum d then (d, Inr False)
                    else (d, Inl (Stale (fVersion f) cur))
                  else (case prepare f of
                          Some e \<Rightarrow> (d, Inl (NotPrepared cur e))
                        | None \<Rightarrow> (installFile d f data (Some st), Inr True)))"

record change =
  chActor :: string
  chOp :: string
  chKey :: string
  chTime :: int
  chVersion :: int
  chBefore :: "placement option"
  chAfter :: "placement option"
  chClusterBefore :: "cluster option"
  chClusterAfter :: "cluster option"

definition changedPlacement :: "dir_file \<Rightarrow> string \<Rightarrow> placement option" where
  "changedPlacement f k = (if prefix ''clusters/'' k then None else getPlacement f k)"

definition changedCluster :: "dir_file \<Rightarrow> string \<Rightarrow> cluster option" where
  "changedCluster f k = (case cutPrefix k ''clusters/'' of None \<Rightarrow> None | Some n \<Rightarrow> fmlookup (fClusters f) n)"

text \<open>What the system answers during a write: the lock, the file on disk, the write, and the file's
  stamp after it.\<close>

record write_env =
  weLock :: "string option"
  weRead :: "string + string"
  weWrite :: "string option"
  weStat :: "file_stamp option"
  weNow :: int
  weDrawn :: "identity option"

definition nextFile :: "identity option \<Rightarrow> store_op \<Rightarrow> dir_file \<Rightarrow> store_error + dir_file" where
  "nextFile drawn op f =
     (case runOp op f of
        Inl e \<Rightarrow> Inl e
      | Inr f' \<Rightarrow>
          (case Stamp drawn f (f'\<lparr>fVersion := fVersion f' + 1\<rparr>) [] of
             None \<Rightarrow> Inl DrawFailed
           | Some f' \<Rightarrow> if validate f' \<noteq> [] then Inl (Invalid (validate f')) else Inr f'))"

definition mutate ::
  "(string \<Rightarrow> string + dir_file option) \<Rightarrow> (dir_file \<Rightarrow> string + string) \<Rightarrow> (dir_file \<Rightarrow> string option) \<Rightarrow> write_env \<Rightarrow>
   string \<Rightarrow> store_op \<Rightarrow> file_dir \<Rightarrow> store_error + file_dir \<times> string \<times> change" where
  "mutate decode encode prepare env actor op d =
     (case weLock env of
        Some e \<Rightarrow> Inl (LockFailed e)
      | None \<Rightarrow>
     (case weRead env of
        Inl e \<Rightarrow> Inl (ReadFailed e)
      | Inr data \<Rightarrow>
     (case parseFile decode data of
        Inl _ \<Rightarrow> Inl DiskInvalid
      | Inr f \<Rightarrow>
      if validate f \<noteq> [] then Inl DiskInvalid
      else case nextFile (weDrawn env) op f of
        Inl e \<Rightarrow> Inl e
      | Inr f' \<Rightarrow>
     (case prepare f' of
        Some e \<Rightarrow> Inl (PrepareFailed e)
      | None \<Rightarrow>
     (case encode f' of
        Inl e \<Rightarrow> Inl (WriteFailed e)
      | Inr out \<Rightarrow>
     (case weWrite env of
        Some e \<Rightarrow> Inl (WriteFailed e)
      | None \<Rightarrow>
          Inr (installFile d f' out (weStat env), out,
            \<lparr>chActor = actor, chOp = opName op, chKey = opKey op, chTime = weNow env, chVersion = fVersion f',
             chBefore = changedPlacement f (opKey op), chAfter = changedPlacement f' (opKey op),
             chClusterBefore = changedCluster f (opKey op), chClusterAfter = changedCluster f' (opKey op)\<rparr>)))))))"

subsection \<open>What a reload does\<close>

lemma snFile_newSnapshot [simp]: "snFile (newSnapshot f) = f"
proof -
  have "snFile (foldl (addToSnapshot f) s ks) = snFile s" for s ks
    by (induction ks arbitrary: s) (auto simp: addToSnapshot_def split: prod.split bool.split option.split)
  then show ?thesis by (simp add: newSnapshot_def Let_def)
qed

lemma snVersion_newSnapshot [simp]: "snVersion (newSnapshot f) = fVersion f"
  by (simp add: snVersion_def)

text \<open>A reload keeps the snapshot, or installs a valid file of a higher version.\<close>

lemma Reload_cases:
  assumes "Reload decode prepare stat contents d = (d', r)"
  obtains (kept) "fdSnap d' = fdSnap d" "r \<noteq> Inr True"
  | (installed) f data st where "contents = Inr (data, st)" "parseFile decode data = Inr f" "validate f = []"
      "snVersion (fdSnap d) < fVersion f" "prepare f = None" "fdSnap d' = newSnapshot f" "r = Inr True" "fdStamp d' = Some st"
  using assms unfolding Reload_def Let_def
  by (auto simp: installFile_def split: sum.splits if_split_asm prod.splits option.splits)

text \<open>A rejected change is reported once: polling again, with the file as it was, says nothing.\<close>

lemma Reload_again:
  assumes "Reload decode prepare stat contents d = (d', Inl e)" "e \<noteq> CannotRead x"
    and "\<And>data st. contents = Inr (data, st) \<Longrightarrow> stat = Inr st" "\<And>y. contents = Inl y \<Longrightarrow> y = x"
  shows "Reload decode prepare stat contents' d' = (d', Inr False)"
proof (cases stat)
  case (Inl msg)
  then show ?thesis using assms(1) by (auto simp: Reload_def split: if_split_asm)
next
  case (Inr st)
  have n: "fdStamp d \<noteq> Some st" using assms(1) Inr by (auto simp: Reload_def Let_def split: if_split_asm)
  obtain data where c: "contents = Inr (data, st)"
  proof (cases contents)
    case (Inl y)
    then show ?thesis using assms(1,2,4) Inr n by (simp add: Reload_def Let_def)
  next
    case c: (Inr ds)
    then show ?thesis using assms(3) Inr that by (cases ds) auto
  qed
  have "fdStamp d' = Some st" "fdStatErr d' = ''''"
    using assms(1) Inr c n by (auto simp: Reload_def Let_def split: sum.splits if_split_asm option.splits)
  then show ?thesis using Inr by (simp add: Reload_def Let_def)
qed

subsection \<open>What a write does\<close>

lemma mutate_Inr:
  assumes "mutate decode encode prepare env actor op d = Inr (d', out, c)"
  obtains f f' data where "weRead env = Inr data" "parseFile decode data = Inr f" "validate f = []"
    "nextFile (weDrawn env) op f = Inr f'" "prepare f' = None" "encode f' = Inr out" "weWrite env = None"
    "d' = installFile d f' out (weStat env)" "chVersion c = fVersion f'"
    "chBefore c = changedPlacement f (opKey op)" "chAfter c = changedPlacement f' (opKey op)"
  using assms unfolding mutate_def by (auto split: option.splits sum.splits if_split_asm)

lemma Stamp_Some:
  assumes "Stamp drawn prev next changed = Some f"
  shows "fVersion f = fVersion next" "fClusters f = fClusters next" "fTenants f = fTenants next" "fPlacements f = fPlacements next"
    "fSchema f = SchemaVersion" "\<not> IsZero (fIdentity prev) \<Longrightarrow> fIdentity f = fIdentity prev"
    "IsZero (fIdentity prev) \<Longrightarrow> drawn = Some (fIdentity f)"
  using assms by (auto simp: Stamp_def Let_def split: option.splits if_split_asm)

lemma putPlacement_sel [simp]:
  "fVersion (putPlacement f k p) = fVersion f" "fTenants (putPlacement f k p) = fTenants f" "fClusters (putPlacement f k p) = fClusters f"
  "fPlacements (putPlacement f k p) = fmupd k p (fPlacements f)"
  by (simp_all add: putPlacement_def)

lemma runOp_version: "runOp op f = Inr f' \<Longrightarrow> fVersion f' = fVersion f"
  by (cases op)
     (auto simp: runOp_def opError_def Create_def Delete_def SetTenantDefault_def SetState_def SetPlacementWatch_def
       SetPlacementReadOnly_def SetClusterReadOnly_def SetBarrier_def ClearClusterBarrier_def ClearBarrier_def ReleaseReadOnly_def
       PutCluster_def RemoveCluster_def Adopt_def CreateSpread_def Carve_def Merge_def ClearTarget_def SetTarget_def putCluster_def
       ensureTenant_def Let_def split: option.splits sum.splits if_split_asm prod.splits)

lemma nextFile_Inr:
  assumes "nextFile drawn op f = Inr f'"
  obtains f1 where "runOp op f = Inr f1" "Stamp drawn f (f1\<lparr>fVersion := fVersion f + 1\<rparr>) [] = Some f'" "validate f' = []"
    "fVersion f' = fVersion f + 1" "fPlacements f' = fPlacements f1" "fClusters f' = fClusters f1" "fTenants f' = fTenants f1"
proof -
  obtain f1 where 1: "runOp op f = Inr f1" "Stamp drawn f (f1\<lparr>fVersion := fVersion f1 + 1\<rparr>) [] = Some f'" "validate f' = []"
    using assms by (auto simp: nextFile_def split: sum.splits option.splits if_split_asm)
  have v: "fVersion f1 = fVersion f" by (rule runOp_version [OF 1(1)])
  show thesis using that [OF 1(1) _ 1(3)] 1(2) v Stamp_Some [OF 1(2)] by simp
qed

subsection \<open>Generations\<close>

lemma stampRes_lookup:
  "fmlookup (stampRes prev v res same gens) x =
     (if x = res \<and> \<not> same then Some v else if x = res \<and> 0 < Generation prev res then Some (Generation prev res) else fmlookup gens x)"
  by (simp add: stampRes_def)

lemma stampFold:
  assumes "inj R"
  shows "fmlookup (foldl (\<lambda>g n. stampRes prev v (R n) (S n) g) gens ns) (R n) =
    (if n \<in> set ns \<and> \<not> S n then Some v else if n \<in> set ns \<and> 0 < Generation prev (R n) then Some (Generation prev (R n))
     else fmlookup gens (R n))"
    and "x \<notin> range R \<Longrightarrow> fmlookup (foldl (\<lambda>g n. stampRes prev v (R n) (S n) g) gens ns) x = fmlookup gens x"
  using injD [OF assms] by (induction ns arbitrary: gens) (auto simp: stampRes_lookup split: if_splits)

lemma resource_inj: "inj PlacementResource" "inj ClusterResource" "inj TenantResource" "inj SecretResource"
  by (simp_all add: inj_def PlacementResource_def ClusterResource_def TenantResource_def SecretResource_def)

lemma resource_disjoint [simp]:
  "PlacementResource k \<notin> range ClusterResource" "PlacementResource k \<notin> range TenantResource" "PlacementResource k \<notin> range SecretResource"
  by (auto simp: PlacementResource_def ClusterResource_def TenantResource_def SecretResource_def)

lemma Generation_Stamp:
  assumes "Stamp drawn prev next [] = Some f"
  shows "Generation f (PlacementResource k) =
    (case getPlacement f k of
       None \<Rightarrow> 0
     | Some p \<Rightarrow> if (case getPlacement prev k of None \<Rightarrow> False | Some old \<Rightarrow> sameJSON old p)
                 then max 0 (Generation prev (PlacementResource k)) else fVersion f)"
proof -
  define nx where "nx = next\<lparr>fSchema := SchemaVersion, fIdentity := fIdentity prev\<rparr>"
  let ?S = "\<lambda>k. case (getPlacement prev k, getPlacement nx k) of (Some old, Some new) \<Rightarrow> sameJSON old new | _ \<Rightarrow> False"
  have g: "fGenerations f = carrySecrets prev nx (stampTenants prev nx (stampClusters prev nx (stampPlacements prev nx fmempty)))"
    and f: "fVersion f = fVersion nx" "fPlacements f = fPlacements nx"
    using assms by (auto simp: Stamp_def Let_def nx_def stampChanged_def split: option.splits if_split_asm)
  have "fmlookup (fGenerations f) (PlacementResource k) = fmlookup (stampPlacements prev nx fmempty) (PlacementResource k)"
    by (simp add: g carrySecrets_def stampTenants_def stampClusters_def stampFold(2) resource_inj)
  also have "\<dots> = (if k \<in> set (sortedKeys (fPlacements nx)) \<and> \<not> ?S k then Some (fVersion nx)
      else if k \<in> set (sortedKeys (fPlacements nx)) \<and> 0 < Generation prev (PlacementResource k)
      then Some (Generation prev (PlacementResource k)) else None)"
    unfolding stampPlacements_def by (subst stampFold(1) [OF resource_inj(1)]) simp
  finally have l: "fmlookup (fGenerations f) (PlacementResource k) = \<dots>" .
  have m: "getPlacement f k = getPlacement nx k" by (simp add: getPlacement_def f)
  show ?thesis
  proof (cases "getPlacement nx k")
    case None
    then have "k \<notin> set (sortedKeys (fPlacements nx))" by (simp add: getPlacement_def fmdom_notI)
    then have "fmlookup (fGenerations f) (PlacementResource k) = None" by (simp add: l)
    then show ?thesis by (simp add: Generation_def m None)
  next
    case (Some p)
    then have "k \<in> set (sortedKeys (fPlacements nx))" by (simp add: getPlacement_def fmdomI)
    then show ?thesis using l Some by (cases "getPlacement prev k") (auto simp: Generation_def m f(1) split: option.splits)
  qed
qed

text \<open>One write after another, each against the file the one before left.\<close>

inductive wrote :: "dir_file \<Rightarrow> dir_file \<Rightarrow> bool" where
  wrote: "validate f = [] \<Longrightarrow> nextFile drawn op f = Inr f' \<Longrightarrow> wrote f f'"

inductive_cases wroteE: "wrote f f'"

lemma validate_Generation:
  assumes "validate f = []"
  shows "0 \<le> Generation f res" "Generation f res \<le> fVersion f"
proof -
  have v: "0 \<le> fVersion f" using assms by (auto simp: validate_def split: if_split_asm)
  have l: "validateLineage f = []" using assms by (simp add: validate_def)
  have "0 \<le> Generation f res \<and> Generation f res \<le> fVersion f"
  proof (cases "fmlookup (fGenerations f) res")
    case (Some g)
    then have "res \<in> set (sortedKeys (fGenerations f))" by (simp add: fmdomI)
    then have "\<not> (g \<le> 0 \<or> fVersion f < g)" using l Some by (force simp: validateLineage_def split: if_split_asm)
    then show ?thesis by (simp add: Generation_def Some)
  qed (simp add: Generation_def v)
  then show "0 \<le> Generation f res" "Generation f res \<le> fVersion f" by simp_all
qed

lemma wrote_facts:
  assumes "wrote f f'"
  shows "validate f = []" "validate f' = []" "fVersion f' = fVersion f + 1" "\<not> IsZero (fIdentity f) \<Longrightarrow> fIdentity f' = fIdentity f"
    "Generation f' (PlacementResource k) =
      (case getPlacement f' k of
         None \<Rightarrow> 0
       | Some p \<Rightarrow> if (case getPlacement f k of None \<Rightarrow> False | Some old \<Rightarrow> sameJSON old p)
                   then Generation f (PlacementResource k) else fVersion f')"
proof -
  from assms obtain drawn op where v: "validate f = []" and n: "nextFile drawn op f = Inr f'" by (rule wroteE)
  from n obtain f1 where 1: "Stamp drawn f (f1\<lparr>fVersion := fVersion f + 1\<rparr>) [] = Some f'" "validate f' = []" "fVersion f' = fVersion f + 1"
    by (rule nextFile_Inr)
  show "validate f = []" "validate f' = []" "fVersion f' = fVersion f + 1" by (fact v 1)+
  show "\<not> IsZero (fIdentity f) \<Longrightarrow> fIdentity f' = fIdentity f" by (rule Stamp_Some(6) [OF 1(1)])
  show "Generation f' (PlacementResource k) =
      (case getPlacement f' k of
         None \<Rightarrow> 0
       | Some p \<Rightarrow> if (case getPlacement f k of None \<Rightarrow> False | Some old \<Rightarrow> sameJSON old p)
                   then Generation f (PlacementResource k) else fVersion f')"
    using Generation_Stamp [OF 1(1), of k] validate_Generation(1) [OF v, of "PlacementResource k"] by (simp split: option.split)
qed

lemma sameJSON_stored: "sameJSON a b \<Longrightarrow> stored a = stored b"
  by (auto simp: sameJSON_def)

lemma generation_run:
  assumes "wrote\<^sup>*\<^sup>* f0 f" "getPlacement f k = Some p"
  shows "Generation f (PlacementResource k) > fVersion f0 \<or>
    (Generation f (PlacementResource k) = Generation f0 (PlacementResource k) \<and>
     (\<exists>p0. getPlacement f0 k = Some p0 \<and> stored p = stored p0))"
    and "fVersion f0 \<le> fVersion f"
  using assms
proof (induction arbitrary: p rule: rtranclp_induct)
  case (step f f')
  { case 1
    note w = wrote_facts [OF step.hyps(2)]
    have v0: "fVersion f0 \<le> fVersion f"
      using rtranclp_induct [OF step.hyps(1), of "\<lambda>f. fVersion f0 \<le> fVersion f"] wrote_facts(3) by fastforce
    show ?case
    proof (cases "\<exists>old. getPlacement f k = Some old \<and> sameJSON old p")
      case True
      then obtain old where o: "getPlacement f k = Some old" "sameJSON old p" by blast
      have "Generation f' (PlacementResource k) = Generation f (PlacementResource k)" using w(5) [of k] 1 o by simp
      then show ?thesis using step.IH(1) [OF o(1)] sameJSON_stored [OF o(2)] by auto
    next
      case False
      then have "Generation f' (PlacementResource k) = fVersion f'" using w(5) [of k] 1 by (auto split: option.splits)
      then show ?thesis using w(3) v0 by simp
    qed
  next
    case 2
    have "fVersion f0 \<le> fVersion f"
      using rtranclp_induct [OF step.hyps(1), of "\<lambda>f. fVersion f0 \<le> fVersion f"] wrote_facts(3) by fastforce
    then show ?case using wrote_facts(3) [OF step.hyps(2)] by simp
  }
qed auto

subsection \<open>Only a state change redirects writes\<close>

lemma placeWrite_cong:
  assumes "pState q = pState p" "pPrimary q = pPrimary p" "pSource q = pSource p" "pNames q = pNames p" "pLegClusters q = pLegClusters p"
    "pRamp q = pRamp p" "pLegs q = pLegs p" "pOwners q = pOwners p" "pPrefixes q = pPrefixes p" "pKeyHash q = pKeyHash p" "pMove q = pMove p"
  shows "placeWrite q key = placeWrite p key"
proof -
  have s: "Spread q = Spread p" using assms by (simp add: Spread_def)
  have sc: "Scope q = Scope p" by (rule tables_cong) (fact assms)+
  then have o: "OwnerOf q key = OwnerOf p key" "InMove q key = InMove p key"
    by (simp_all only: OwnerOf_def InMove_def sc assms)
  have l: "acceptsWrite (onLeg q i) key = acceptsWrite (onLeg p i) key" for i by (simp add: onLeg_write assms)
  have m: "acceptsWrite (MoveView q mv) key = acceptsWrite (MoveView p mv) key" for mv
    by (rule acceptsWrite_cong)
       (auto simp: MoveView_def sideBucket_def roleBucket_def ClusterOf_def zeroPlacement_def Let_def assms split: side.split)
  have a: "acceptsWrite q key = acceptsWrite p key"
    by (rule acceptsWrite_cong) (simp_all add: sideBucket_def roleBucket_def ClusterOf_def assms split: side.split)
  have "(case Narrow q key of Inl _ \<Rightarrow> None | Inr v \<Rightarrow> acceptsWrite v key) = (case Narrow p key of Inl _ \<Rightarrow> None | Inr v \<Rightarrow> acceptsWrite v key)"
    by (cases "OwnerOf p key"; cases "pMove p") (simp_all add: Narrow_def o l m assms)
  then show ?thesis using s a by (simp add: placeWrite_def)
qed

definition quiet :: "store_op \<Rightarrow> bool" where
  "quiet op = (case op of OpSetState _ _ _ _ \<Rightarrow> False | OpDelete _ _ \<Rightarrow> False | _ \<Rightarrow> True)"

text \<open>What a change to one placement leaves of the others, and of itself.\<close>

definition keeps_writes :: "dir_file \<Rightarrow> dir_file \<Rightarrow> bool" where
  "keeps_writes f f' \<longleftrightarrow>
     (\<forall>k p. getPlacement f k = Some p \<longrightarrow> routable p \<longrightarrow>
        (\<exists>p'. getPlacement f' k = Some p' \<and> (\<forall>key. placeWrite p' key = placeWrite p key)))"

lemma keeps_writes_same: "fPlacements f' = fPlacements f \<Longrightarrow> keeps_writes f f'"
  by (simp add: keeps_writes_def getPlacement_def)

lemma keeps_writes_put:
  assumes "\<And>p. getPlacement f k = Some p \<Longrightarrow> routable p \<Longrightarrow> \<forall>key. placeWrite q key = placeWrite p key"
    and "fPlacements f' = fmupd k q (fPlacements f)"
  shows "keeps_writes f f'"
  using assms by (auto simp: keeps_writes_def getPlacement_def)

lemma keeps_writes_new:
  assumes "\<not> hasKey (fPlacements f) k" "fPlacements f' = fmupd k q (fPlacements f)"
  shows "keeps_writes f f'"
  using assms by (intro keeps_writes_put [of f k q f']) (auto simp: getPlacement_def fmdomI)

lemma ClearTarget_writes:
  assumes v: "placement_valid f k p" "routable p" and r: "ClearTarget f t b = Inr f'" and k: "k = Key t b" "getPlacement f k = Some p"
  obtains q where "fPlacements f' = fmupd k q (fPlacements f)" "\<And>key. placeWrite q key = placeWrite p key"
proof (cases "Spread p")
  case True
  have ok: "spread_ok p" using placement_valid_ok [OF v] True by (simp add: placement_ok_def)
  have a: "pState p = StateActive" using r k by (auto simp: ClearTarget_def Let_def split: if_split_asm)
  define q where "q = p\<lparr>pLegs := map_option (fmdrop_set (set (IdleLegs p))) (pLegs p)\<rparr>"
  have m: "pMove p = None" using checkSpread_move(1) [of p] ok a by (cases "pMove p") (auto simp: spread_ok_def)
  have f': "fPlacements f' = fmupd k (settle q) (fPlacements f)"
    using r k True a by (auto simp: ClearTarget_def Let_def q_def split: if_split_asm)
  have tb: "tables_ok q = tables_ok p" "ownerAt q = ownerAt p" "ownsKeys q = ownsKeys p" using tables_cong [of q p] by (simp_all add: q_def)
  have rt: "routes q" using spread_ok_routes [OF ok] tb by (simp add: routes_def q_def)
  have "placeWrite (settle q) key = placeWrite p key" for key
  proof -
    have "ownsKeys p (ownerFor p key)" using ownerAt_ownsKeys [of p key] spread_ok_routes [OF ok] by (simp add: routes_def)
    then have "ownerFor p key \<notin> set (IdleLegs p)" by (simp add: IdleLegs_def)
    then have "legBucket q (ownerFor p key) = legBucket p (ownerFor p key)"
      by (cases "pLegs p") (simp_all add: legBucket_def getLeg_def q_def)
    moreover have "placeWrite (settle q) key = Some (legBucket q (ownerFor q key))"
      using rt m ok by (intro placeWrite_settle) (simp_all add: q_def spread_ok_def)
    moreover have "placeWrite p key = Some (legBucket p (ownerFor p key))"
      using placeWrite_rest [OF spread_ok_routes [OF ok] True] m by (simp add: InMove_def)
    ultimately show ?thesis using tb(2) by simp
  qed
  then show thesis by (rule that [OF f'])
next
  case False
  have pl: "plain_ok p" using placement_valid_ok [OF v] False by (simp add: placement_ok_def)
  have a: "pState p = StateActive" "pTarget p \<noteq> ''''" using r k False by (auto simp: ClearTarget_def Let_def split: if_split_asm)
  have roles: "validateRoles (fClusters f) (''placements.'' @ k) p = []" using v False by (simp add: placement_valid_def plain_valid_def)
  have t: "pTarget p \<noteq> pPrimary p" using roles a by (auto simp: validateRoles_def Let_def split: if_split_asm)
  define q where "q = p\<lparr>pNames := (if pTarget p \<noteq> pCold p then map_option (fmdrop (pTarget p)) (pNames p) else pNames p), pTarget := ''''\<rparr>"
  have f': "fPlacements f' = fmupd k q (fPlacements f)"
    using r k False a by (auto simp: ClearTarget_def Let_def q_def)
  have "placeWrite q key = placeWrite p key" for key
    using acceptsWrite_settled [of q key] acceptsWrite_settled [of p key] a(1) t False
    by (cases "pNames p") (simp_all add: placeWrite_def Spread_def q_def sideBucket_def roleBucket_def ClusterOf_def getStr_fmdrop)
  then show thesis by (rule that [OF f'])
qed

lemma SetTarget_writes:
  assumes v: "placement_valid f' k q" "routable p" and r: "SetTarget f t b c n = Inr f'" and k: "k = Key t b" "getPlacement f k = Some p"
    and q: "getPlacement f' k = Some q"
  shows "placeWrite q key = placeWrite p key"
proof -
  have a: "pState p = StateActive" "\<not> Spread p" "q = p\<lparr>pTarget := c, pNames := Some (fmupd c n (namesOf p))\<rparr>"
    using r k q by (auto simp: SetTarget_def Let_def getPlacement_def split: if_split_asm)
  then have "\<not> Spread q" "pTarget q = c" by (simp_all add: Spread_def)
  then have roles: "validateRoles (fClusters f') (''placements.'' @ k) q = []" using v by (simp add: placement_valid_def plain_valid_def)
  show ?thesis
  proof (cases "c = ''''")
    case True
    have "pPrimary p \<noteq> ''''" using roles a(3) by (auto simp: validateRoles_def dirRef_def Let_def split: if_split_asm)
    then show ?thesis
      using acceptsWrite_settled [of q key] acceptsWrite_settled [of p key] a True
      by (simp add: placeWrite_def Spread_def sideBucket_def roleBucket_def ClusterOf_def)
  next
    case False
    then have "c \<noteq> pPrimary p" using roles a by (auto simp: validateRoles_def Let_def split: if_split_asm)
    then show ?thesis
      using acceptsWrite_settled [of q key] acceptsWrite_settled [of p key] a
      by (simp add: placeWrite_def Spread_def sideBucket_def roleBucket_def ClusterOf_def)
  qed
qed

lemma putPlacement_keeps:
  assumes "f' = putPlacement f k q" "getPlacement f k = Some p" "\<forall>key. placeWrite q key = placeWrite p key"
  shows "keeps_writes f f'"
  by (rule keeps_writes_put [of f k q]) (use assms in simp_all)

lemma put_same_roles:
  assumes "f' = putPlacement f k q" "getPlacement f k = Some p"
    "pState q = pState p" "pPrimary q = pPrimary p" "pSource q = pSource p" "pNames q = pNames p" "pLegClusters q = pLegClusters p"
    "pRamp q = pRamp p" "pLegs q = pLegs p" "pOwners q = pOwners p" "pPrefixes q = pPrefixes p" "pKeyHash q = pKeyHash p" "pMove q = pMove p"
  shows "keeps_writes f f'"
  by (rule putPlacement_keeps [OF assms(1,2)]) (use placeWrite_cong [OF assms(3-13)] in blast)

lemma switches_keep:
  "SetPlacementReadOnly f t b ro rj i = Inr f' \<Longrightarrow> keeps_writes f f'"
  "SetBarrier f t b br = Inr f' \<Longrightarrow> keeps_writes f f'"
  "ClearBarrier f t b i = Inr f' \<Longrightarrow> keeps_writes f f'"
  "SetPlacementWatch f t b w = Inr f' \<Longrightarrow> keeps_writes f f'"
  "ReleaseReadOnly f res i ro rj = Inr f' \<Longrightarrow> keeps_writes f f'"
proof -
  show "SetPlacementReadOnly f t b ro rj i = Inr f' \<Longrightarrow> keeps_writes f f'"
    by (auto simp: SetPlacementReadOnly_def Let_def split: option.splits if_split_asm intro: put_same_roles [OF refl])
  show "SetBarrier f t b br = Inr f' \<Longrightarrow> keeps_writes f f'"
    by (auto simp: SetBarrier_def Let_def split: option.splits if_split_asm intro: put_same_roles [OF refl])
  show "ClearBarrier f t b i = Inr f' \<Longrightarrow> keeps_writes f f'"
    by (auto simp: ClearBarrier_def Let_def split: option.splits if_split_asm intro: put_same_roles [OF refl])
  show "SetPlacementWatch f t b w = Inr f' \<Longrightarrow> keeps_writes f f'"
    by (auto simp: SetPlacementWatch_def Let_def split: option.splits if_split_asm intro: put_same_roles [OF refl])
  show "ReleaseReadOnly f res i ro rj = Inr f' \<Longrightarrow> keeps_writes f f'"
    by (auto simp: ReleaseReadOnly_def putCluster_def Let_def split: option.splits if_split_asm
        intro: put_same_roles [OF refl] keeps_writes_same)
qed

lemma clusters_keep:
  "SetTenantDefault f t c = Inr f' \<Longrightarrow> keeps_writes f f'" "SetClusterReadOnly f n ro rj i = Inr f' \<Longrightarrow> keeps_writes f f'"
  "ClearClusterBarrier f n i = Inr f' \<Longrightarrow> keeps_writes f f'" "RemoveCluster f n = Inr f' \<Longrightarrow> keeps_writes f f'"
  by (auto simp: SetTenantDefault_def SetClusterReadOnly_def ClearClusterBarrier_def RemoveCluster_def putCluster_def
      intro!: keeps_writes_same split: option.splits if_split_asm)

lemma new_keeps:
  "Create f t b c n now = Inr f' \<Longrightarrow> keeps_writes f f'" "Adopt f t b c n now = Inr f' \<Longrightarrow> keeps_writes f f'"
  "CreateSpread f t b ls now = Inr f' \<Longrightarrow> keeps_writes f f'"
  by (auto simp: Create_def Adopt_def CreateSpread_def ensureTenant_def Let_def simp del: hasKey_iff
      intro!: keeps_writes_new [of f "Key t b"] split: if_split_asm sum.splits)

lemma rules_keep:
  assumes "validate f = []"
  shows "Carve f t b pre = Inr f' \<Longrightarrow> keeps_writes f f'" "Merge f t b pre = Inr f' \<Longrightarrow> keeps_writes f f'"
proof -
  have ok: "placement_ok p" if "getPlacement f (Key t b) = Some p" "routable p" for p
    using placement_valid_ok validate_placements(1) [OF assms] that by blast
  show "keeps_writes f f'" if c: "Carve f t b pre = Inr f'"
  proof -
    obtain p where p: "getPlacement f (Key t b) = Some p" "carveRefuses (Key t b) p pre = None"
        "f' = putPlacement f (Key t b) (carved p pre)"
      using c by (auto simp: Carve_def Let_def split: option.splits)
    show ?thesis by (rule keeps_writes_put [of f "Key t b" "carved p pre"]) (use p ok carved_writes in auto)
  qed
  show "keeps_writes f f'" if c: "Merge f t b pre = Inr f'"
  proof -
    obtain p where p: "getPlacement f (Key t b) = Some p" "mergeRefuses (Key t b) p pre = None"
        "f' = putPlacement f (Key t b) (merged p pre)"
      using c by (auto simp: Merge_def Let_def split: option.splits)
    show ?thesis by (rule keeps_writes_put [of f "Key t b" "merged p pre"]) (use p ok merged_writes in auto)
  qed
qed

lemma targets_keep:
  assumes "validate f = []" "\<And>k p. getPlacement f' k = Some p \<Longrightarrow> placement_valid f' k p"
  shows "ClearTarget f t b = Inr f' \<Longrightarrow> keeps_writes f f'" "SetTarget f t b c n = Inr f' \<Longrightarrow> keeps_writes f f'"
proof -
  show "keeps_writes f f'" if c: "ClearTarget f t b = Inr f'"
  proof -
    obtain p where p: "getPlacement f (Key t b) = Some p" using c by (auto simp: ClearTarget_def Let_def split: option.splits)
    have v: "placement_valid f (Key t b) p" by (rule validate_placements(1) [OF assms(1) p])
    show ?thesis
    proof (cases "routable p")
      case True
      from ClearTarget_writes [OF v True c refl p] obtain q where "fPlacements f' = fmupd (Key t b) q (fPlacements f)"
          "\<And>key. placeWrite q key = placeWrite p key" by blast
      then show ?thesis using p by (intro keeps_writes_put [of f "Key t b" q]) auto
    next
      case False
      have "\<exists>q. fPlacements f' = fmupd (Key t b) q (fPlacements f)"
        using c p by (auto simp: ClearTarget_def Let_def split: if_split_asm)
      then show ?thesis using p False by (auto intro!: keeps_writes_put [of f "Key t b"])
    qed
  qed
  show "keeps_writes f f'" if c: "SetTarget f t b c n = Inr f'"
  proof -
    obtain p where p: "getPlacement f (Key t b) = Some p" using c by (auto simp: SetTarget_def Let_def split: option.splits)
    obtain q where q: "fPlacements f' = fmupd (Key t b) q (fPlacements f)"
      using c p by (auto simp: SetTarget_def Let_def split: if_split_asm)
    then have q': "getPlacement f' (Key t b) = Some q" by (simp add: getPlacement_def)
    show ?thesis
      by (rule keeps_writes_put [OF _ q]) (use p SetTarget_writes [OF assms(2) [OF q'] _ c refl _ q'] in auto)
  qed
qed

lemma runOp_keeps:
  assumes "validate f = []" "quiet op" "runOp op f = Inr f'" "\<And>k p. getPlacement f' k = Some p \<Longrightarrow> placement_valid f' k p"
  shows "keeps_writes f f'"
proof -
  note keep = switches_keep [of f] clusters_keep [of f] new_keeps [of f] rules_keep [OF assms(1)] targets_keep [OF assms(1,4)]
  have inr: "opError r = Inr f' \<Longrightarrow> r = Inr f'" for r by (cases r) (simp_all add: opError_def)
  show ?thesis
  proof (cases op)
    case (OpClearBarrier res i)
    then show ?thesis using assms(3) keep inr by (auto simp: runOp_def split: option.splits prod.splits if_split_asm)
  next
    case (OpPutCluster n c s)
    then show ?thesis using assms(3) by (auto simp: runOp_def PutCluster_def intro!: keeps_writes_same split: if_split_asm)
  qed (use assms(2,3) keep inr in \<open>auto simp: runOp_def quiet_def\<close>)
qed

lemma placement_valid_cong:
  "fClusters f' = fClusters f \<Longrightarrow> fTenants f' = fTenants f \<Longrightarrow> placement_valid f' k p = placement_valid f k p"
  by (simp add: placement_valid_def spread_valid_def plain_valid_def validateKey_def split: prod.split)

lemma nextFile_keeps:
  assumes "validate f = []" "quiet op" "nextFile drawn op f = Inr f'"
  shows "keeps_writes f f'"
proof -
  from assms(3) obtain f1 where f1: "runOp op f = Inr f1" "validate f' = []" "fPlacements f' = fPlacements f1"
      "fClusters f' = fClusters f1" "fTenants f' = fTenants f1"
    by (rule nextFile_Inr)
  have "placement_valid f1 k p" if "getPlacement f1 k = Some p" for k p
    using validate_placements(1) [OF f1(2), of k p] that f1(3) placement_valid_cong [OF f1(4,5)] by (simp add: getPlacement_def)
  from runOp_keeps [OF assms(1,2) f1(1) this] show ?thesis using f1(3) by (simp add: keeps_writes_def getPlacement_def)
qed

subsection \<open>The directory as the request path sees it\<close>

text \<open>\<^verbatim>\<open>directory.Directory\<close>, the seam between the proxy and its directory: what a lookup returns after a
  create or a delete that succeeded.\<close>

locale directory_seam =
  fixes lookup :: "'d \<Rightarrow> string \<times> string \<Rightarrow> placement option"
    and create :: "string \<times> string \<Rightarrow> string \<Rightarrow> string \<Rightarrow> int \<Rightarrow> 'd \<Rightarrow> 'd option"
    and delete :: "string \<times> string \<Rightarrow> 'd \<Rightarrow> 'd option"
    and key_ok :: "string \<times> string \<Rightarrow> bool"
  assumes create_absent: "key_ok k \<Longrightarrow> create k c n now d = Some d' \<Longrightarrow> lookup d k = None"
    and create_lookup: "key_ok k \<Longrightarrow> key_ok k' \<Longrightarrow> create k c n now d = Some d' \<Longrightarrow>
      lookup d' k' = (if k' = k then Some (newPlacement c n now) else lookup d k')"
    and delete_present: "key_ok k \<Longrightarrow> delete k d = Some d' \<Longrightarrow> \<exists>p. lookup d k = Some p \<and> pState p = StateActive"
    and delete_lookup: "key_ok k \<Longrightarrow> key_ok k' \<Longrightarrow> delete k d = Some d' \<Longrightarrow> lookup d' k' = (if k' = k then None else lookup d k')"
begin

lemma create_then_delete:
  assumes "key_ok k" "key_ok k'" "create k c n now d = Some d1" "delete k d1 = Some d2"
  shows "lookup d2 k' = lookup d k'"
  using create_absent [OF assms(1,3)] create_lookup [OF assms(1,2,3)] delete_lookup [OF assms(1,2,4)] by auto

lemma create_once:
  assumes "key_ok k" "create k c n now d = Some d1"
  shows "create k c' n' now' d1 = None"
  using create_absent [OF assms(1)] create_lookup [OF assms(1,1,2)] by (cases "create k c' n' now' d1") auto

lemma creates_commute:
  assumes "key_ok j" "key_ok k" "key_ok l" "j \<noteq> k" "create j c n now d = Some d1" "create k c' n' now' d1 = Some d2"
    and "create k c' n' now' d = Some e1" "create j c n now e1 = Some e2"
  shows "lookup d2 l = lookup e2 l"
  using create_lookup [OF assms(1,3,5)] create_lookup [OF assms(2,3,6)] create_lookup [OF assms(2,3,7)] create_lookup [OF assms(1,3,8)] assms(4)
  by auto

end

definition seamLookup :: "dir_file \<Rightarrow> string \<times> string \<Rightarrow> placement option" where
  "seamLookup f k = Lookup (newSnapshot f) (fst k) (snd k)"

definition seamKey :: "string \<times> string \<Rightarrow> bool" where
  "seamKey k \<longleftrightarrow> CHR ''/'' \<notin> set (fst k) \<and> fst k \<noteq> '''' \<and> snd k \<noteq> ''''"

definition seamCreate :: "identity option \<Rightarrow> string \<times> string \<Rightarrow> string \<Rightarrow> string \<Rightarrow> int \<Rightarrow> dir_file \<Rightarrow> dir_file option" where
  "seamCreate drawn k c n now f =
     (case nextFile drawn (OpCreate (fst k) (snd k) c n now) f of Inl _ \<Rightarrow> None | Inr f' \<Rightarrow> Some f')"

definition seamDelete :: "identity option \<Rightarrow> string \<times> string \<Rightarrow> dir_file \<Rightarrow> dir_file option" where
  "seamDelete drawn k f = (case nextFile drawn (OpDelete (fst k) (snd k)) f of Inl _ \<Rightarrow> None | Inr f' \<Rightarrow> Some f')"

lemma seamLookup_eq: "seamKey k \<Longrightarrow> seamLookup f k = getPlacement f (Key (fst k) (snd k))"
  by (simp add: seamLookup_def seamKey_def Lookup_newSnapshot)

lemma seamKey_inj: "seamKey k \<Longrightarrow> seamKey k' \<Longrightarrow> Key (fst k) (snd k) = Key (fst k') (snd k') \<longleftrightarrow> k = k'"
  using SplitKey_Key [of "fst k" "snd k"] SplitKey_Key [of "fst k'" "snd k'"] by (auto simp: seamKey_def prod_eq_iff)

interpretation seam: directory_seam seamLookup "seamCreate drawn" "seamDelete drawn" seamKey
proof
  fix k k' :: "string \<times> string" and c n :: string and now :: int and d d' :: dir_file
  { assume k: "seamKey k" and c: "seamCreate drawn k c n now d = Some d'"
    then obtain f1 where f: "runOp (OpCreate (fst k) (snd k) c n now) d = Inr f1" "fPlacements d' = fPlacements f1"
      by (auto simp: seamCreate_def split: sum.splits elim: nextFile_Inr)
    then have p: "\<not> hasKey (fPlacements d) (Key (fst k) (snd k))"
        "fPlacements d' = fmupd (Key (fst k) (snd k)) (newPlacement c n now) (fPlacements d)"
      by (auto simp: runOp_def opError_def Create_def Let_def split: if_split_asm)
    show "seamLookup d k = None" using k p(1) by (simp add: seamLookup_eq getPlacement_def fmdom_notD)
    assume k': "seamKey k'"
    show "seamLookup d' k' = (if k' = k then Some (newPlacement c n now) else seamLookup d k')"
      using seamKey_inj [OF k k'] p(2) k k' by (auto simp: seamLookup_eq getPlacement_def) }
  { assume k: "seamKey k" and c: "seamDelete drawn k d = Some d'"
    then obtain f1 where f: "runOp (OpDelete (fst k) (snd k)) d = Inr f1" "fPlacements d' = fPlacements f1"
      by (auto simp: seamDelete_def split: sum.splits elim: nextFile_Inr)
    then obtain p where p: "getPlacement d (Key (fst k) (snd k)) = Some p" "pState p = StateActive"
        "fPlacements d' = fmdrop (Key (fst k) (snd k)) (fPlacements d)"
      by (auto simp: runOp_def opError_def Delete_def Let_def split: if_split_asm option.splits)
    show "\<exists>p. seamLookup d k = Some p \<and> pState p = StateActive" using k p by (simp add: seamLookup_eq)
    assume k': "seamKey k'"
    show "seamLookup d' k' = (if k' = k then None else seamLookup d k')"
      using seamKey_inj [OF k k'] p(3) k k' by (auto simp: seamLookup_eq getPlacement_def) }
qed

end
