(* ===== verification/Admission.thy ===== *)
theory Admission
  imports File_Store "HOL-Library.Multiset"
begin

text \<open>
  A proxy's admission gates (\<^verbatim>\<open>internal/admission/admission.go\<close>, ADR-0021 D2) and the keeper that closes
  and opens them with the directory (\<^verbatim>\<open>GateKeeper\<close> of \<^verbatim>\<open>internal/proxy/gates.go\<close>).

  A gate is a record; its arrays over the two kinds are functions of the kind. Every operation holds the
  gate's lock for its whole effect, so concurrent requests are interleavings of these functions: the step
  relation \<open>astep\<close> runs them against the multiset of tokens that are out. The order in which Go visits a
  map is the parameter \<open>iteration\<close>. The lemmas show that a gate counts exactly the tokens that are out, that a
  closed gate gives none, and that a request routed before a barrier never enters after it.
\<close>

subsection \<open>Gates\<close>

datatype akind = KMutations | KSource

definition kindString :: "akind \<Rightarrow> string" where
  "kindString k = (case k of KSource \<Rightarrow> BarrierSource | KMutations \<Rightarrow> BarrierMutations)"

definition KindOf :: "string \<Rightarrow> akind option" where
  "KindOf kind =
     (if kind = BarrierMutations then Some KMutations else if kind = BarrierSource then Some KSource else None)"

datatype outcome = Definitive | Uncertain

definition Superseded :: string where "Superseded = ''(superseded)''"

type_synonym closed = "akind \<Rightarrow> string"

type_synonym closures = "(string, closed) fmap"

definition open_gate :: closed where "open_gate = (\<lambda>_. '''')"

record gate =
  gtClosed :: closed
  gtFrom :: int
  gtInflight :: "akind \<Rightarrow> int"
  gtUncertain :: "akind \<Rightarrow> int"

definition zeroGate :: gate where
  "zeroGate = \<lparr>gtClosed = open_gate, gtFrom = 0, gtInflight = (\<lambda>_. 0), gtUncertain = (\<lambda>_. 0)\<rparr>"

record gates =
  gsMap :: "(string, gate) fmap"
  gsUncertain :: int

definition gateOf :: "gates \<Rightarrow> string \<Rightarrow> gate" where
  "gateOf g key = (case fmlookup (gsMap g) key of Some gt \<Rightarrow> gt | None \<Rightarrow> zeroGate)"

definition putGate :: "gates \<Rightarrow> string \<Rightarrow> gate \<Rightarrow> gates" where
  "putGate g key gt = g\<lparr>gsMap := fmupd key gt (gsMap g)\<rparr>"

text \<open>A token points at its gate, which is made once and kept: the key names it. No token is \<open>None\<close>.\<close>

type_synonym token = "(string \<times> akind) option"

definition enterGate :: "akind \<Rightarrow> int \<Rightarrow> gate \<Rightarrow> gate \<times> string option" where
  "enterGate kind version gt =
     (if gtClosed gt kind \<noteq> '''' then (gt, Some (gtClosed gt kind))
      else if version < gtFrom gt then (gt, Some Superseded)
      else (gt\<lparr>gtInflight := (gtInflight gt)(kind := gtInflight gt kind + 1)\<rparr>, None))"

text \<open>A nil \<^verbatim>\<open>*Gates\<close> is \<open>None\<close>: it admits everything and counts nothing.\<close>

definition Enter :: "gates option \<Rightarrow> string \<Rightarrow> akind \<Rightarrow> int \<Rightarrow> gates option \<times> token \<times> string \<times> bool" where
  "Enter go key kind version =
     (case go of
        None \<Rightarrow> (None, None, '''', True)
      | Some g \<Rightarrow>
          (case enterGate kind version (gateOf g key) of
             (gt, Some b) \<Rightarrow> (Some (putGate g key gt), None, b, False)
           | (gt, None) \<Rightarrow> (Some (putGate g key gt), Some (key, kind), '''', True)))"

definition releaseGate :: "akind \<Rightarrow> outcome \<Rightarrow> gate \<Rightarrow> gate" where
  "releaseGate kind oc gt =
     (let gt = gt\<lparr>gtInflight := (gtInflight gt)(kind := gtInflight gt kind - 1)\<rparr>
      in if oc = Uncertain then gt\<lparr>gtUncertain := (gtUncertain gt)(kind := gtUncertain gt kind + 1)\<rparr> else gt)"

definition Release :: "token \<Rightarrow> gates \<Rightarrow> outcome \<Rightarrow> gates" where
  "Release t g oc =
     (case t of
        None \<Rightarrow> g
      | Some (key, kind) \<Rightarrow>
          let g = putGate g key (releaseGate kind oc (gateOf g key))
          in if oc = Uncertain then g\<lparr>gsUncertain := gsUncertain g + 1\<rparr> else g)"

definition setGate :: "akind \<Rightarrow> string \<Rightarrow> int \<Rightarrow> gate \<Rightarrow> gate" where
  "setGate kind barrier version gt =
     (let gt = (if gtClosed gt kind \<noteq> '''' \<and> barrier = '''' \<and> gtFrom gt < version then gt\<lparr>gtFrom := version\<rparr> else gt)
      in gt\<lparr>gtClosed := (gtClosed gt)(kind := barrier)\<rparr>)"

definition Close :: "gates \<Rightarrow> string \<Rightarrow> akind \<Rightarrow> string \<Rightarrow> gates" where
  "Close g key kind barrier =
     (let gt = gateOf g key in putGate g key (gt\<lparr>gtClosed := (gtClosed gt)(kind := barrier)\<rparr>))"

definition Open :: "gates \<Rightarrow> string \<Rightarrow> akind \<Rightarrow> int \<Rightarrow> gates" where
  "Open g key kind version =
     (case fmlookup (gsMap g) key of None \<Rightarrow> g | Some gt \<Rightarrow> putGate g key (setGate kind '''' version gt))"

definition kinds :: "akind list" where "kinds = [KMutations, KSource]"

definition applyListed :: "closed \<Rightarrow> int \<Rightarrow> bool \<Rightarrow> gate \<Rightarrow> gate" where
  "applyListed c version sticky gt =
     foldl (\<lambda>gt k. if c k \<noteq> '''' \<or> \<not> sticky then setGate k (c k) version gt else gt) gt kinds"

definition applyOther :: "int \<Rightarrow> gate \<Rightarrow> gate" where
  "applyOther version gt = foldl (\<lambda>gt k. setGate k '''' version gt) gt kinds"

definition Apply_gates :: "gates option \<Rightarrow> closures \<Rightarrow> int \<Rightarrow> bool \<Rightarrow> gates option" where
  "Apply_gates go closures version sticky =
     (case go of
        None \<Rightarrow> None
      | Some g \<Rightarrow>
          let g = foldl (\<lambda>g key. putGate g key
                    (applyListed (case fmlookup closures key of Some c \<Rightarrow> c | None \<Rightarrow> open_gate) version sticky (gateOf g key)))
                  g (sortedKeys closures)
          in if sticky then Some g
             else Some (foldl (\<lambda>g key. if hasKey closures key then g else putGate g key (applyOther version (gateOf g key)))
                    g (sortedKeys (gsMap g))))"

record gate_state =
  gtsClosed :: closed
  gtsInflight :: "akind \<Rightarrow> int"
  gtsUncertain :: "akind \<Rightarrow> int"

definition stateOf :: "gates option \<Rightarrow> string \<Rightarrow> gate_state" where
  "stateOf go key =
     (let gt = (case go of None \<Rightarrow> zeroGate | Some g \<Rightarrow> gateOf g key)
      in \<lparr>gtsClosed = gtClosed gt, gtsInflight = gtInflight gt, gtsUncertain = gtUncertain gt\<rparr>)"

definition uncertainTotal :: "gates option \<Rightarrow> int" where
  "uncertainTotal go = (case go of None \<Rightarrow> 0 | Some g \<Rightarrow> gsUncertain g)"

definition inflightTotal :: "gates option \<Rightarrow> int" where
  "inflightTotal go =
     (case go of
        None \<Rightarrow> 0
      | Some g \<Rightarrow>
          sum_list (map (\<lambda>key. sum_list (map (gtInflight (gateOf g key)) kinds)) (sortedKeys (gsMap g))))"

subsection \<open>Barriers of a directory\<close>

text \<open>The order in which the runtime visits the maps: placements, clusters, and the names and legs of each
  placement.\<close>

record iteration =
  itPlacements :: "string list"
  itClusters :: "string list"
  itNames :: "string \<Rightarrow> string list"
  itLegs :: "string \<Rightarrow> string list"

definition addName :: "string list \<Rightarrow> string \<Rightarrow> string list" where
  "addName out name = (if name = '''' \<or> name \<in> set out then out else out @ [name])"

definition PlacementClusters :: "string list \<Rightarrow> string list \<Rightarrow> placement \<Rightarrow> string list" where
  "PlacementClusters names legs p =
     foldl addName []
       (map (ClusterOf p) [pPrimary p, pSource p, pTarget p, pCold p]
        @ map (ClusterOf p) names
        @ map (\<lambda>i. lCluster (getLeg (legsOf p) i)) legs)"

record own_barrier =
  obName :: string
  obBarrier :: barrier
  obKind :: akind

record derivation =
  dvClosures :: closures
  dvPlacements :: "(string, string list) fmap"
  dvOwn :: "own_barrier list"
  dvClusters :: "own_barrier list"

definition closedAt :: "closures \<Rightarrow> string \<Rightarrow> closed" where
  "closedAt cs key = (case fmlookup cs key of Some c \<Rightarrow> c | None \<Rightarrow> open_gate)"

definition addPlacement :: "(string, string list) fmap \<Rightarrow> string \<Rightarrow> string \<Rightarrow> (string, string list) fmap" where
  "addPlacement m i key = fmupd i (goSlice (fmlookup m i) @ [key]) m"

definition deriveCluster :: "dir_file \<Rightarrow> (string, string) fmap \<times> derivation \<Rightarrow> string \<Rightarrow> (string, string) fmap \<times> derivation" where
  "deriveCluster f st name =
     (case fmlookup (fClusters f) name of
        None \<Rightarrow> st
      | Some c \<Rightarrow>
          (case cBarrier c of
             None \<Rightarrow> st
           | Some b \<Rightarrow>
               (fmupd name (bID b) (fst st),
                (snd st)\<lparr>dvClusters := dvClusters (snd st) @ [\<lparr>obName = name, obBarrier = b, obKind = KMutations\<rparr>]\<rparr>)))"

definition deriveOwn :: "string \<Rightarrow> placement \<Rightarrow> derivation \<Rightarrow> derivation" where
  "deriveOwn key p dv =
     (case pBarrier p of
        None \<Rightarrow> dv
      | Some b \<Rightarrow>
          (case KindOf (bKind b) of
             None \<Rightarrow> dv
           | Some k \<Rightarrow>
               dv\<lparr>dvClosures := fmupd key ((closedAt (dvClosures dv) key)(k := bID b)) (dvClosures dv),
                  dvPlacements := addPlacement (dvPlacements dv) (bID b) key,
                  dvOwn := dvOwn dv @ [\<lparr>obName = key, obBarrier = b, obKind = k\<rparr>]\<rparr>))"

definition deriveOn :: "(string, string) fmap \<Rightarrow> string \<Rightarrow> derivation \<Rightarrow> string \<Rightarrow> derivation" where
  "deriveOn clusterBarriers key dv name =
     (case fmlookup clusterBarriers name of
        None \<Rightarrow> dv
      | Some i \<Rightarrow>
          let cl = closedAt (dvClosures dv) key;
              cl = (if cl KMutations = '''' then cl(KMutations := i) else cl)
          in dv\<lparr>dvClosures := fmupd key cl (dvClosures dv), dvPlacements := addPlacement (dvPlacements dv) i key\<rparr>)"

definition derivePlacement :: "iteration \<Rightarrow> dir_file \<Rightarrow> (string, string) fmap \<Rightarrow> derivation \<Rightarrow> string \<Rightarrow> derivation" where
  "derivePlacement it f clusterBarriers dv key =
     (case getPlacement f key of
        None \<Rightarrow> dv
      | Some p \<Rightarrow>
          let dv = deriveOwn key p dv in
          if mapLen clusterBarriers = 0 then dv
          else foldl (deriveOn clusterBarriers key) dv (PlacementClusters (itNames it key) (itLegs it key) p))"

definition derive :: "iteration \<Rightarrow> dir_file \<Rightarrow> derivation" where
  "derive it f =
     (let (cb, dv) = foldl (deriveCluster f)
            (fmempty, \<lparr>dvClosures = fmempty, dvPlacements = fmempty, dvOwn = [], dvClusters = []\<rparr>) (itClusters it)
      in foldl (derivePlacement it f cb) dv (itPlacements it))"

record ack =
  akID :: string
  akScope :: string
  akGeneration :: int
  akKind :: string
  akClosed :: bool
  akInflight :: int
  akUncertain :: int

definition ackOwn :: "gates option \<Rightarrow> dir_file \<Rightarrow> own_barrier \<Rightarrow> ack" where
  "ackOwn go f ob =
     (let st = stateOf go (obName ob); res = PlacementResource (obName ob)
      in \<lparr>akID = bID (obBarrier ob), akScope = res, akGeneration = Generation f res, akKind = bKind (obBarrier ob),
          akClosed = (gtsClosed st (obKind ob) = bID (obBarrier ob)), akInflight = gtsInflight st (obKind ob),
          akUncertain = gtsUncertain st (obKind ob)\<rparr>)"

definition ackCluster :: "gates option \<Rightarrow> dir_file \<Rightarrow> derivation \<Rightarrow> own_barrier \<Rightarrow> ack" where
  "ackCluster go f dv cb =
     (let res = ClusterResource (obName cb) in
      foldl (\<lambda>a key. let st = stateOf go key in
               a\<lparr>akClosed := akClosed a \<and> gtsClosed st KMutations \<noteq> '''',
                 akInflight := akInflight a + gtsInflight st KMutations,
                 akUncertain := akUncertain a + gtsUncertain st KMutations\<rparr>)
        \<lparr>akID = bID (obBarrier cb), akScope = res, akGeneration = Generation f res, akKind = bKind (obBarrier cb),
         akClosed = True, akInflight = 0, akUncertain = 0\<rparr>
        (goSlice (fmlookup (dvPlacements dv) (bID (obBarrier cb)))))"

definition Acks :: "iteration \<Rightarrow> gates option \<Rightarrow> dir_file \<Rightarrow> ack list" where
  "Acks it go f =
     (let dv = derive it f
      in sort_key akScope (map (ackOwn go f) (dvOwn dv) @ map (ackCluster go f dv) (dvClusters dv)))"

subsection \<open>The keeper\<close>

record gate_keeper =
  gkGates :: "gates option"
  gkInstalled :: "dir_file option"
  gkServed :: "dir_file option"

definition mergeClosures :: "closures \<Rightarrow> closures \<Rightarrow> closures" where
  "mergeClosures cs c =
     foldl (\<lambda>cs key. fmupd key
         (\<lambda>k. if closedAt cs key k = '''' then closedAt c key k else closedAt cs key k) cs)
       cs (sortedKeys c)"

definition keeperClosures :: "iteration \<Rightarrow> iteration \<Rightarrow> gate_keeper \<Rightarrow> closures" where
  "keeperClosures it1 it2 k =
     (let cs = (case gkInstalled k of None \<Rightarrow> fmempty | Some f \<Rightarrow> mergeClosures fmempty (dvClosures (derive it1 f)))
      in case gkServed k of None \<Rightarrow> cs | Some f \<Rightarrow> mergeClosures cs (dvClosures (derive it2 f)))"

definition keeperSticky :: "gate_keeper \<Rightarrow> bool" where
  "keeperSticky k =
     (case (gkInstalled k, gkServed k) of (Some i, Some s) \<Rightarrow> fVersion s < fVersion i | _ \<Rightarrow> False)"

definition keeperVersion :: "gate_keeper \<Rightarrow> int" where
  "keeperVersion k =
     foldl (\<lambda>v so. case so of None \<Rightarrow> v | Some f \<Rightarrow> if v < fVersion f then fVersion f else v) 0 [gkInstalled k, gkServed k]"

definition applyLocked :: "iteration \<Rightarrow> iteration \<Rightarrow> gate_keeper \<Rightarrow> gate_keeper" where
  "applyLocked it1 it2 k =
     k\<lparr>gkGates := Apply_gates (gkGates k) (keeperClosures it1 it2 k) (keeperVersion k) (keeperSticky k)\<rparr>"

definition Installed :: "iteration \<Rightarrow> iteration \<Rightarrow> dir_file \<Rightarrow> gate_keeper \<Rightarrow> gate_keeper" where
  "Installed it1 it2 s k = applyLocked it1 it2 (k\<lparr>gkInstalled := Some s\<rparr>)"

definition Served :: "iteration \<Rightarrow> iteration \<Rightarrow> dir_file \<Rightarrow> gate_keeper \<Rightarrow> gate_keeper" where
  "Served it1 it2 s k = applyLocked it1 it2 (k\<lparr>gkServed := Some s\<rparr>)"

text \<open>\<^verbatim>\<open>dispatched\<close>: how an upstream exchange failed, and how much of the body was sent.\<close>

datatype upstream_error = ConnectError | BuildError | OtherError

definition dispatched :: "upstream_error option \<Rightarrow> int option \<Rightarrow> int \<Rightarrow> bool" where
  "dispatched err sent contentLength =
     (if err = None \<or> err = Some ConnectError \<or> err = Some BuildError then False
      else case sent of None \<Rightarrow> True | Some n \<Rightarrow> contentLength < 0 \<or> contentLength \<le> n)"

definition releaseTokens :: "token \<Rightarrow> token \<Rightarrow> bool \<Rightarrow> bool \<Rightarrow> gates \<Rightarrow> gates" where
  "releaseTokens tok src unc srcUnc g =
     Release src (Release tok g (if unc then Uncertain else Definitive)) (if srcUnc then Uncertain else Definitive)"

subsection \<open>What the gate operations do\<close>

lemma gateOf_putGate [simp]: "gateOf (putGate g key gt) key' = (if key' = key then gt else gateOf g key')"
  by (simp add: gateOf_def putGate_def)

lemma gsUncertain_putGate [simp]: "gsUncertain (putGate g key gt) = gsUncertain g"
  by (simp add: putGate_def)

lemma gateOf_uncertain [simp]: "gateOf (g\<lparr>gsUncertain := n\<rparr>) key = gateOf g key"
  by (simp add: gateOf_def)

lemma setGate_fields [simp]:
  "gtClosed (setGate k b v gt) = (gtClosed gt)(k := b)"
  "gtInflight (setGate k b v gt) = gtInflight gt" "gtUncertain (setGate k b v gt) = gtUncertain gt"
  by (simp_all add: setGate_def Let_def)

lemma setGate_from: "gtFrom (setGate k b v gt) = (if gtClosed gt k \<noteq> '''' \<and> b = '''' then max (gtFrom gt) v else gtFrom gt)"
  by (simp add: setGate_def Let_def)

text \<open>The effect of one application of the closures on one gate.\<close>

definition applied :: "closures \<Rightarrow> int \<Rightarrow> bool \<Rightarrow> string \<Rightarrow> gate \<Rightarrow> gate" where
  "applied cs version sticky key gt =
     (if hasKey cs key then applyListed (closedAt cs key) version sticky gt
      else if sticky then gt else applyOther version gt)"

lemma applied_closed:
  "gtClosed (applied cs v sticky key gt) k =
     (if closedAt cs key k = '''' \<and> sticky then gtClosed gt k else closedAt cs key k)"
  by (cases k)
    (auto simp: applied_def applyListed_def applyOther_def kinds_def closedAt_def open_gate_def hasKey_def
      split: option.splits simp del: hasKey_iff)

lemma applied_counts [simp]:
  "gtInflight (applied cs v sticky key gt) = gtInflight gt" "gtUncertain (applied cs v sticky key gt) = gtUncertain gt"
  by (auto simp: applied_def applyListed_def applyOther_def kinds_def simp del: hasKey_iff)

lemma applied_from: "gtFrom gt \<le> gtFrom (applied cs v sticky key gt)"
  by (auto simp: applied_def applyListed_def applyOther_def kinds_def setGate_from simp del: hasKey_iff)

lemma applied_reopened:
  assumes "gtClosed gt k \<noteq> ''''" "gtClosed (applied cs v sticky key gt) k = ''''"
  shows "v \<le> gtFrom (applied cs v sticky key gt)"
proof -
  have "closedAt cs key k = []" "\<not> sticky"
    using assms by (auto simp: applied_closed split: if_splits)
  with assms(1) show ?thesis
    by (cases k) (auto simp: applied_def applyListed_def applyOther_def kinds_def setGate_from simp del: hasKey_iff)
qed

lemma applied_zeroGate: "\<not> hasKey cs key \<Longrightarrow> applied cs v sticky key zeroGate = zeroGate"
  by (simp add: applied_def applyOther_def kinds_def setGate_def zeroGate_def open_gate_def fun_upd_idem del: hasKey_iff)

lemma foldl_putGate:
  assumes "distinct ks"
  shows "gateOf (foldl (\<lambda>g key. if Q key then g else putGate g key (h key (gateOf g key))) g ks) key =
    (if key \<in> set ks \<and> \<not> Q key then h key (gateOf g key) else gateOf g key)"
  using assms by (induction ks arbitrary: g) auto

lemma gateOf_missing: "\<not> hasKey (gsMap g) key \<Longrightarrow> gateOf g key = zeroGate"
  by (simp add: gateOf_def hasKey_def split: option.splits del: hasKey_iff)

lemma Apply_gates_lookup:
  obtains g' where "Apply_gates (Some g) cs v sticky = Some g'"
    and "\<And>key. gateOf g' key = applied cs v sticky key (gateOf g key)"
proof -
  let ?g1 = "foldl (\<lambda>g key. putGate g key
                    (applyListed (case fmlookup cs key of Some c \<Rightarrow> c | None \<Rightarrow> open_gate) v sticky (gateOf g key)))
                  g (sortedKeys cs)"
  have 1: "gateOf ?g1 key = (if hasKey cs key then applyListed (closedAt cs key) v sticky (gateOf g key) else gateOf g key)" for key
    using foldl_putGate [of "sortedKeys cs" "\<lambda>_. False"
        "\<lambda>key gt. applyListed (case fmlookup cs key of Some c \<Rightarrow> c | None \<Rightarrow> open_gate) v sticky gt" g key]
    by (simp add: closedAt_def)
  show ?thesis
  proof (cases sticky)
    case True
    with 1 show ?thesis
      by (intro that [of ?g1]) (simp_all add: Apply_gates_def Let_def applied_def del: hasKey_iff)
  next
    case False
    let ?g2 = "foldl (\<lambda>g key. if hasKey cs key then g else putGate g key (applyOther v (gateOf g key))) ?g1 (sortedKeys (gsMap ?g1))"
    have "gateOf ?g2 key = applied cs v sticky key (gateOf g key)" for key
    proof -
      have "gateOf ?g2 key = (if hasKey (gsMap ?g1) key \<and> \<not> hasKey cs key then applyOther v (gateOf ?g1 key) else gateOf ?g1 key)"
        using foldl_putGate [of "sortedKeys (gsMap ?g1)" "hasKey cs" "\<lambda>_. applyOther v" ?g1 key] by simp
      also have "\<dots> = applied cs v sticky key (gateOf g key)"
        using 1 [of key] gateOf_missing [of ?g1 key] applied_zeroGate [of cs key v sticky] False
        by (auto simp: applied_def simp del: hasKey_iff)
      finally show ?thesis .
    qed
    moreover have "Apply_gates (Some g) cs v sticky = Some ?g2"
      using False by (simp only: Apply_gates_def Let_def option.case if_False)
    ultimately show ?thesis by (rule that [rotated])
  qed
qed

subsection \<open>What a directory's barriers close\<close>

definition clusterBarrier :: "dir_file \<Rightarrow> string \<Rightarrow> barrier option" where
  "clusterBarrier f name = Option.bind (fmlookup (fClusters f) name) cBarrier"

definition hasBucketOn :: "placement \<Rightarrow> string \<Rightarrow> bool" where
  "hasBucketOn p name \<longleftrightarrow>
     name \<noteq> '''' \<and> (name \<in> ClusterOf p ` ({pPrimary p, pSource p, pTarget p, pCold p} \<union> fset (fmdom (goMap (pNames p))))
       \<or> name \<in> (\<lambda>i. lCluster (getLeg (legsOf p) i)) ` fset (fmdom (legsOf p)))"

definition iter_ok :: "iteration \<Rightarrow> dir_file \<Rightarrow> bool" where
  "iter_ok it f \<longleftrightarrow>
     set (itPlacements it) = fset (fmdom (fPlacements f)) \<and> set (itClusters it) = fset (fmdom (fClusters f)) \<and>
     (\<forall>key p. getPlacement f key = Some p \<longrightarrow>
        set (itNames it key) = fset (fmdom (goMap (pNames p))) \<and> set (itLegs it key) = fset (fmdom (legsOf p)))"

definition barrier_ids :: "dir_file \<Rightarrow> bool" where
  "barrier_ids f \<longleftrightarrow>
     (\<forall>key p b. getPlacement f key = Some p \<longrightarrow> pBarrier p = Some b \<longrightarrow> bID b \<noteq> '''') \<and>
     (\<forall>name b. clusterBarrier f name = Some b \<longrightarrow> bID b \<noteq> '''')"

definition closes :: "dir_file \<Rightarrow> string \<Rightarrow> akind \<Rightarrow> bool" where
  "closes f key k \<longleftrightarrow>
     (\<exists>p. getPlacement f key = Some p \<and>
        ((\<exists>b. pBarrier p = Some b \<and> KindOf (bKind b) = Some k) \<or>
         (k = KMutations \<and> (\<exists>name b. hasBucketOn p name \<and> clusterBarrier f name = Some b))))"

lemma set_addName1 [simp]: "set (addName out n) = set out \<union> ({n} - {[]})"
  by (auto simp: addName_def)

lemma set_addName: "set (foldl addName out ns) = set out \<union> (set ns - {''''})"
  by (induction ns arbitrary: out) auto

lemma set_PlacementClusters:
  assumes "iter_ok it f" "getPlacement f key = Some p"
  shows "name \<in> set (PlacementClusters (itNames it key) (itLegs it key) p) \<longleftrightarrow> hasBucketOn p name"
  using assms by (auto simp: PlacementClusters_def set_addName hasBucketOn_def iter_ok_def)

lemma closedAt_fmupd [simp]: "closedAt (fmupd key c cs) key' = (if key' = key then c else closedAt cs key')"
  by (simp add: closedAt_def)

lemma addPlacement_lookup [simp]:
  "goSlice (fmlookup (addPlacement m i key) j) = (if i = j then goSlice (fmlookup m i) @ [key] else goSlice (fmlookup m j))"
  by (simp add: addPlacement_def)

lemma deriveCluster_fold:
  "fmlookup (fst (foldl (deriveCluster f) st ns)) name =
     (if name \<in> set ns \<and> clusterBarrier f name \<noteq> None then map_option bID (clusterBarrier f name) else fmlookup (fst st) name)"
  "dvClosures (snd (foldl (deriveCluster f) st ns)) = dvClosures (snd st)"
  "dvPlacements (snd (foldl (deriveCluster f) st ns)) = dvPlacements (snd st)"
  "dvOwn (snd (foldl (deriveCluster f) st ns)) = dvOwn (snd st)"
  "set (dvClusters (snd (foldl (deriveCluster f) st ns))) = set (dvClusters (snd st)) \<union>
     {\<lparr>obName = n, obBarrier = b, obKind = KMutations\<rparr> | n b. n \<in> set ns \<and> clusterBarrier f n = Some b}"
  by (induction ns arbitrary: st)
    (auto simp: deriveCluster_def clusterBarrier_def split: option.splits)

lemma deriveOn_fold:
  assumes "\<And>name i. fmlookup cb name = Some i \<Longrightarrow> i \<noteq> ''''"
  shows "closedAt (dvClosures (foldl (deriveOn cb key) dv ns)) key' k \<noteq> '''' \<longleftrightarrow>
      closedAt (dvClosures dv) key' k \<noteq> '''' \<or> (key' = key \<and> k = KMutations \<and> (\<exists>name\<in>set ns. fmlookup cb name \<noteq> None))"
  using assms
  by (induction ns arbitrary: dv) (auto simp: deriveOn_def Let_def split: option.splits if_splits)

lemma deriveOn_placements:
  "key' \<in> set (goSlice (fmlookup (dvPlacements (foldl (deriveOn cb key) dv ns)) i)) \<longleftrightarrow>
      key' \<in> set (goSlice (fmlookup (dvPlacements dv) i)) \<or> (key' = key \<and> (\<exists>name\<in>set ns. fmlookup cb name = Some i))"
  by (induction ns arbitrary: dv) (auto simp: deriveOn_def Let_def split: option.splits)

lemma deriveOn_lists [simp]:
  "dvOwn (foldl (deriveOn cb key) dv ns) = dvOwn dv" "dvClusters (foldl (deriveOn cb key) dv ns) = dvClusters dv"
  by (induction ns arbitrary: dv) (auto simp: deriveOn_def Let_def split: option.splits)

lemma mapLen_0 [simp]: "mapLen m = 0 \<longleftrightarrow> m = fmempty"
proof
  assume "mapLen m = 0"
  then have "fmdom m = {||}" by (simp add: mapLen_def)
  then show "m = fmempty" by (metis fmrestrict_fset_dom fmrestrict_fset_null)
qed simp

definition ownBarrier :: "dir_file \<Rightarrow> string \<Rightarrow> (barrier \<times> akind) option" where
  "ownBarrier f key = Option.bind (getPlacement f key) (\<lambda>p. Option.bind (pBarrier p)
     (\<lambda>b. map_option (Pair b) (KindOf (bKind b))))"

lemma derivePlacement_closed:
  assumes "\<And>name i. fmlookup cb name = Some i \<Longrightarrow> i \<noteq> ''''" "barrier_ids f"
  shows "closedAt (dvClosures (derivePlacement it f cb dv key)) key' k \<noteq> '''' \<longleftrightarrow>
    closedAt (dvClosures dv) key' k \<noteq> '''' \<or>
    (key' = key \<and> ((\<exists>b. ownBarrier f key = Some (b, k)) \<or> (k = KMutations \<and> (\<exists>p. getPlacement f key = Some p \<and>
        (\<exists>name\<in>set (PlacementClusters (itNames it key) (itLegs it key) p). fmlookup cb name \<noteq> None)))))"
proof (cases "getPlacement f key")
  case None
  then show ?thesis by (simp add: derivePlacement_def ownBarrier_def)
next
  case (Some p)
  have own: "closedAt (dvClosures (deriveOwn key p dv)) key' k \<noteq> '''' \<longleftrightarrow>
      closedAt (dvClosures dv) key' k \<noteq> '''' \<or> (key' = key \<and> (\<exists>b. ownBarrier f key = Some (b, k)))"
    using assms(2) Some by (auto simp: deriveOwn_def barrier_ids_def ownBarrier_def split: option.splits)
  then show ?thesis
    using Some by (auto simp: derivePlacement_def Let_def deriveOn_fold [OF assms(1)] own)
qed

lemma derivePlacement_placements:
  "key' \<in> set (goSlice (fmlookup (dvPlacements (derivePlacement it f cb dv key)) i)) \<longleftrightarrow>
    key' \<in> set (goSlice (fmlookup (dvPlacements dv) i)) \<or>
    (key' = key \<and> ((\<exists>b k. ownBarrier f key = Some (b, k) \<and> bID b = i) \<or> (\<exists>p. getPlacement f key = Some p \<and>
        (\<exists>name\<in>set (PlacementClusters (itNames it key) (itLegs it key) p). fmlookup cb name = Some i))))"
proof (cases "getPlacement f key")
  case None
  then show ?thesis by (simp add: derivePlacement_def ownBarrier_def)
next
  case (Some p)
  have own: "key' \<in> set (goSlice (fmlookup (dvPlacements (deriveOwn key p dv)) i)) \<longleftrightarrow>
      key' \<in> set (goSlice (fmlookup (dvPlacements dv) i)) \<or> (key' = key \<and> (\<exists>b k. ownBarrier f key = Some (b, k) \<and> bID b = i))"
    using Some by (auto simp: deriveOwn_def ownBarrier_def split: option.splits)
  then show ?thesis
    using Some by (auto simp: derivePlacement_def Let_def deriveOn_placements own)
qed

lemma derivePlacement_lists:
  "set (dvOwn (derivePlacement it f cb dv key)) = set (dvOwn dv) \<union>
     {\<lparr>obName = key, obBarrier = b, obKind = k\<rparr> | b k. ownBarrier f key = Some (b, k)}"
  "dvClusters (derivePlacement it f cb dv key) = dvClusters dv"
  by (auto simp: derivePlacement_def deriveOwn_def Let_def ownBarrier_def split: option.splits)

lemma foldl_disj:
  assumes "\<And>dv x. P (h dv x) \<longleftrightarrow> P dv \<or> Q x"
  shows "P (foldl h dv xs) \<longleftrightarrow> P dv \<or> (\<exists>x\<in>set xs. Q x)"
  using assms by (induction xs arbitrary: dv) auto

lemma derivePlacement_fold:
  assumes "\<And>name i. fmlookup cb name = Some i \<Longrightarrow> i \<noteq> ''''" "barrier_ids f"
  shows "closedAt (dvClosures (foldl (derivePlacement it f cb) dv keys)) key k \<noteq> '''' \<longleftrightarrow>
    closedAt (dvClosures dv) key k \<noteq> '''' \<or>
    (key \<in> set keys \<and> ((\<exists>b. ownBarrier f key = Some (b, k)) \<or> (k = KMutations \<and> (\<exists>p. getPlacement f key = Some p \<and>
        (\<exists>name\<in>set (PlacementClusters (itNames it key) (itLegs it key) p). fmlookup cb name \<noteq> None)))))"
  by (subst foldl_disj [where P = "\<lambda>dv. closedAt (dvClosures dv) key k \<noteq> []", OF derivePlacement_closed [OF assms]]) simp_all

lemma derivePlacement_fold_placements:
  "key \<in> set (goSlice (fmlookup (dvPlacements (foldl (derivePlacement it f cb) dv keys)) i)) \<longleftrightarrow>
    key \<in> set (goSlice (fmlookup (dvPlacements dv) i)) \<or>
    (key \<in> set keys \<and> ((\<exists>b k. ownBarrier f key = Some (b, k) \<and> bID b = i) \<or> (\<exists>p. getPlacement f key = Some p \<and>
        (\<exists>name\<in>set (PlacementClusters (itNames it key) (itLegs it key) p). fmlookup cb name = Some i))))"
  by (subst foldl_disj [where P = "\<lambda>dv. key \<in> set (goSlice (fmlookup (dvPlacements dv) i))", OF derivePlacement_placements]) simp

lemma derivePlacement_fold_lists:
  "set (dvOwn (foldl (derivePlacement it f cb) dv keys)) = set (dvOwn dv) \<union>
     {\<lparr>obName = key, obBarrier = b, obKind = k\<rparr> | key b k. key \<in> set keys \<and> ownBarrier f key = Some (b, k)}"
  "dvClusters (foldl (derivePlacement it f cb) dv keys) = dvClusters dv"
  by (induction keys arbitrary: dv) (auto simp: derivePlacement_lists)

lemma getPlacement_dom: "getPlacement f key = Some p \<Longrightarrow> key |\<in>| fmdom (fPlacements f)"
  by (simp add: getPlacement_def fmdomI)

lemma clusterBarrier_dom: "clusterBarrier f name = Some b \<Longrightarrow> name |\<in>| fmdom (fClusters f)"
  by (auto simp: clusterBarrier_def Option.bind_eq_Some_conv intro: fmdomI)

lemma derive_parts:
  assumes it: "iter_ok it f"
  obtains cb dv where "derive it f = foldl (derivePlacement it f cb) dv (itPlacements it)"
    and "\<And>name. fmlookup cb name = map_option bID (clusterBarrier f name)"
    and "dvClosures dv = fmempty" "dvPlacements dv = fmempty" "dvOwn dv = []"
    and "set (dvClusters dv) = {\<lparr>obName = n, obBarrier = b, obKind = KMutations\<rparr> | n b. clusterBarrier f n = Some b}"
proof -
  let ?st = "(fmempty, \<lparr>dvClosures = fmempty, dvPlacements = fmempty, dvOwn = [], dvClusters = []\<rparr>)
    :: (string, string) fmap \<times> derivation"
  let ?r = "foldl (deriveCluster f) ?st (itClusters it)"
  have dom: "name \<in> set (itClusters it)" if "clusterBarrier f name = Some b" for name b
    using clusterBarrier_dom [OF that] it by (simp add: iter_ok_def)
  show ?thesis
  proof (rule that [of "fst ?r" "snd ?r"])
    show "derive it f = foldl (derivePlacement it f (fst ?r)) (snd ?r) (itPlacements it)"
      by (simp add: derive_def case_prod_beta)
    show "fmlookup (fst ?r) name = map_option bID (clusterBarrier f name)" for name
      using dom [of name] by (cases "clusterBarrier f name") (simp_all add: deriveCluster_fold(1))
    show "set (dvClusters (snd ?r)) = {\<lparr>obName = n, obBarrier = b, obKind = KMutations\<rparr> | n b. clusterBarrier f n = Some b}"
      using dom by (simp add: deriveCluster_fold(5)) blast
  qed (simp_all add: deriveCluster_fold)
qed

text \<open>\<^verbatim>\<open>Barriers\<close>: whatever the order of the maps, the gates closed are those of the barriers in the directory.\<close>

lemma derive_closes:
  assumes it: "iter_ok it f" and ids: "barrier_ids f"
  shows "closedAt (dvClosures (derive it f)) key k \<noteq> [] \<longleftrightarrow> closes f key k"
proof -
  obtain cb dv where d: "derive it f = foldl (derivePlacement it f cb) dv (itPlacements it)"
    and cb: "\<And>name. fmlookup cb name = map_option bID (clusterBarrier f name)" and dv: "dvClosures dv = fmempty"
    by (rule derive_parts [OF it]) blast
  have ne: "i \<noteq> []" if "fmlookup cb name = Some i" for name i
    using that ids unfolding cb barrier_ids_def by blast
  have on: "(\<exists>name\<in>set (PlacementClusters (itNames it key) (itLegs it key) p). fmlookup cb name \<noteq> None) \<longleftrightarrow>
      (\<exists>name b. hasBucketOn p name \<and> clusterBarrier f name = Some b)" if "getPlacement f key = Some p" for p
    unfolding Bex_def set_PlacementClusters [OF it that] cb by auto
  have own: "(\<exists>b. ownBarrier f key = Some (b, k)) \<longleftrightarrow>
      (\<exists>p b. getPlacement f key = Some p \<and> pBarrier p = Some b \<and> KindOf (bKind b) = Some k)"
    by (auto simp: ownBarrier_def Option.bind_eq_Some_conv)
  have dom: "getPlacement f key = Some p \<Longrightarrow> key \<in> set (itPlacements it)" for p
    using getPlacement_dom [of f key p] it by (simp add: iter_ok_def)
  have "closedAt (dvClosures dv) key k = []" by (simp add: dv closedAt_def open_gate_def)
  then have "closedAt (dvClosures (derive it f)) key k \<noteq> [] \<longleftrightarrow>
    key \<in> set (itPlacements it) \<and> ((\<exists>b. ownBarrier f key = Some (b, k)) \<or> (k = KMutations \<and> (\<exists>p. getPlacement f key = Some p \<and>
        (\<exists>name\<in>set (PlacementClusters (itNames it key) (itLegs it key) p). fmlookup cb name \<noteq> None))))"
    using derivePlacement_fold [of cb f it dv "itPlacements it" key k] ne ids unfolding d by simp
  also have "\<dots> \<longleftrightarrow> closes f key k"
    unfolding own closes_def using on dom by blast
  finally show ?thesis .
qed

lemma derive_own:
  assumes "iter_ok it f" "ownBarrier f key = Some (b, k)"
  shows "\<lparr>obName = key, obBarrier = b, obKind = k\<rparr> \<in> set (dvOwn (derive it f))"
proof -
  obtain p where "getPlacement f key = Some p"
    using assms(2) by (auto simp: ownBarrier_def Option.bind_eq_Some_conv)
  then have "key \<in> set (itPlacements it)"
    using getPlacement_dom assms(1) by (auto simp: iter_ok_def)
  moreover obtain cb dv where "derive it f = foldl (derivePlacement it f cb) dv (itPlacements it)"
    by (rule derive_parts [OF assms(1)])
  ultimately show ?thesis
    using assms(2) by (simp add: derivePlacement_fold_lists(1))
qed

lemma derive_cluster:
  assumes it: "iter_ok it f" and b: "clusterBarrier f name = Some b"
  shows "\<lparr>obName = name, obBarrier = b, obKind = KMutations\<rparr> \<in> set (dvClusters (derive it f))"
    and "getPlacement f key = Some p \<Longrightarrow> hasBucketOn p name \<Longrightarrow> key \<in> set (goSlice (fmlookup (dvPlacements (derive it f)) (bID b)))"
proof -
  obtain cb dv where d: "derive it f = foldl (derivePlacement it f cb) dv (itPlacements it)"
    and cb: "\<And>name. fmlookup cb name = map_option bID (clusterBarrier f name)"
    and cl: "set (dvClusters dv) = {\<lparr>obName = n, obBarrier = b, obKind = KMutations\<rparr> | n b. clusterBarrier f n = Some b}"
    by (rule derive_parts [OF it]) blast
  show "\<lparr>obName = name, obBarrier = b, obKind = KMutations\<rparr> \<in> set (dvClusters (derive it f))"
    using b by (simp add: d derivePlacement_fold_lists(2) cl)
  assume p: "getPlacement f key = Some p" and on: "hasBucketOn p name"
  have "name \<in> set (PlacementClusters (itNames it key) (itLegs it key) p)"
    using set_PlacementClusters [OF it p] on by simp
  then have "\<exists>name\<in>set (PlacementClusters (itNames it key) (itLegs it key) p). fmlookup cb name = Some (bID b)"
    using b by (intro bexI [of _ name]) (simp_all add: cb)
  moreover have "key \<in> set (itPlacements it)"
    using getPlacement_dom [OF p] it by (simp add: iter_ok_def)
  ultimately show "key \<in> set (goSlice (fmlookup (dvPlacements (derive it f)) (bID b)))"
    unfolding d derivePlacement_fold_placements using p by blast
qed

subsection \<open>The keeper over the gates\<close>

lemma closedAt_fmempty [simp]: "closedAt fmempty key k = ''''"
  by (simp add: closedAt_def open_gate_def)

lemma mergeClosures_at:
  "closedAt (mergeClosures cs c) key k = (if closedAt cs key k = '''' then closedAt c key k else closedAt cs key k)"
proof -
  have fold: "distinct keys \<Longrightarrow>
    closedAt (foldl (\<lambda>cs key. fmupd key (\<lambda>k. if closedAt cs key k = '''' then closedAt c key k else closedAt cs key k) cs) cs keys) key k =
      (if key \<in> set keys \<and> closedAt cs key k = '''' then closedAt c key k else closedAt cs key k)" for keys
    by (induction keys arbitrary: cs) auto
  have "closedAt c key k = ''''" if "key \<notin> set (sortedKeys c)"
    using that by (simp add: closedAt_def open_gate_def fmdom_notD)
  then show ?thesis
    unfolding mergeClosures_def by (subst fold) auto
qed

text \<open>What the keeper relies on: how applying closures moves the gates.\<close>

locale barrier_gates =
  fixes closedOf :: "'g \<Rightarrow> string \<Rightarrow> akind \<Rightarrow> string"
    and fromOf :: "'g \<Rightarrow> string \<Rightarrow> int"
    and applyTo :: "'g \<Rightarrow> closures \<Rightarrow> int \<Rightarrow> bool \<Rightarrow> 'g"
  assumes apply_closed: "closedOf (applyTo g cs v sticky) key k =
      (if closedAt cs key k = '''' \<and> sticky then closedOf g key k else closedAt cs key k)"
    and apply_from: "fromOf g key \<le> fromOf (applyTo g cs v sticky) key"
    and apply_reopened: "closedOf g key k \<noteq> '''' \<Longrightarrow> closedOf (applyTo g cs v sticky) key k = '''' \<Longrightarrow>
      v \<le> fromOf (applyTo g cs v sticky) key"
begin

definition shut :: "int \<Rightarrow> string \<Rightarrow> akind \<Rightarrow> 'g \<Rightarrow> bool" where
  "shut v key k g \<longleftrightarrow> closedOf g key k \<noteq> '''' \<or> v \<le> fromOf g key"

lemma apply_shut: "shut v key k g \<Longrightarrow> v \<le> v' \<Longrightarrow> shut v key k (applyTo g cs v' sticky)"
  unfolding shut_def using apply_from [of g key cs v' sticky] apply_reopened [of g key k cs v' sticky]
  by (metis order.trans)

lemma apply_closes: "closedAt cs key k \<noteq> '''' \<Longrightarrow> closedOf (applyTo g cs v sticky) key k = closedAt cs key k"
  by (simp add: apply_closed)

lemma apply_opens: "closedAt cs key k = '''' \<Longrightarrow> closedOf (applyTo g cs v False) key k = ''''"
  by (simp add: apply_closed)

lemma apply_sticky: "closedOf g key k \<noteq> '''' \<Longrightarrow> closedOf (applyTo g cs v True) key k \<noteq> ''''"
  by (simp add: apply_closed)

end

definition applyAll :: "gates \<Rightarrow> closures \<Rightarrow> int \<Rightarrow> bool \<Rightarrow> gates" where
  "applyAll g cs v sticky = the (Apply_gates (Some g) cs v sticky)"

lemma gateOf_applyAll [simp]: "gateOf (applyAll g cs v sticky) key = applied cs v sticky key (gateOf g key)"
  by (rule Apply_gates_lookup [of g cs v sticky]) (simp add: applyAll_def)

lemma Apply_gates_Some: "Apply_gates (Some g) cs v sticky = Some (applyAll g cs v sticky)"
  by (rule Apply_gates_lookup [of g cs v sticky]) (simp add: applyAll_def)

interpretation barred: barrier_gates "\<lambda>g key. gtClosed (gateOf g key)" "\<lambda>g key. gtFrom (gateOf g key)" applyAll
  by unfold_locales (simp_all add: applied_closed applied_from applied_reopened del: applied_counts)

lemma keeperClosures_at:
  "closedAt (keeperClosures it1 it2 k) key kind \<noteq> '''' \<longleftrightarrow>
     (\<exists>f. gkInstalled k = Some f \<and> closedAt (dvClosures (derive it1 f)) key kind \<noteq> '''') \<or>
     (\<exists>f. gkServed k = Some f \<and> closedAt (dvClosures (derive it2 f)) key kind \<noteq> '''')"
  by (simp add: keeperClosures_def mergeClosures_at split: option.splits)

lemma keeperVersion_max:
  "keeperVersion k = max (max 0 (case gkInstalled k of None \<Rightarrow> 0 | Some f \<Rightarrow> fVersion f)) (case gkServed k of None \<Rightarrow> 0 | Some f \<Rightarrow> fVersion f)"
  by (simp add: keeperVersion_def split: option.splits)

lemma applyLocked_gates:
  "gkGates k = Some g \<Longrightarrow>
     gkGates (applyLocked it1 it2 k) = Some (applyAll g (keeperClosures it1 it2 k) (keeperVersion k) (keeperSticky k))"
  by (simp add: applyLocked_def Apply_gates_Some)

lemma applyLocked_fields [simp]:
  "gkInstalled (applyLocked it1 it2 k) = gkInstalled k" "gkServed (applyLocked it1 it2 k) = gkServed k"
  "keeperVersion (applyLocked it1 it2 k) = keeperVersion k"
  by (simp_all add: applyLocked_def keeperVersion_max)

text \<open>After every install and every publish, a barrier in either directory closes its gates; a gate opens only when
  neither has one.\<close>

lemma applyLocked_closed:
  assumes "gkGates k = Some g" "gkGates (applyLocked it1 it2 k) = Some g'"
    and "\<And>f. gkInstalled k = Some f \<Longrightarrow> iter_ok it1 f \<and> barrier_ids f"
    and "\<And>f. gkServed k = Some f \<Longrightarrow> iter_ok it2 f \<and> barrier_ids f"
  shows "gtClosed (gateOf g' key) kind \<noteq> '''' \<longleftrightarrow>
    (\<exists>f. (gkInstalled k = Some f \<or> gkServed k = Some f) \<and> closes f key kind) \<or>
    (keeperSticky k \<and> gtClosed (gateOf g key) kind \<noteq> '''')"
proof -
  have "closedAt (keeperClosures it1 it2 k) key kind \<noteq> '''' \<longleftrightarrow>
      (\<exists>f. (gkInstalled k = Some f \<or> gkServed k = Some f) \<and> closes f key kind)"
    unfolding keeperClosures_at using assms(3,4) derive_closes by blast
  moreover have "g' = applyAll g (keeperClosures it1 it2 k) (keeperVersion k) (keeperSticky k)"
    using applyLocked_gates [OF assms(1)] assms(2) by simp
  ultimately show ?thesis
    by (auto simp: applied_closed split: if_splits)
qed

subsection \<open>Requests against the gates\<close>

text \<open>A proxy's run: directories are installed and published in version order, requests enter and give their
  tokens back in any order. The multiset holds, for every token out, its gate and the directory version its
  request routes by.\<close>

type_synonym tokens = "(string \<times> akind \<times> int) multiset"

definition notOlder :: "dir_file option \<Rightarrow> dir_file \<Rightarrow> bool" where
  "notOlder so s \<longleftrightarrow> (case so of None \<Rightarrow> True | Some f \<Rightarrow> fVersion f \<le> fVersion s)"

inductive kstep :: "gate_keeper \<times> tokens \<Rightarrow> gate_keeper \<times> tokens \<Rightarrow> bool" where
  kInstalled: "notOlder (gkInstalled k) s \<Longrightarrow> kstep (k, T) (Installed it1 it2 s k, T)"
| kServed: "notOlder (gkServed k) s \<Longrightarrow> kstep (k, T) (Served it1 it2 s k, T)"
| kEnter: "Enter (gkGates k) key kind v = (go, t, b, True) \<Longrightarrow> kstep (k, T) (k\<lparr>gkGates := go\<rparr>, add_mset (key, kind, v) T)"
| kRefused: "Enter (gkGates k) key kind v = (go, t, b, False) \<Longrightarrow> kstep (k, T) (k\<lparr>gkGates := go\<rparr>, T)"
| kRelease: "(key, kind, v) \<in># T \<Longrightarrow> gkGates k = Some g \<Longrightarrow>
    kstep (k, T) (k\<lparr>gkGates := Some (Release (Some (key, kind)) g oc)\<rparr>, T - {#(key, kind, v)#})"

definition newKeeper :: gate_keeper where
  "newKeeper = \<lparr>gkGates = Some \<lparr>gsMap = fmempty, gsUncertain = 0\<rparr>, gkInstalled = None, gkServed = None\<rparr>"

definition tokensOut :: "tokens \<Rightarrow> string \<Rightarrow> akind \<Rightarrow> nat" where
  "tokensOut T key kind = size (filter_mset (\<lambda>(a, b, _). a = key \<and> b = kind) T)"

definition counted :: "gate_keeper \<times> tokens \<Rightarrow> bool" where
  "counted kt \<longleftrightarrow> (\<exists>g. gkGates (fst kt) = Some g \<and>
     (\<forall>key kind. gtInflight (gateOf g key) kind = int (tokensOut (snd kt) key kind)))"

lemma tokensOut_add [simp]: "tokensOut (add_mset (a, b, v) T) key kind = (if a = key \<and> b = kind then 1 else 0) + tokensOut T key kind"
  by (simp add: tokensOut_def)

lemma tokensOut_remove:
  assumes "(a, b, v) \<in># T"
  shows "int (tokensOut (T - {#(a, b, v)#}) key kind) = int (tokensOut T key kind) - (if a = key \<and> b = kind then 1 else 0)"
proof -
  obtain U where "T = add_mset (a, b, v) U" using assms by (meson multi_member_split)
  then show ?thesis by simp
qed

lemma Enter_True:
  assumes "Enter (Some g) key kind v = (go, t, b, True)"
  shows "gtClosed (gateOf g key) kind = []" "gtFrom (gateOf g key) \<le> v"
    "go = Some (putGate g key ((gateOf g key)\<lparr>gtInflight := (gtInflight (gateOf g key))(kind := gtInflight (gateOf g key) kind + 1)\<rparr>))"
  using assms by (auto simp: Enter_def enterGate_def split: if_splits)

lemma Enter_False:
  assumes "Enter (Some g) key kind v = (go, t, b, False)"
  shows "go = Some (putGate g key (gateOf g key))"
  using assms by (auto simp: Enter_def enterGate_def split: if_splits)

lemma gateOf_Release:
  "gateOf (Release (Some (key, kind)) g oc) key' =
     (if key' = key then releaseGate kind oc (gateOf g key) else gateOf g key')"
  by (simp add: Release_def Let_def)

lemma releaseGate_fields [simp]:
  "gtClosed (releaseGate kind oc gt) = gtClosed gt" "gtFrom (releaseGate kind oc gt) = gtFrom gt"
  "gtInflight (releaseGate kind oc gt) = (gtInflight gt)(kind := gtInflight gt kind - 1)"
  by (simp_all add: releaseGate_def Let_def)

lemma applyLocked_counted: "counted (k, T) \<Longrightarrow> counted (applyLocked it1 it2 k, T)"
  by (auto simp: counted_def applyLocked_gates)

lemma counted_fields [simp]: "counted (k\<lparr>gkInstalled := i\<rparr>, T) = counted (k, T)" "counted (k\<lparr>gkServed := i\<rparr>, T) = counted (k, T)"
  by (simp_all add: counted_def)

lemma kstep_counted:
  assumes "kstep kt kt'" "counted kt"
  shows "counted kt'"
  using assms
proof (induction rule: kstep.induct)
  case (kEnter k key kind v go t b T)
  then obtain g where g: "gkGates k = Some g" by (auto simp: counted_def)
  show ?case
    using kEnter(2) unfolding Enter_True(3) [OF kEnter(1) [unfolded g]] by (auto simp: counted_def g)
next
  case (kRefused k key kind v go t b T)
  then obtain g where g: "gkGates k = Some g" by (auto simp: counted_def)
  show ?case
    using kRefused(2) unfolding Enter_False [OF kRefused(1) [unfolded g]] by (auto simp: counted_def g)
next
  case (kRelease key kind v T k g oc)
  then show ?case
    by (auto simp: counted_def gateOf_Release tokensOut_remove)
qed (simp_all add: Installed_def Served_def applyLocked_counted)

lemma newKeeper_counted: "counted (newKeeper, {#})"
  by (simp add: counted_def newKeeper_def gateOf_def zeroGate_def tokensOut_def)

lemma run_counted: "kstep\<^sup>*\<^sup>* (newKeeper, {#}) kt \<Longrightarrow> counted kt"
  by (induction rule: rtranclp_induct) (auto intro: kstep_counted newKeeper_counted)

lemma kstep_version: "kstep kt kt' \<Longrightarrow> keeperVersion (fst kt) \<le> keeperVersion (fst kt')"
  by (induction rule: kstep.induct)
    (auto simp: Installed_def Served_def keeperVersion_max notOlder_def split: option.splits)

text \<open>Once a gate is closed and drained, no request routed by an older version holds one of its tokens again.\<close>

definition drainedAt :: "int \<Rightarrow> string \<Rightarrow> akind \<Rightarrow> gate_keeper \<times> tokens \<Rightarrow> bool" where
  "drainedAt v key kind kt \<longleftrightarrow> v \<le> keeperVersion (fst kt) \<and>
     (\<exists>g. gkGates (fst kt) = Some g \<and> (gtClosed (gateOf g key) kind \<noteq> '''' \<or> v \<le> gtFrom (gateOf g key))) \<and>
     (\<forall>w. (key, kind, w) \<in># snd kt \<longrightarrow> v \<le> w)"

lemma applyLocked_drained: "drainedAt v key kind (k, T) \<Longrightarrow> drainedAt v key kind (applyLocked it1 it2 k, T)"
  unfolding drainedAt_def using barred.apply_shut [of v key kind, unfolded barred.shut_def]
  by (fastforce simp: applyLocked_gates simp del: gateOf_applyAll)

lemma kstep_drained:
  assumes "kstep kt kt'" "drainedAt v key kind kt"
  shows "drainedAt v key kind kt'"
  using assms
proof (induction rule: kstep.induct)
  case (kInstalled k s T it1 it2)
  then have "drainedAt v key kind (k\<lparr>gkInstalled := Some s\<rparr>, T)"
    by (auto simp: drainedAt_def keeperVersion_max notOlder_def split: option.splits)
  then show ?case unfolding Installed_def by (rule applyLocked_drained)
next
  case (kServed k s T it1 it2)
  then have "drainedAt v key kind (k\<lparr>gkServed := Some s\<rparr>, T)"
    by (auto simp: drainedAt_def keeperVersion_max notOlder_def split: option.splits)
  then show ?case unfolding Served_def by (rule applyLocked_drained)
next
  case (kEnter k key' kind' w go t b T)
  then obtain g where g: "gkGates k = Some g" by (auto simp: drainedAt_def)
  show ?case
    using kEnter(2) Enter_True(1,2) [OF kEnter(1) [unfolded g]] unfolding Enter_True(3) [OF kEnter(1) [unfolded g]]
    by (auto simp: drainedAt_def g keeperVersion_max)
next
  case (kRefused k key' kind' w go t b T)
  then obtain g where g: "gkGates k = Some g" by (auto simp: drainedAt_def)
  show ?case
    using kRefused(2) unfolding Enter_False [OF kRefused(1) [unfolded g]] by (auto simp: drainedAt_def g keeperVersion_max)
next
  case (kRelease key' kind' w T k g oc)
  then show ?case
    by (auto simp: drainedAt_def gateOf_Release keeperVersion_max dest: in_diffD)
qed

subsection \<open>What an acknowledgement proves\<close>

definition covers :: "dir_file \<Rightarrow> ack \<Rightarrow> string \<Rightarrow> akind \<Rightarrow> bool" where
  "covers f a key kind \<longleftrightarrow>
     (akScope a = PlacementResource key \<and> (\<exists>b. ownBarrier f key = Some (b, kind))) \<or>
     (kind = KMutations \<and> (\<exists>name p. akScope a = ClusterResource name \<and> getPlacement f key = Some p \<and> hasBucketOn p name))"

lemma scope_simps [simp]:
  "PlacementResource a = PlacementResource b \<longleftrightarrow> a = b" "ClusterResource a = ClusterResource b \<longleftrightarrow> a = b"
  "PlacementResource a \<noteq> ClusterResource b" "ClusterResource b \<noteq> PlacementResource a"
  by (simp_all add: PlacementResource_def ClusterResource_def)

lemma derive_lists:
  assumes "iter_ok it f"
  shows "ob \<in> set (dvOwn (derive it f)) \<Longrightarrow> ownBarrier f (obName ob) = Some (obBarrier ob, obKind ob)"
    and "ob \<in> set (dvClusters (derive it f)) \<Longrightarrow> clusterBarrier f (obName ob) = Some (obBarrier ob)"
proof -
  obtain cb dv where d: "derive it f = foldl (derivePlacement it f cb) dv (itPlacements it)" "dvOwn dv = []"
    "set (dvClusters dv) = {\<lparr>obName = n, obBarrier = b, obKind = KMutations\<rparr> | n b. clusterBarrier f n = Some b}"
    by (rule derive_parts [OF assms]) blast
  show "ob \<in> set (dvOwn (derive it f)) \<Longrightarrow> ownBarrier f (obName ob) = Some (obBarrier ob, obKind ob)"
    by (auto simp: d derivePlacement_fold_lists(1))
  show "ob \<in> set (dvClusters (derive it f)) \<Longrightarrow> clusterBarrier f (obName ob) = Some (obBarrier ob)"
    by (auto simp: d derivePlacement_fold_lists(2))
qed

lemma ackCluster_fold:
  fixes a :: ack
  defines "step \<equiv> \<lambda>go (a :: ack) key. let st = stateOf go key in
     a\<lparr>akClosed := akClosed a \<and> gtsClosed st KMutations \<noteq> '''', akInflight := akInflight a + gtsInflight st KMutations,
       akUncertain := akUncertain a + gtsUncertain st KMutations\<rparr>"
  shows "akClosed (foldl (step go) a keys) \<longleftrightarrow> akClosed a \<and> (\<forall>key\<in>set keys. gtsClosed (stateOf go key) KMutations \<noteq> '''')"
    and "akInflight (foldl (step go) a keys) = akInflight a + (\<Sum>key\<leftarrow>keys. gtsInflight (stateOf go key) KMutations)"
    and "akScope (foldl (step go) a keys) = akScope a"
  unfolding step_def by (induction keys arbitrary: a) (auto simp: Let_def)

lemma ackCluster_fields:
  fixes f :: dir_file and dv :: derivation and cb :: own_barrier
  defines "keys \<equiv> goSlice (fmlookup (dvPlacements dv) (bID (obBarrier cb)))"
  shows "akClosed (ackCluster go f dv cb) \<longleftrightarrow> (\<forall>key\<in>set keys. gtsClosed (stateOf go key) KMutations \<noteq> '''')"
    and "akInflight (ackCluster go f dv cb) = (\<Sum>key\<leftarrow>keys. gtsInflight (stateOf go key) KMutations)"
    and "akScope (ackCluster go f dv cb) = ClusterResource (obName cb)"
  unfolding keys_def ackCluster_def Let_def
  by (simp_all add: ackCluster_fold [unfolded Let_def])

lemma sum_list_0:
  fixes h :: "'a \<Rightarrow> int"
  assumes "(\<Sum>x\<leftarrow>xs. h x) = 0" "\<And>x. 0 \<le> h x" "x \<in> set xs"
  shows "h x = 0"
  using assms(1,3) sum_list_nonneg_eq_0_iff [of "map h xs"] assms(2) by force

text \<open>A positive acknowledgement speaks of every gate its barrier covers: the gate is closed, and nothing is in flight
  through it.\<close>

lemma Acks_covers:
  assumes it: "iter_ok it f" and ids: "barrier_ids f"
    and a: "a \<in> set (Acks it go f)" "akClosed a" "akInflight a = 0" "covers f a key kind"
    and pos: "\<And>key. 0 \<le> gtsInflight (stateOf go key) KMutations"
  shows "gtsClosed (stateOf go key) kind \<noteq> '''' \<and> gtsInflight (stateOf go key) kind = 0"
proof -
  consider (own) ob where "ob \<in> set (dvOwn (derive it f))" "a = ackOwn go f ob"
    | (clu) cb where "cb \<in> set (dvClusters (derive it f))" "a = ackCluster go f (derive it f) cb"
    using a(1) by (auto simp: Acks_def Let_def)
  then show ?thesis
  proof cases
    case own
    have ob: "ownBarrier f (obName ob) = Some (obBarrier ob, obKind ob)"
      using derive_lists(1) [OF it own(1)] .
    have "akScope a = PlacementResource (obName ob)" by (simp add: own(2) ackOwn_def Let_def)
    then have "key = obName ob" "kind = obKind ob"
      using a(4) ob by (auto simp: covers_def)
    moreover have "bID (obBarrier ob) \<noteq> ''''"
      using ob ids by (auto simp: ownBarrier_def Option.bind_eq_Some_conv barrier_ids_def)
    ultimately show ?thesis
      using a(2,3) by (simp add: own(2) ackOwn_def Let_def)
  next
    case clu
    have "akScope a = ClusterResource (obName cb)" by (simp add: clu(2) ackCluster_fields(3))
    then obtain p where p: "kind = KMutations" "getPlacement f key = Some p" "hasBucketOn p (obName cb)"
      using a(4) by (auto simp: covers_def)
    have "key \<in> set (goSlice (fmlookup (dvPlacements (derive it f)) (bID (obBarrier cb))))"
      using derive_cluster(2) [OF it derive_lists(2) [OF it clu(1)] p(2,3)] .
    then show ?thesis
      using a(2,3) sum_list_0 [OF _ pos] by (auto simp: clu(2) ackCluster_fields(1,2) p(1))
  qed
qed

lemma stateOf_Some: "gtsClosed (stateOf (Some g) key) = gtClosed (gateOf g key)" "gtsInflight (stateOf (Some g) key) = gtInflight (gateOf g key)"
  by (simp_all add: stateOf_def Let_def)

lemma tokensOut_0: "tokensOut T key kind = 0 \<Longrightarrow> (key, kind, w) \<notin># T"
  by (auto dest!: multi_member_split)

lemma Acks_drained:
  assumes it: "iter_ok it f" and ids: "barrier_ids f"
    and a: "a \<in> set (Acks it (gkGates k) f)" "akClosed a" "akInflight a = 0" "covers f a key kind"
    and c: "counted (k, T)"
  shows "drainedAt (keeperVersion k) key kind (k, T)"
proof -
  obtain g where g: "gkGates k = Some g" and n: "\<And>key kind. gtInflight (gateOf g key) kind = int (tokensOut T key kind)"
    using c by (auto simp: counted_def)
  have "gtClosed (gateOf g key) kind \<noteq> '''' \<and> tokensOut T key kind = 0"
    using Acks_covers [OF it ids a] by (simp add: g stateOf_Some n)
  moreover from this have "(key, kind, w) \<notin># T" for w
    using tokensOut_0 by blast
  ultimately show ?thesis
    using g by (auto simp: drainedAt_def)
qed

lemma run_drained: "kstep\<^sup>*\<^sup>* kt kt' \<Longrightarrow> drainedAt v key kind kt \<Longrightarrow> drainedAt v key kind kt'"
  by (induction rule: rtranclp_induct) (auto intro: kstep_drained)

text \<open>A validated directory names every barrier.\<close>

lemma validateRoles_barrier: "validateRoles clusters k p = [] \<Longrightarrow> validateBarrier k p = []"
  unfolding validateRoles_def Let_def by (simp only: append_is_Nil_conv)

lemma validate_barrier_ids:
  assumes "validate f = []"
  shows "barrier_ids f"
  unfolding barrier_ids_def
proof (intro conjI allI impI)
  fix key p b
  assume p: "getPlacement f key = Some p" "pBarrier p = Some b"
  have "validateBarrier (''placements.'' @ key) p = []"
    using validate_placements(1) [OF assms p(1)] validateRoles_barrier [of "fClusters f" "''placements.'' @ key" p]
    unfolding placement_valid_def spread_valid_def plain_valid_def by (cases "Spread p") (simp_all only: if_True if_False)
  then show "bID b \<noteq> []"
    using p(2) by (auto simp: validateBarrier_def validateBarrierOf_def ValidBarrierID_def split: if_splits)
next
  fix name b
  assume "clusterBarrier f name = Some b"
  then obtain c where c: "fmlookup (fClusters f) name = Some c" "cBarrier c = Some b"
    by (auto simp: clusterBarrier_def Option.bind_eq_Some_conv)
  have "ValidateClusters ''clusters'' (fClusters f) = []"
    using assms by (simp add: validate_def)
  then have "validateCluster (''clusters'' @ ''.'' @ name) c = []"
    using c(1) unfolding ValidateClusters_Nil by blast
  then show "bID b \<noteq> []"
    using validateCluster_barrier c(2) by (auto simp: ValidBarrierID_def)
qed

end
