(* ===== verification/Composition.thy ===== *)
theory Composition
  imports Admission
begin

text \<open>
  The components together: what one published step of the directory does to where writes go.
\<close>

lemma opError_Inr: "opError r = Inr f \<longleftrightarrow> r = Inr f"
  by (cases r) (simp_all add: opError_def)

lemma SetState_placement:
  assumes "SetState f t b st tr = Inr f'" "getPlacement f k = Some p" "getPlacement f' k = Some p'"
  shows "if k = Key t b then Apply p tr = Inr p' else p' = p"
  using assms by (auto simp: SetState_def Let_def putPlacement_def getPlacement_def split: option.splits if_splits sum.splits)

lemma Delete_placement:
  assumes "Delete f t b = Inr f'" "getPlacement f k = Some p" "getPlacement f' k = Some p'"
  shows "p' = p"
  using assms by (auto simp: Delete_def Let_def getPlacement_def split: option.splits if_splits)

text \<open>One write of the directory keeps every accepted write in its bucket, when the state changes it makes are fenced.\<close>

lemma nextFile_fenced:
  assumes v: "validate f = []" and n: "nextFile drawn op f = Inr f'"
    and p: "getPlacement f k = Some p" "getPlacement f' k = Some p'" "routable p"
    and fence: "\<And>t b st tr. op = OpSetState t b st tr \<Longrightarrow> Key t b = k \<Longrightarrow> ratio_ok (tRatio tr) \<and> fenced p tr"
    and w: "placeWrite p key = Some b" "placeWrite p' key = Some b'"
  shows "b' = b"
proof -
  obtain f1 where f1: "runOp op f = Inr f1" "fPlacements f' = fPlacements f1" by (rule nextFile_Inr [OF n])
  then have p1: "getPlacement f1 k = Some p'" using p(2) by (simp add: getPlacement_def)
  show ?thesis
  proof (cases "quiet op")
    case True
    then show ?thesis using nextFile_keeps [OF v True n] p w unfolding keeps_writes_def by fastforce
  next
    case False
    then consider (set) t bu st tr where "op = OpSetState t bu st tr" | (del) t bu where "op = OpDelete t bu"
      by (auto simp: quiet_def split: store_op.splits)
    then show ?thesis
    proof cases
      case set
      then have s: "if k = Key t bu then Apply p tr = Inr p' else p' = p"
        using SetState_placement [of f t bu st tr f1 k p p'] f1(1) p(1) p1 by (simp add: runOp_def opError_Inr)
      have "placement_ok p" using placement_valid_ok validate_placements(1) [OF v p(1)] p(3) by blast
      then show ?thesis using s Apply_fenced [of p tr p' key b b'] fence [OF set] w by (auto split: if_splits)
    next
      case del
      then show ?thesis using Delete_placement [of f t bu f1 k p p'] f1(1) p(1) p1 w by (simp add: runOp_def opError_Inr)
    qed
  qed
qed

end
