(* ===== verification/Names.thy ===== *)
theory Names
  imports Validate Sha256
begin

text \<open>
  The backend bucket name of a bucket created through shunt: \<^verbatim>\<open>BackendName\<close> of \<^verbatim>\<open>internal/directory/names.go\<close>.
  The lemmas show that a generated name has the bytes and the length of a bucket name, so that only a
  reserved word can make it invalid, and that a legal tenant name can bring such a word.
\<close>

definition trimRight :: "string \<Rightarrow> string \<Rightarrow> string" where
  "trimRight s cs = rev (dropWhile (\<lambda>c. c \<in> set cs) (rev s))"

definition BackendName :: "string \<Rightarrow> string \<Rightarrow> nat \<Rightarrow> string" where
  "BackendName t bucket attempt =
     (let sum = sha256 (t @ ''/'' @ bucket @ (if 0 < attempt then ''#'' @ decimal attempt else ''''));
          name = toLower t @ ''-'' @ hexEncode (take 2 sum) @ ''-'' @ toLower bucket
      in if 63 < length name then trimRight (take 63 name) ''.-'' else name)"

subsection \<open>Bytes of a name\<close>

definition alnum :: "char \<Rightarrow> bool" where "alnum c \<longleftrightarrow> isLower c \<or> isDigit c"

definition nameByte :: "char \<Rightarrow> bool" where "nameByte c \<longleftrightarrow> alnum c \<or> c = CHR ''.'' \<or> c = CHR ''-''"

definition noDots :: "string \<Rightarrow> bool" where
  "noDots s \<longleftrightarrow> (\<forall>i. Suc i < length s \<longrightarrow> \<not> (s ! i = CHR ''.'' \<and> s ! Suc i = CHR ''.''))"

lemma not_alnum [simp]: "\<not> alnum (CHR ''.'')" "\<not> alnum (CHR ''-'')"
  by (simp_all add: alnum_def isLower_def isDigit_def less_eq_char_def)

lemma bucketBytes:
  assumes "s \<noteq> []"
  shows "list_all (bucketByteOK s) [0..<length s] \<longleftrightarrow> list_all nameByte s \<and> alnum (hd s) \<and> alnum (last s) \<and> noDots s"
    (is "?L \<longleftrightarrow> ?R")
proof
  assume L: ?L
  then have b: "bucketByteOK s i" if "i < length s" for i using that by (simp add: list_all_iff)
  have "nameByte (s ! i)" if "i < length s" for i
    using b [OF that] by (auto simp: bucketByteOK_def Let_def nameByte_def alnum_def split: if_splits)
  moreover have "alnum (s ! 0)" "alnum (s ! (length s - 1))"
    using b [of 0] b [of "length s - 1"] assms by (auto simp: bucketByteOK_def Let_def alnum_def split: if_splits)
  moreover have "noDots s"
    unfolding noDots_def
  proof (intro allI impI notI)
    fix i assume "Suc i < length s" "s ! i = CHR ''.'' \<and> s ! Suc i = CHR ''.''"
    then show False using b [of "Suc i"] not_alnum(1) by (auto simp: bucketByteOK_def Let_def alnum_def split: if_splits)
  qed
  ultimately show ?R using assms by (simp add: list_all_length hd_conv_nth last_conv_nth)
next
  assume R: ?R
  have "bucketByteOK s i" if i: "i < length s" for i
  proof (cases "alnum (s ! i)")
    case False
    then have "i \<noteq> 0" "i \<noteq> length s - 1" "s ! i = CHR ''.'' \<or> s ! i = CHR ''-''"
      using R assms i by (auto simp: hd_conv_nth last_conv_nth list_all_length nameByte_def intro!: gr0I)
    moreover from this have "\<not> (s ! i = CHR ''.'' \<and> s ! (i - 1) = CHR ''.'')"
      using R i by (auto simp: noDots_def dest!: spec [of _ "i - 1"])
    ultimately show ?thesis by (auto simp: bucketByteOK_def Let_def)
  qed (simp add: bucketByteOK_def alnum_def)
  then show ?L by (simp add: list_all_iff)
qed

lemma noDots_take: "noDots s \<Longrightarrow> noDots (take n s)"
  by (auto simp: noDots_def)

lemma noDots_append: "CHR ''.'' \<notin> set x \<Longrightarrow> noDots b \<Longrightarrow> noDots (x @ b)"
  unfolding noDots_def
proof (intro allI impI notI)
  fix i
  assume x: "CHR ''.'' \<notin> set x" and b: "\<forall>i. Suc i < length b \<longrightarrow> \<not> (b ! i = CHR ''.'' \<and> b ! Suc i = CHR ''.'')"
    and i: "Suc i < length (x @ b)" "(x @ b) ! i = CHR ''.'' \<and> (x @ b) ! Suc i = CHR ''.''"
  have "\<not> i < length x" using x i(2) nth_mem [of i x] by (metis nth_append)
  then obtain j where "i = length x + j" using le_Suc_ex not_less by blast
  then show False using b i by (auto simp: nth_append)
qed

lemma trimRight_take: "\<exists>n. trimRight s cs = take n s"
  unfolding trimRight_def by (metis dropWhile_eq_drop rev_drop rev_rev_ident)

lemma trimRight_last: "trimRight s cs \<noteq> [] \<Longrightarrow> last (trimRight s cs) \<notin> set cs"
  unfolding trimRight_def using hd_dropWhile [of "\<lambda>c. c \<in> set cs" "rev s"] by (simp only: last_rev rev_is_Nil_conv not_False_eq_True)

lemma trimRight_keeps: "s = x @ c # y \<Longrightarrow> c \<notin> set cs \<Longrightarrow> \<exists>y'. trimRight s cs = x @ c # y'"
  unfolding trimRight_def by (auto simp: dropWhile_append)

lemma toLower_id: "list_all nameByte s \<Longrightarrow> toLower s = s"
proof -
  have "nameByte c \<Longrightarrow> \<not> isUpper c" for c
    by (auto simp: nameByte_def alnum_def isUpper_def isLower_def isDigit_def less_eq_char_def)
  then show "list_all nameByte s \<Longrightarrow> toLower s = s"
    by (auto simp: toLower_def list_all_iff intro: map_idI)
qed

subsection \<open>Generated names\<close>

lemma hexEncode_alnum: "list_all alnum (hexEncode s)"
proof -
  have "c \<le> CHR ''f'' \<Longrightarrow> c \<le> CHR ''z''" for c by (simp add: less_eq_char_def)
  then show ?thesis using hexEncode_chars [of _ s] by (auto simp: list_all_iff alnum_def isLower_def)
qed

lemma validTenant_bytes: "validTenant t \<Longrightarrow> t \<noteq> [] \<and> alnum (hd t) \<and> CHR ''.'' \<notin> set t \<and> list_all nameByte t"
  by (cases t) (auto simp: validTenant_def nameByte_def alnum_def list_all_iff isLower_def isDigit_def less_eq_char_def)

lemma ValidBucketName_bytes:
  assumes "ValidBucketName b"
  shows "b \<noteq> [] \<and> list_all nameByte b \<and> alnum (last b) \<and> noDots b"
  using assms bucketBytes [of b] by (cases b) (auto simp: ValidBucketName_def simp del: upt_Suc)

lemma ipv4Fields_bytes: "ipv4Fields pos digs val s \<Longrightarrow> CHR ''-'' \<notin> set s"
  by (induction s arbitrary: pos digs val) (auto simp: isDigit_def less_eq_char_def Let_def split: if_splits)

lemma ValidBucketName_intro:
  assumes "s \<noteq> []" "3 \<le> length s" "length s \<le> 63" "list_all nameByte s" "alnum (hd s)" "alnum (last s)" "noDots s" "CHR ''-'' \<in> set s"
    and "\<not> list_ex (\<lambda>p. prefix p s) reservedBucketPrefixes" "\<not> list_ex (\<lambda>p. suffix p s) reservedBucketSuffixes"
  shows "ValidBucketName s"
  using assms ipv4Fields_bytes [of 0 0 0 s] bucketBytes [OF assms(1)] by (auto simp: ValidBucketName_def isIPv4_def)

lemma BackendName_shape:
  assumes "validTenant t" "ValidBucketName b"
  obtains h r where "length h = 4" "list_all alnum h" "BackendName t b n = t @ ''-'' @ h @ r"
    "list_all nameByte r" "noDots r" "length (BackendName t b n) \<le> 63" "r = [] \<or> alnum (last r)"
proof -
  define h where "h = hexEncode (take 2 (sha256 (t @ ''/'' @ b @ (if 0 < n then ''#'' @ decimal n else ''''))))"
  have h: "length h = 4" "list_all alnum h" by (simp_all add: h_def hexEncode_alnum)
  note t = validTenant_bytes [OF assms(1)] and b = ValidBucketName_bytes [OF assms(2)]
  let ?x = "t @ ''-'' @ h" and ?y = "''-'' @ b"
  have N: "BackendName t b n = (if 63 < length (?x @ ?y) then trimRight (take 63 (?x @ ?y)) ''.-'' else ?x @ ?y)"
    using t b by (simp add: BackendName_def h_def toLower_id Let_def)
  have y: "list_all nameByte ?y" "noDots ?y"
    using b noDots_append [of "''-''" b] by (simp_all add: nameByte_def)
  have x: "length ?x \<le> 37" using assms(1) h(1) by (simp add: validTenant_def)
  show ?thesis
  proof (cases "63 < length (?x @ ?y)")
    case False
    then show ?thesis using that [OF h, of ?y] N y b by simp
  next
    case True
    have take: "take 63 (?x @ ?y) = ?x @ take (63 - length ?x) ?y" using x by (simp only: take_append) simp
    have "last h \<notin> set ''.-''" "h = butlast h @ [last h]"
      using h by (cases h rule: rev_cases; auto simp: alnum_def isLower_def isDigit_def less_eq_char_def)+
    then obtain r where r: "trimRight (?x @ take (63 - length ?x) ?y) ''.-'' = ?x @ r"
      using trimRight_keeps [of "?x @ take (63 - length ?x) ?y" "t @ ''-'' @ butlast h" "last h" "take (63 - length ?x) ?y" "''.-''"]
      by (metis append.assoc append_Cons append_Nil)
    obtain m where m: "?x @ r = take m (?x @ take (63 - length ?x) ?y)" using trimRight_take r by metis
    have len: "length (?x @ r) \<le> 63" using x unfolding m by (simp only: length_take length_append)
    have dx: "drop (length ?x) (?x @ z) = z" for z by simp
    have "r = drop (length ?x) (?x @ r)" by (simp only: dx)
    also have "\<dots> = take (m - length ?x) (take (63 - length ?x) ?y)" by (simp only: m drop_take dx)
    finally have rt: "r = take (m - length ?x) (take (63 - length ?x) ?y)" .
    have "list_all nameByte r" unfolding rt using y(1) by (auto simp: list_all_iff dest!: in_set_takeD)
    moreover have "noDots r" unfolding rt using y(2) by (intro noDots_take)
    moreover have "r = [] \<or> alnum (last r)"
      using trimRight_last [of "?x @ take (63 - length ?x) ?y" "''.-''", unfolded r] \<open>list_all nameByte r\<close>
      by (cases r rule: rev_cases) (auto simp: nameByte_def)
    moreover have "BackendName t b n = t @ ''-'' @ h @ r"
      unfolding N if_P [OF True] take r by (simp only: append.assoc)
    ultimately show ?thesis using that [OF h, of r] len by (metis append.assoc)
  qed
qed

text \<open>Only a reserved prefix or suffix can make a generated name invalid.\<close>

lemma BackendName_valid:
  assumes "validTenant t" "ValidBucketName b"
    and "\<not> list_ex (\<lambda>p. prefix p (BackendName t b n)) reservedBucketPrefixes"
    and "\<not> list_ex (\<lambda>p. suffix p (BackendName t b n)) reservedBucketSuffixes"
  shows "ValidBucketName (BackendName t b n)"
proof -
  obtain h r where h: "length h = 4" "list_all alnum h" and N: "BackendName t b n = t @ ''-'' @ h @ r"
    and r: "list_all nameByte r" "noDots r" "length (BackendName t b n) \<le> 63" "r = [] \<or> alnum (last r)"
    by (rule BackendName_shape [OF assms(1,2)])
  note t = validTenant_bytes [OF assms(1)]
  have "h \<noteq> []" using h(1) by auto
  then have hh: "h \<noteq> []" "CHR ''.'' \<notin> set h" "alnum (last h)" "list_all nameByte h"
    using h(2) not_alnum by (auto simp: list_all_iff nameByte_def)
  have "noDots (t @ ''-'' @ h @ r)"
    using noDots_append [of "t @ ''-'' @ h" r] t hh r(2) by simp
  moreover have "alnum (last (t @ ''-'' @ h @ r))" "list_all nameByte (t @ ''-'' @ h @ r)"
    using hh r t by (auto simp: nameByte_def last_append)
  ultimately show ?thesis
    using assms(3,4) r(3) t h(1) by (intro ValidBucketName_intro) (auto simp: N)
qed

lemma BackendName_reserved:
  assumes "validTenant t" "ValidBucketName b" "pre \<in> set reservedBucketPrefixes" "prefix pre (t @ ''-'')"
  shows "\<not> ValidBucketName (BackendName t b n)"
proof -
  obtain h r where "BackendName t b n = t @ ''-'' @ h @ r"
    by (rule BackendName_shape [OF assms(1,2)])
  then have "prefix pre (BackendName t b n)"
    using assms(4) by (metis append.assoc prefix_prefix)
  then show ?thesis using assms(3) by (auto simp: ValidBucketName_def list_ex_iff)
qed

end
