(* ===== verification/Fleet.thy ===== *)
theory Fleet
  imports Admission
begin

text \<open>
  The fleet table: the member proxies as the control plane keeps them (\<^verbatim>\<open>internal/cp/fleet.go\<close> over the types of
  \<^verbatim>\<open>internal/control/fleet.go\<close>, ADR-0016 and ADR-0021 D2).

  The table is three maps, the etcd prefixes \<^verbatim>\<open>members/\<close>, \<^verbatim>\<open>proxies/\<close> and \<^verbatim>\<open>forgotten/\<close>. Every change of a member
  record is a compare-and-swap on the record's revision, retried over a fresh read: its effect is that of one
  atomic step, which is what each function here is. A leased key that expires is the step that removes it. Times
  are numbers, with 0 for Go's zero time; the fields of a heartbeat that only the views show are left out.

  The lemmas show that evidence is not lost: a process that registered, and was neither retired cleanly nor
  resolved by an operator, is on the table for every barrier to wait on.
\<close>

subsection \<open>Incarnations and members\<close>

record incarnation =
  icID :: string
  icStarted :: int
  icEnded :: int
  icState :: string
  icUncertain :: int
  icAttestation :: string
  icResolvedBy :: string
  icResolvedAt :: int

definition IncarnationActive :: string where "IncarnationActive = ''active''"

definition IncarnationRetired :: string where "IncarnationRetired = ''retired''"

definition IncarnationUnclean :: string where "IncarnationUnclean = ''unclean''"

definition IncarnationResolved :: string where "IncarnationResolved = ''resolved''"

lemmas incarnation_states = IncarnationActive_def IncarnationRetired_def IncarnationUnclean_def IncarnationResolved_def

definition MaxUnresolvedIncarnations :: nat where "MaxUnresolvedIncarnations = 8"

definition ValidIncarnation :: "string \<Rightarrow> bool" where
  "ValidIncarnation i \<longleftrightarrow> length i = 32 \<and> list_all (\<lambda>c. isDigit c \<or> (CHR ''a'' \<le> c \<and> c \<le> CHR ''f'')) i"

record heartbeat =
  hbProtocol :: int
  hbIdentity :: identity
  hbStarted :: int
  hbIncarnation :: string
  hbPrevious :: "incarnation list"
  hbUncertain :: int
  hbSeq :: int
  hbApplied :: int
  hbDurable :: int
  hbInstalled :: int
  hbSecretsHeld :: "(string, int) fmap"
  hbBarriers :: "ack list"

record member =
  mbID :: string
  mbLive :: bool
  mbIncarnation :: "incarnation option"
  mbUnresolved :: "incarnation list"
  mbRetireRequested :: bool
  mbUncertain :: int
  mbBarriers :: "ack list"
  mbIdentity :: identity
  mbApplied :: int
  mbDurable :: int
  mbInstalled :: int
  mbSeq :: int
  mbSinceSeen :: int

definition Has :: "member \<Rightarrow> identity \<Rightarrow> int \<Rightarrow> bool" where
  "Has m i v \<longleftrightarrow> mbIdentity m = i \<and> v \<le> mbApplied m"

definition Retired :: "member \<Rightarrow> bool" where
  "Retired m = (case mbIncarnation m of None \<Rightarrow> False | Some inc \<Rightarrow> icState inc = IncarnationRetired)"

subsection \<open>What a heartbeat is checked for\<close>

definition Protocol :: int where "Protocol = 2"

definition MaxBarrierAcks :: nat where "MaxBarrierAcks = 4096"

definition ackError :: "nat \<times> ack \<Rightarrow> message option" where
  "ackError ia =
     (let (i, a) = ia in refuse
        [(\<not> ValidBarrierID (akID a), (''barriers[%d].id %q: want 1-64 letters, digits, '.', '_', ':' or '-'' @ [CHR 0x27], [ANat i, AStr (akID a)])),
         (KindOf (akKind a) = None,
           (''barriers[%d].kind %q: want %s or %s'', [ANat i, AStr (akKind a), AStr BarrierMutations, AStr BarrierSource])),
         (\<not> prefix ''placement:'' (akScope a) \<and> \<not> prefix ''cluster:'' (akScope a),
           (''barriers[%d].scope %q: want placement:<tenant>/<bucket> or cluster:<name>'', [ANat i, AStr (akScope a)])),
         (akGeneration a < 0 \<or> akInflight a < 0 \<or> akUncertain a < 0,
           (''barriers[%d]: negative generation or count'', [ANat i]))])"

fun firstSome :: "('a \<Rightarrow> 'b option) \<Rightarrow> 'a list \<Rightarrow> 'b option" where
  "firstSome f [] = None"
| "firstSome f (x # xs) = (case f x of Some y \<Rightarrow> Some y | None \<Rightarrow> firstSome f xs)"

definition validateAcks :: "ack list \<Rightarrow> message option" where
  "validateAcks acks =
     (if MaxBarrierAcks < length acks
      then Some (''barriers: %d acknowledgements, at most %d'', [ANat (length acks), ANat MaxBarrierAcks])
      else firstSome ackError (zip [0..<length acks] acks))"

datatype lineage_error = ClusterMismatch identity identity | EpochMismatch identity identity | ResyncRequired int int

definition LineageMismatch :: "identity \<Rightarrow> identity \<Rightarrow> lineage_error" where
  "LineageMismatch cur have' =
     (if idClusterID have' \<noteq> idClusterID cur then ClusterMismatch cur have' else EpochMismatch cur have')"

definition checkLineage :: "dir_file \<Rightarrow> identity \<Rightarrow> int \<Rightarrow> lineage_error option" where
  "checkLineage f have' v =
     (if IsZero have' then None
      else if have' \<noteq> fIdentity f then Some (LineageMismatch (fIdentity f) have')
      else if fVersion f < v then Some (ResyncRequired v (fVersion f))
      else None)"

definition badPrevious :: "string \<Rightarrow> incarnation list \<Rightarrow> nat \<Rightarrow> bool" where
  "badPrevious current prev i =
     (let p = prev ! i in
      \<not> ValidIncarnation (icID p) \<or> icID p = current \<or> (icState p \<noteq> IncarnationRetired \<and> icState p \<noteq> IncarnationUnclean) \<or>
      icUncertain p < 0 \<or> icID p \<in> icID ` set (take i prev))"

datatype heartbeat_refusal =
    BadProxyID
  | BadProtocol int
  | BadIncarnation
  | TooManyPrevious
  | BadPreviousIncarnation
  | BadUncertain
  | BadSecretsHeld
  | BadAcks message
  | BadLineage lineage_error

definition ValidProxyID :: "string \<Rightarrow> bool" where
  "ValidProxyID i =
     (case i of [] \<Rightarrow> False
      | c # cs \<Rightarrow> (isLower c \<or> isUpper c \<or> isDigit c) \<and> length cs \<le> 63 \<and>
          list_all (\<lambda>c. isLower c \<or> isUpper c \<or> isDigit c \<or> c = CHR ''.'' \<or> c = CHR ''_'' \<or> c = CHR ''-'') cs)"

definition heartbeatRefuses :: "dir_file \<Rightarrow> string \<Rightarrow> heartbeat \<Rightarrow> heartbeat_refusal option" where
  "heartbeatRefuses f i hb =
     (if \<not> ValidProxyID i then Some BadProxyID
      else if hbProtocol hb \<noteq> Protocol then Some (BadProtocol (hbProtocol hb))
      else if \<not> ValidIncarnation (hbIncarnation hb) then Some BadIncarnation
      else if MaxUnresolvedIncarnations < length (hbPrevious hb) then Some TooManyPrevious
      else if list_ex (badPrevious (hbIncarnation hb) (hbPrevious hb)) [0..<length (hbPrevious hb)] then Some BadPreviousIncarnation
      else if hbUncertain hb < 0 then Some BadUncertain
      else if list_ex (\<lambda>n. n = '''' \<or> the (fmlookup (hbSecretsHeld hb) n) < 0 \<or> 4096 < the (fmlookup (hbSecretsHeld hb) n)) (sortedKeys (hbSecretsHeld hb))
      then Some BadSecretsHeld
      else case validateAcks (hbBarriers hb) of
        Some e \<Rightarrow> Some (BadAcks e)
      | None \<Rightarrow> map_option BadLineage (checkLineage f (hbIdentity hb) (hbApplied hb)))"

subsection \<open>The table\<close>

record member_record =
  mrJoined :: int
  mrCurrent :: "incarnation option"
  mrUnresolved :: "incarnation list"
  mrResolved :: "incarnation list"
  mrRetireRequested :: bool

record proxy_record =
  prHeartbeat :: heartbeat
  prSeen :: int

record cached =
  caRev :: int
  caRec :: member_record
  caPrevIDs :: string

record fleet =
  flMembers :: "(string, int \<times> member_record) fmap"
  flProxies :: "(string, proxy_record) fmap"
  flForgotten :: "(string, string list) fmap"
  flRevision :: int
  flKnown :: "(string \<times> string, cached) fmap"

record grant =
  grLeaseTTL :: int
  grRetire :: bool
  grPreviousRecorded :: bool

datatype fleet_error =
    FleetNotFound message
  | FleetRefused message
  | RetirementUnproven string "incarnation list" message

definition zeroRecord :: member_record where
  "zeroRecord = \<lparr>mrJoined = 0, mrCurrent = None, mrUnresolved = [], mrResolved = [], mrRetireRequested = False\<rparr>"

definition maxResolvedKept :: nat where "maxResolvedKept = 4"

fun commaJoin :: "string list \<Rightarrow> string" where
  "commaJoin [] = ''''"
| "commaJoin [x] = x"
| "commaJoin (x # y # zs) = x @ CHR '','' # commaJoin (y # zs)"

definition previousIDs :: "incarnation list \<Rightarrow> string" where
  "previousIDs prev = commaJoin (map icID prev)"

definition knows :: "member_record \<Rightarrow> string \<Rightarrow> bool" where
  "knows r i \<longleftrightarrow>
     (case mrCurrent r of None \<Rightarrow> False | Some cur \<Rightarrow> icID cur = i) \<or>
     list_ex (\<lambda>inc. icID inc = i) (mrUnresolved r) \<or> list_ex (\<lambda>inc. icID inc = i) (mrResolved r)"

definition endedIncarnations :: "member_record \<Rightarrow> string list" where
  "endedIncarnations r =
     (case mrCurrent r of None \<Rightarrow> [] | Some cur \<Rightarrow> if icState cur \<noteq> IncarnationActive then [icID cur] else []) @
     map icID (mrResolved r)"

definition forgottenIncarnations :: "fleet \<Rightarrow> string \<Rightarrow> string list" where
  "forgottenIncarnations fl i = (case fmlookup (flForgotten fl) i of None \<Rightarrow> [] | Some ids \<Rightarrow> ids)"

definition addUnresolved :: "incarnation \<Rightarrow> member_record \<Rightarrow> member_record option" where
  "addUnresolved inc r =
     (if MaxUnresolvedIncarnations \<le> length (mrUnresolved r) then None
      else Some (r\<lparr>mrUnresolved := mrUnresolved r @ [inc]\<rparr>))"

definition activeCurrent :: "member_record \<Rightarrow> string \<Rightarrow> bool" where
  "activeCurrent r i = (case mrCurrent r of None \<Rightarrow> False | Some cur \<Rightarrow> icID cur = i \<and> icState cur = IncarnationActive)"

subsection \<open>Heartbeats\<close>

definition cleanEnd :: "incarnation \<Rightarrow> bool" where
  "cleanEnd p \<longleftrightarrow> icState p = IncarnationRetired \<and> icUncertain p = 0"

definition reportPrevious :: "int \<Rightarrow> string \<Rightarrow> incarnation \<Rightarrow> member_record \<Rightarrow> member_record" where
  "reportPrevious now inc p r =
     (if icID p = inc then r
      else if activeCurrent r (icID p)
      then (if cleanEnd p
            then r\<lparr>mrCurrent := map_option (\<lambda>cur. cur\<lparr>icState := IncarnationRetired, icEnded := if icEnded p = 0 then now else icEnded p\<rparr>) (mrCurrent r)\<rparr>
            else r\<lparr>mrCurrent := map_option (\<lambda>cur. cur\<lparr>icUncertain := max (icUncertain cur) (icUncertain p)\<rparr>) (mrCurrent r)\<rparr>)
      else if cleanEnd p then r\<lparr>mrUnresolved := filter (\<lambda>u. icID u \<noteq> icID p) (mrUnresolved r)\<rparr>
      else r)"

definition replaceCurrent :: "int \<Rightarrow> string \<Rightarrow> string \<Rightarrow> member_record \<Rightarrow> fleet_error + member_record" where
  "replaceCurrent now i inc r =
     (case mrCurrent r of
        None \<Rightarrow> Inr r
      | Some cur \<Rightarrow>
          if icID cur = inc then Inr r
          else if icState cur = IncarnationActive
          then (case addUnresolved (cur\<lparr>icState := IncarnationUnclean, icEnded := now\<rparr>) r of
                  None \<Rightarrow> Inl (RetirementUnproven i (mrUnresolved r) (''registering incarnation %s refused'', [AStr inc]))
                | Some r' \<Rightarrow> Inr (r'\<lparr>mrCurrent := None\<rparr>))
          else Inr (r\<lparr>mrCurrent := None\<rparr>))"

definition newIncarnation :: "string \<Rightarrow> int \<Rightarrow> incarnation" where
  "newIncarnation inc started =
     \<lparr>icID = inc, icStarted = started, icEnded = 0, icState = IncarnationActive, icUncertain = 0,
      icAttestation = '''', icResolvedBy = '''', icResolvedAt = 0\<rparr>"

definition registerCurrent :: "string \<Rightarrow> int \<Rightarrow> member_record \<Rightarrow> member_record" where
  "registerCurrent inc started r =
     (case mrCurrent r of
        None \<Rightarrow> r\<lparr>mrCurrent := Some (newIncarnation inc started), mrRetireRequested := False\<rparr>
      | Some _ \<Rightarrow> r)"

definition uncleanEnd :: "incarnation \<Rightarrow> bool" where
  "uncleanEnd p \<longleftrightarrow> icState p = IncarnationUnclean \<or> 0 < icUncertain p"

fun recordPrevious :: "int \<Rightarrow> string \<Rightarrow> string list \<Rightarrow> incarnation list \<Rightarrow> member_record \<Rightarrow> fleet_error + member_record" where
  "recordPrevious now i fg [] r = Inr r"
| "recordPrevious now i fg (p # ps) r =
     (if knows r (icID p) \<or> icID p \<in> set fg then recordPrevious now i fg ps r
      else if uncleanEnd p
      then (case addUnresolved ((newIncarnation (icID p) (icStarted p))\<lparr>icEnded := if icEnded p = 0 then now else icEnded p,
                  icState := IncarnationUnclean, icUncertain := icUncertain p\<rparr>) r of
              None \<Rightarrow> Inl (RetirementUnproven i (mrUnresolved r) (''recording incarnation %s refused'', [AStr (icID p)]))
            | Some r' \<Rightarrow> recordPrevious now i fg ps r')
      else recordPrevious now i fg ps r)"

definition heartbeatRecord :: "int \<Rightarrow> string \<Rightarrow> string list \<Rightarrow> heartbeat \<Rightarrow> member_record \<Rightarrow> fleet_error + member_record" where
  "heartbeatRecord now i fg hb r =
     (let r1 = (if mrJoined r = 0 then r\<lparr>mrJoined := now\<rparr> else r);
          r2 = fold (reportPrevious now (hbIncarnation hb)) (hbPrevious hb) r1
      in case replaceCurrent now i (hbIncarnation hb) r2 of
           Inl e \<Rightarrow> Inl e
         | Inr r3 \<Rightarrow> recordPrevious now i fg (hbPrevious hb) (registerCurrent (hbIncarnation hb) (hbStarted hb) r3))"

definition commitRecord :: "string \<Rightarrow> string \<Rightarrow> member_record \<Rightarrow> fleet \<Rightarrow> fleet" where
  "commitRecord node i r fl =
     (let rv = flRevision fl + 1;
          prev = (case fmlookup (flKnown fl) (node, i) of None \<Rightarrow> '''' | Some c \<Rightarrow> caPrevIDs c)
      in fl\<lparr>flMembers := fmupd i (rv, r) (flMembers fl), flRevision := rv,
            flKnown := fmupd (node, i) \<lparr>caRev = rv, caRec = r, caPrevIDs = prev\<rparr> (flKnown fl)\<rparr>)"

definition changeMember :: "string \<Rightarrow> string \<Rightarrow> bool \<Rightarrow> (member_record \<Rightarrow> fleet_error + member_record) \<Rightarrow> fleet \<Rightarrow> fleet_error + fleet" where
  "changeMember node i create fn fl =
     (if \<not> hasKey (flMembers fl) i \<and> \<not> create then Inl (FleetNotFound (''no proxy %s in the fleet'', [AStr i]))
      else case fn (case fmlookup (flMembers fl) i of None \<Rightarrow> zeroRecord | Some (rv, r) \<Rightarrow> r) of
             Inl e \<Rightarrow> Inl e
           | Inr r \<Rightarrow> Inr (commitRecord node i r fl))"

definition putProxy :: "int \<Rightarrow> string \<Rightarrow> heartbeat \<Rightarrow> fleet \<Rightarrow> fleet" where
  "putProxy now i hb fl = fl\<lparr>flProxies := fmupd i \<lparr>prHeartbeat = hb, prSeen = now\<rparr> (flProxies fl)\<rparr>"

definition unchanged :: "cached option \<Rightarrow> heartbeat \<Rightarrow> bool" where
  "unchanged c hb =
     (case c of None \<Rightarrow> False
      | Some c \<Rightarrow> activeCurrent (caRec c) (hbIncarnation hb) \<and>
                  (hbPrevious hb = [] \<or> caPrevIDs c = previousIDs (hbPrevious hb)))"

definition keepPrevIDs :: "string \<Rightarrow> string \<Rightarrow> heartbeat \<Rightarrow> fleet \<Rightarrow> fleet" where
  "keepPrevIDs node i hb fl =
     (if hbPrevious hb = [] then fl
      else case fmlookup (flKnown fl) (node, i) of
             None \<Rightarrow> fl
           | Some c \<Rightarrow> fl\<lparr>flKnown := fmupd (node, i) (c\<lparr>caPrevIDs := previousIDs (hbPrevious hb)\<rparr>) (flKnown fl)\<rparr>)"

definition Heartbeat :: "int \<Rightarrow> int \<Rightarrow> string \<Rightarrow> string \<Rightarrow> string list \<Rightarrow> heartbeat \<Rightarrow> fleet \<Rightarrow> fleet_error + (fleet \<times> grant)" where
  "Heartbeat ttl now node i fg hb fl =
     (let c = fmlookup (flKnown fl) (node, i);
          same = (case (c, fmlookup (flMembers fl) i) of (Some c, Some (rv, r)) \<Rightarrow> caRev c = rv | _ \<Rightarrow> False)
      in if unchanged c hb \<and> same
         then Inr (putProxy now i hb (fl\<lparr>flRevision := flRevision fl + 1\<rparr>),
                   \<lparr>grLeaseTTL = ttl, grRetire = mrRetireRequested (caRec (the c)), grPreviousRecorded = hbPrevious hb \<noteq> []\<rparr>)
         else case changeMember node i True (heartbeatRecord now i (if hbPrevious hb = [] then [] else fg) hb) fl of
                Inl e \<Rightarrow> Inl e
              | Inr fl' \<Rightarrow> Inr (keepPrevIDs node i hb (putProxy now i hb fl'),
                   \<lparr>grLeaseTTL = ttl, grRetire = mrRetireRequested (snd (the (fmlookup (flMembers fl') i))),
                    grPreviousRecorded = hbPrevious hb \<noteq> []\<rparr>))"

subsection \<open>Retirement, resolution, forgetting\<close>

fun replaceFirst :: "('a \<Rightarrow> bool) \<Rightarrow> ('a \<Rightarrow> 'a list) \<Rightarrow> 'a list \<Rightarrow> 'a list" where
  "replaceFirst P f [] = []"
| "replaceFirst P f (x # xs) = (if P x then f x @ xs else x # replaceFirst P f xs)"

definition retireLate :: "int \<Rightarrow> string \<Rightarrow> string \<Rightarrow> int \<Rightarrow> member_record \<Rightarrow> fleet_error + member_record" where
  "retireLate now i inc uncertain r =
     (if list_ex (\<lambda>u. icID u = inc) (mrUnresolved r)
      then Inr (r\<lparr>mrUnresolved := replaceFirst (\<lambda>u. icID u = inc)
             (\<lambda>u. if uncertain = 0 then [] else [u\<lparr>icUncertain := uncertain, icEnded := now\<rparr>]) (mrUnresolved r)\<rparr>)
      else if knows r inc then Inr r
      else Inl (FleetRefused (''proxy %s has no incarnation %s to retire'', [AStr i, AStr inc])))"

definition retireCurrent :: "int \<Rightarrow> string \<Rightarrow> int \<Rightarrow> incarnation \<Rightarrow> member_record \<Rightarrow> fleet_error + member_record" where
  "retireCurrent now i uncertain cur r =
     (if icState cur = IncarnationRetired then Inr r
      else let cur' = cur\<lparr>icEnded := now, icUncertain := uncertain\<rparr> in
        if 0 < uncertain
        then (case addUnresolved (cur'\<lparr>icState := IncarnationUnclean\<rparr>) r of
                None \<Rightarrow> Inl (RetirementUnproven i (mrUnresolved r) (''recording the retirement refused'', []))
              | Some r' \<Rightarrow> Inr (r'\<lparr>mrCurrent := None, mrRetireRequested := False\<rparr>))
        else Inr (r\<lparr>mrCurrent := Some (cur'\<lparr>icState := IncarnationRetired\<rparr>), mrRetireRequested := False\<rparr>))"

definition retireRecord :: "int \<Rightarrow> string \<Rightarrow> string \<Rightarrow> int \<Rightarrow> member_record \<Rightarrow> fleet_error + member_record" where
  "retireRecord now i inc uncertain r =
     (case mrCurrent r of
        Some cur \<Rightarrow> if icID cur = inc then retireCurrent now i uncertain cur r else retireLate now i inc uncertain r
      | None \<Rightarrow> retireLate now i inc uncertain r)"

definition retireEndsLease :: "string \<Rightarrow> member_record \<Rightarrow> bool" where
  "retireEndsLease inc r =
     (case mrCurrent r of None \<Rightarrow> False | Some cur \<Rightarrow> icID cur = inc \<and> icState cur \<noteq> IncarnationRetired)"

definition dropProxy :: "string \<Rightarrow> fleet \<Rightarrow> fleet" where
  "dropProxy i fl = fl\<lparr>flProxies := fmdrop i (flProxies fl)\<rparr>"

definition Retire :: "int \<Rightarrow> string \<Rightarrow> string \<Rightarrow> string \<Rightarrow> int \<Rightarrow> fleet \<Rightarrow> fleet_error + fleet" where
  "Retire now node i inc uncertain fl =
     (case changeMember node i False (retireRecord now i inc uncertain) fl of
        Inl e \<Rightarrow> Inl e
      | Inr fl' \<Rightarrow> Inr (if retireEndsLease inc (snd (the (fmlookup (flMembers fl) i))) then dropProxy i fl' else fl'))"

definition requestRetireRecord :: "string \<Rightarrow> member_record \<Rightarrow> fleet_error + member_record" where
  "requestRetireRecord i r =
     (case mrCurrent r of
        Some cur \<Rightarrow> if icState cur = IncarnationActive then Inr (r\<lparr>mrRetireRequested := True\<rparr>)
                    else Inl (FleetRefused (''proxy %s has no running process to retire'', [AStr i]))
      | None \<Rightarrow> Inl (FleetRefused (''proxy %s has no running process to retire'', [AStr i])))"

definition RequestRetire :: "string \<Rightarrow> string \<Rightarrow> fleet \<Rightarrow> fleet_error + fleet" where
  "RequestRetire node i fl = changeMember node i False (requestRetireRecord i) fl"

definition addResolved :: "int \<Rightarrow> string \<Rightarrow> string \<Rightarrow> incarnation \<Rightarrow> member_record \<Rightarrow> member_record" where
  "addResolved now attestation actor inc r =
     (let rs = mrResolved r @ [inc\<lparr>icState := IncarnationResolved, icAttestation := attestation, icResolvedBy := actor, icResolvedAt := now\<rparr>]
      in r\<lparr>mrResolved := drop (length rs - maxResolvedKept) rs\<rparr>)"

definition resolveRecord :: "int \<Rightarrow> bool \<Rightarrow> string \<Rightarrow> string \<Rightarrow> string \<Rightarrow> string \<Rightarrow> member_record \<Rightarrow> fleet_error + member_record" where
  "resolveRecord now live i inc attestation actor r =
     (case find (\<lambda>u. icID u = inc) (mrUnresolved r) of
        Some u \<Rightarrow> Inr (addResolved now attestation actor u
                    (r\<lparr>mrUnresolved := replaceFirst (\<lambda>u. icID u = inc) (\<lambda>_. []) (mrUnresolved r)\<rparr>))
      | None \<Rightarrow>
          if activeCurrent r inc
          then (if live then Inl (FleetRefused (''proxy %s's incarnation %s is live (its lease has not expired): a running process is retired, not resolved'', [AStr i, AStr inc]))
                else Inr (addResolved now attestation actor ((the (mrCurrent r))\<lparr>icEnded := now\<rparr>) (r\<lparr>mrCurrent := None\<rparr>)))
          else if knows r inc then Inl (FleetRefused (''proxy %s's incarnation %s is not unresolved'', [AStr i, AStr inc]))
          else Inl (FleetNotFound (''proxy %s has no incarnation %s'', [AStr i, AStr inc])))"

definition Resolve :: "int \<Rightarrow> bool \<Rightarrow> string \<Rightarrow> string \<Rightarrow> string \<Rightarrow> string \<Rightarrow> string \<Rightarrow> fleet \<Rightarrow> fleet_error + fleet" where
  "Resolve now live node i inc attestation actor fl = changeMember node i False (resolveRecord now live i inc attestation actor) fl"

definition unproven :: "member_record \<Rightarrow> incarnation list" where
  "unproven r =
     (case mrCurrent r of None \<Rightarrow> [] | Some cur \<Rightarrow> if icState cur = IncarnationActive then [cur] else []) @ mrUnresolved r"

definition Forget :: "string \<Rightarrow> string \<Rightarrow> fleet \<Rightarrow> fleet_error + fleet" where
  "Forget node i fl =
     (case fmlookup (flMembers fl) i of
        None \<Rightarrow> Inl (FleetNotFound (''no proxy %s in the fleet'', [AStr i]))
      | Some (rv, r) \<Rightarrow>
          if hasKey (flProxies fl) i
          then Inl (FleetRefused (''proxy %s is live (its lease has not expired); stop it first, then forget it. A running proxy re-joins on its next heartbeat'', [AStr i]))
          else if unproven r \<noteq> []
          then Inl (RetirementUnproven i (unproven r) (''forgetting proxy %s refused'', [AStr i]))
          else Inr (fl\<lparr>flMembers := fmdrop i (flMembers fl), flForgotten := fmupd i (endedIncarnations r) (flForgotten fl),
                       flRevision := flRevision fl + 1, flKnown := fmdrop (node, i) (flKnown fl)\<rparr>))"

subsection \<open>The table as the barriers read it\<close>

definition memberOf :: "int \<Rightarrow> fleet \<Rightarrow> string \<Rightarrow> member" where
  "memberOf now fl i =
     (let r = (case fmlookup (flMembers fl) i of None \<Rightarrow> zeroRecord | Some (rv, r) \<Rightarrow> r) in
      case fmlookup (flProxies fl) i of
        None \<Rightarrow> \<lparr>mbID = i, mbLive = False, mbIncarnation = mrCurrent r, mbUnresolved = mrUnresolved r,
                  mbRetireRequested = mrRetireRequested r, mbUncertain = 0, mbBarriers = [],
                  mbIdentity = \<lparr>idClusterID = '''', idEpoch = ''''\<rparr>, mbApplied = 0, mbDurable = 0, mbInstalled = 0, mbSeq = 0,
                  mbSinceSeen = 0\<rparr>
      | Some pr \<Rightarrow> let hb = prHeartbeat pr in
                \<lparr>mbID = i, mbLive = True, mbIncarnation = mrCurrent r, mbUnresolved = mrUnresolved r,
                  mbRetireRequested = mrRetireRequested r, mbUncertain = hbUncertain hb, mbBarriers = hbBarriers hb,
                  mbIdentity = hbIdentity hb, mbApplied = hbApplied hb, mbDurable = hbDurable hb, mbInstalled = hbInstalled hb,
                  mbSeq = hbSeq hb, mbSinceSeen = if prSeen pr = 0 then 0 else now - prSeen pr\<rparr>)"

definition Members :: "int \<Rightarrow> fleet \<Rightarrow> member list" where
  "Members now fl =
     map (memberOf now fl) (sorted_list_of_fset (fmdom (flMembers fl) |\<union>| fmdom (flProxies fl)))"

definition fenceWaiting :: "member list \<Rightarrow> identity \<Rightarrow> int \<Rightarrow> bool \<Rightarrow> string list" where
  "fenceWaiting ms cur v strict =
     map mbID (filter (\<lambda>m. (strict \<or> mbLive m) \<and> \<not> Retired m \<and> \<not> Has m cur v) ms)"

record report_mark =
  rkIncarnation :: string
  rkSeq :: int

definition markOf :: "member \<Rightarrow> report_mark" where
  "markOf m = \<lparr>rkIncarnation = (case mbIncarnation m of None \<Rightarrow> '''' | Some inc \<Rightarrow> icID inc), rkSeq = mbSeq m\<rparr>"

definition reportMarks :: "member list \<Rightarrow> (string, report_mark) fmap" where
  "reportMarks ms = fold (\<lambda>m s. if mbLive m then fmupd (mbID m) (markOf m) s else s) ms fmempty"

definition reportsMissing :: "(string, report_mark) fmap \<Rightarrow> member list \<Rightarrow> string list" where
  "reportsMissing since ms =
     filter (\<lambda>i. case (fmlookup (reportMarks ms) i, fmlookup since i) of
               (Some cur, Some mark) \<Rightarrow> rkIncarnation cur \<noteq> rkIncarnation mark \<or> rkSeq cur < rkSeq mark + 2
             | _ \<Rightarrow> True) (sortedKeys since)"

subsection \<open>The steps of the table\<close>

text \<open>
  What the processes of a proxy did, beside the table: \<^term>\<open>hyStarted\<close> are the processes that registered with a
  heartbeat, or that a later process's marker reported as having ended uncleanly; \<^term>\<open>hyEnded\<close> those with a
  report of a clean retirement or an operator's resolution; \<^term>\<open>hyForgot\<close> every list the forgotten prefix held.
  A heartbeat reads the forgotten list before its transaction and a resolution reads the lease before its own, so
  both take values that may be stale.
\<close>

record history =
  hyStarted :: "(string \<times> string) set"
  hyEnded :: "(string \<times> string) set"
  hyForgot :: "(string \<times> string list) set"

definition beat :: "string \<Rightarrow> heartbeat \<Rightarrow> history \<Rightarrow> history" where
  "beat i hb h = h\<lparr>hyStarted := hyStarted h \<union> {i} \<times> ({hbIncarnation hb} \<union> icID ` {p \<in> set (hbPrevious hb). uncleanEnd p}),
                   hyEnded := hyEnded h \<union> {i} \<times> icID ` {p \<in> set (hbPrevious hb). cleanEnd p}\<rparr>"

definition ended :: "string \<Rightarrow> string \<Rightarrow> history \<Rightarrow> history" where
  "ended i inc h = h\<lparr>hyEnded := insert (i, inc) (hyEnded h)\<rparr>"

definition recordAt :: "fleet \<Rightarrow> string \<Rightarrow> member_record" where
  "recordAt fl i = (case fmlookup (flMembers fl) i of None \<Rightarrow> zeroRecord | Some (rv, r) \<Rightarrow> r)"

inductive fleet_step :: "fleet \<times> history \<Rightarrow> fleet \<times> history \<Rightarrow> bool" where
  heartbeat: "heartbeatRefuses f i hb = None \<Longrightarrow> fg = [] \<or> (i, fg) \<in> hyForgot h \<Longrightarrow>
    Heartbeat ttl now node i fg hb fl = Inr (fl', g) \<Longrightarrow> fleet_step (fl, h) (fl', beat i hb h)"
| retire: "changeMember node i False (retireRecord now i inc uncertain) fl = Inr fl' \<Longrightarrow> 0 \<le> uncertain \<Longrightarrow>
    fleet_step (fl, h) (fl', if uncertain = 0 then ended i inc h else h)"
| request: "RequestRetire node i fl = Inr fl' \<Longrightarrow> fleet_step (fl, h) (fl', h)"
| resolve: "Resolve now live node i inc attestation actor fl = Inr fl' \<Longrightarrow> fleet_step (fl, h) (fl', ended i inc h)"
| forget: "Forget node i fl = Inr fl' \<Longrightarrow>
    fleet_step (fl, h) (fl', h\<lparr>hyForgot := insert (i, endedIncarnations (recordAt fl i)) (hyForgot h)\<rparr>)"
| expire: "fleet_step (fl, h) (dropProxy i fl, h)"

definition newFleet :: fleet where
  "newFleet = \<lparr>flMembers = fmempty, flProxies = fmempty, flForgotten = fmempty, flRevision = 0, flKnown = fmempty\<rparr>"

definition newHistory :: history where
  "newHistory = \<lparr>hyStarted = {}, hyEnded = {}, hyForgot = {}\<rparr>"

subsection \<open>What every record keeps\<close>

definition recOK :: "string set \<Rightarrow> string set \<Rightarrow> member_record \<Rightarrow> bool" where
  "recOK S E r \<longleftrightarrow>
     icID ` set (mrResolved r) \<subseteq> E \<and>
     (\<forall>cur. mrCurrent r = Some cur \<longrightarrow> icState cur = IncarnationActive \<or> icState cur = IncarnationRetired \<and> icID cur \<in> E) \<and>
     length (mrUnresolved r) \<le> MaxUnresolvedIncarnations \<and>
     S - E \<subseteq> icID ` set (unproven r)"

lemma incarnation_states_distinct [simp]:
  "IncarnationActive \<noteq> IncarnationRetired" "IncarnationRetired \<noteq> IncarnationActive"
  "IncarnationUnclean \<noteq> IncarnationActive" "IncarnationUnclean \<noteq> IncarnationRetired"
  "IncarnationActive \<noteq> IncarnationUnclean" "IncarnationRetired \<noteq> IncarnationUnclean"
  by (simp_all add: incarnation_states)

lemma recOK_zero: "S \<subseteq> E \<Longrightarrow> recOK S E zeroRecord"
  by (auto simp: recOK_def zeroRecord_def)

lemma recOK_mono: "recOK S E r \<Longrightarrow> S' \<subseteq> S \<union> E' \<Longrightarrow> E \<subseteq> E' \<Longrightarrow> recOK S' E' r"
  by (fastforce simp: recOK_def)

lemma unproven_current: "icID ` set (unproven r) = {j. activeCurrent r j} \<union> icID ` set (mrUnresolved r)"
  by (auto simp: unproven_def activeCurrent_def split: option.splits if_splits)

lemma reportPrevious_ok:
  assumes "recOK S E r"
  shows "recOK S (if cleanEnd p then insert (icID p) E else E) (reportPrevious now inc p r)"
  using assms
  by (auto simp: recOK_def reportPrevious_def unproven_current activeCurrent_def cleanEnd_def
      intro: order_trans [OF length_filter_le] split: option.splits if_splits)

lemma reportPrevious_current:
  "map_option icID (mrCurrent (reportPrevious now inc p r)) = map_option icID (mrCurrent r)"
  by (auto simp: reportPrevious_def option.map_comp comp_def)

lemma reports_ok:
  "recOK S E r \<Longrightarrow> recOK S (E \<union> icID ` {p \<in> set ps. cleanEnd p}) (fold (reportPrevious now inc) ps r)"
proof (induction ps arbitrary: r E)
  case (Cons p ps)
  from Cons.IH [OF reportPrevious_ok [OF Cons.prems, of p now inc]] show ?case
    unfolding fold_Cons o_apply by (rule recOK_mono) (auto split: if_splits)
qed (simp add: recOK_def)

lemma replaceCurrent_ok:
  assumes "recOK S E r" "replaceCurrent now i inc r = Inr r'"
  shows "recOK S E r' \<and> (\<forall>cur. mrCurrent r' = Some cur \<longrightarrow> icID cur = inc)"
  using assms
  by (auto simp: recOK_def replaceCurrent_def addUnresolved_def unproven_current activeCurrent_def
      split: option.splits if_splits)

lemma registerCurrent_ok:
  assumes "recOK S E r" "\<forall>cur. mrCurrent r = Some cur \<longrightarrow> icID cur = inc"
  shows "recOK (insert inc S) E (registerCurrent inc started r)"
  using assms
  by (auto simp: recOK_def registerCurrent_def newIncarnation_def unproven_current activeCurrent_def split: option.splits)

lemma knows_ok: "recOK S E r \<Longrightarrow> knows r j \<Longrightarrow> j \<in> E \<or> j \<in> icID ` set (unproven r)"
  by (fastforce simp: recOK_def knows_def unproven_current activeCurrent_def list_ex_iff split: option.splits)

lemma recordPrevious_ok:
  "recOK S E r \<Longrightarrow> set fg \<subseteq> E \<Longrightarrow> recordPrevious now i fg ps r = Inr r' \<Longrightarrow>
   recOK (S \<union> icID ` {p \<in> set ps. uncleanEnd p}) E r'"
proof (induction ps arbitrary: r S)
  case (Cons p ps)

  consider "knows r (icID p) \<or> icID p \<in> set fg" | "\<not> (knows r (icID p) \<or> icID p \<in> set fg)" "uncleanEnd p"
    | "\<not> (knows r (icID p) \<or> icID p \<in> set fg)" "\<not> uncleanEnd p" by blast
  then show ?case
  proof cases
    case 1
    with Cons.prems have "recOK (insert (icID p) S) E r"
      using knows_ok [OF Cons.prems(1)] by (auto simp: recOK_def)
    from Cons.IH [OF this Cons.prems(2)] Cons.prems(3) 1
    have "recOK (insert (icID p) S \<union> icID ` {p \<in> set ps. uncleanEnd p}) E r'" by simp
    then show ?thesis by (rule recOK_mono) auto
  next
    case 2
    then obtain r2 where r2: "addUnresolved ((newIncarnation (icID p) (icStarted p))\<lparr>icEnded := if icEnded p = 0 then now else icEnded p,
                  icState := IncarnationUnclean, icUncertain := icUncertain p\<rparr>) r = Some r2" "recordPrevious now i fg ps r2 = Inr r'"
      using Cons.prems(3) by (auto split: option.splits)
    from r2(1) Cons.prems(1) have "recOK (insert (icID p) S) E r2"
      by (auto simp: recOK_def addUnresolved_def newIncarnation_def unproven_current activeCurrent_def split: if_splits)
    from Cons.IH [OF this Cons.prems(2) r2(2)] show ?thesis
      by (rule recOK_mono) auto
  next
    case 3
    with Cons.IH [OF Cons.prems(1,2)] Cons.prems(3)
    have "recOK (S \<union> icID ` {p \<in> set ps. uncleanEnd p}) E r'" by simp
    then show ?thesis using 3 by (rule_tac recOK_mono) auto
  qed
qed simp

lemma recordPrevious_current: "recordPrevious now i fg ps r = Inr r' \<Longrightarrow> mrCurrent r' = mrCurrent r"
  by (induction ps arbitrary: r) (auto simp: addUnresolved_def split: if_splits option.splits)

lemma heartbeatRecord_ok:
  assumes ok: "recOK S E r" and fg: "set fg \<subseteq> E" and hb: "heartbeatRecord now i fg hb r = Inr r'"
  shows "recOK (S \<union> ({hbIncarnation hb} \<union> icID ` {p \<in> set (hbPrevious hb). uncleanEnd p}))
               (E \<union> icID ` {p \<in> set (hbPrevious hb). cleanEnd p}) r' \<and>
         (\<exists>cur. mrCurrent r' = Some cur \<and> icID cur = hbIncarnation hb)"
proof -
  define E' r1 where "E' = E \<union> icID ` {p \<in> set (hbPrevious hb). cleanEnd p}"
    and "r1 = (if mrJoined r = 0 then r\<lparr>mrJoined := now\<rparr> else r)"
  have "recOK S E r1" using ok by (simp add: r1_def recOK_def unproven_def)
  from reports_ok [OF this] have ok2: "recOK S E' (fold (reportPrevious now (hbIncarnation hb)) (hbPrevious hb) r1)"
    by (simp add: E'_def)
  from hb obtain r3 where r3: "replaceCurrent now i (hbIncarnation hb) (fold (reportPrevious now (hbIncarnation hb)) (hbPrevious hb) r1) = Inr r3"
      "recordPrevious now i fg (hbPrevious hb) (registerCurrent (hbIncarnation hb) (hbStarted hb) r3) = Inr r'"
    by (auto simp: heartbeatRecord_def r1_def Let_def split: sum.splits)
  note ok3 = replaceCurrent_ok [OF ok2 r3(1)]
  have ok4: "recOK (insert (hbIncarnation hb) S) E' (registerCurrent (hbIncarnation hb) (hbStarted hb) r3)"
    using ok3 by (intro registerCurrent_ok) auto
  have "set fg \<subseteq> E'" using fg by (auto simp: E'_def)
  from recordPrevious_ok [OF ok4 this r3(2)] have "recOK (insert (hbIncarnation hb) S \<union> icID ` {p \<in> set (hbPrevious hb). uncleanEnd p}) E' r'" .
  moreover have "\<exists>cur. mrCurrent r' = Some cur \<and> icID cur = hbIncarnation hb"
    using ok3 recordPrevious_current [OF r3(2)] by (auto simp: registerCurrent_def newIncarnation_def split: option.splits)
  ultimately show ?thesis by (simp add: E'_def Un_commute Un_left_commute)
qed

lemma replaceFirst_set: "set (replaceFirst P f xs) \<subseteq> set xs \<union> (\<Union>x \<in> {x \<in> set xs. P x}. set (f x))"
  by (induction xs) auto

lemma replaceFirst_keeps: "x \<in> set xs \<Longrightarrow> \<not> P x \<Longrightarrow> x \<in> set (replaceFirst P f xs)"
  by (induction xs) auto

lemma replaceFirst_length: "(\<And>x. length (f x) \<le> 1) \<Longrightarrow> length (replaceFirst P f xs) \<le> length xs"
proof (induction xs)
  case (Cons x xs)
  with Cons.prems [of x] show ?case by auto
qed simp

lemma replaceFirst_image:
  "(\<And>x. P x \<Longrightarrow> g ` set (f x) = {g x}) \<Longrightarrow> g ` set (replaceFirst P f xs) = g ` set xs"
  by (induction xs) (auto simp: image_Un)

lemma activeCurrent_update [simp]: "activeCurrent (r\<lparr>mrUnresolved := us\<rparr>) j = activeCurrent r j"
  by (simp add: activeCurrent_def)

lemma recOK_unresolved:
  assumes "recOK S E r" "length us \<le> length (mrUnresolved r)" "E \<subseteq> E'" "icID ` set (mrUnresolved r) - E' \<subseteq> icID ` set us"
  shows "recOK S E' (r\<lparr>mrUnresolved := us\<rparr>)"
proof -
  have "S - E' \<subseteq> {j. activeCurrent r j} \<union> icID ` set us"
    using assms(1,3,4) unfolding recOK_def unproven_current by blast
  with assms(1-3) show ?thesis by (auto simp: recOK_def unproven_current)
qed

lemma retireLate_ok:
  assumes "recOK S E r" "retireLate now i inc uncertain r = Inr r'"
  shows "recOK S (if uncertain = 0 then insert inc E else E) r'"
proof -
  let ?f = "\<lambda>u. if uncertain = 0 then [] else [u\<lparr>icUncertain := uncertain, icEnded := now\<rparr>]"
  let ?us = "replaceFirst (\<lambda>u. icID u = inc) ?f (mrUnresolved r)"
  have len: "length ?us \<le> length (mrUnresolved r)" by (rule replaceFirst_length) simp
  have keep: "icID ` set (mrUnresolved r) - {inc} \<subseteq> icID ` set ?us"
    using replaceFirst_keeps [of _ "mrUnresolved r" "\<lambda>u. icID u = inc" ?f] by blast
  have same: "icID ` set ?us = icID ` set (mrUnresolved r)" if "uncertain \<noteq> 0"
    using that by (intro replaceFirst_image) auto
  from assms(2) consider "r' = r" | "r' = r\<lparr>mrUnresolved := ?us\<rparr>"
    by (auto simp: retireLate_def split: if_splits)
  then show ?thesis
  proof cases
    case 1
    show ?thesis unfolding 1 by (rule recOK_mono [OF assms(1)]) (auto split: if_splits)
  next
    case 2
    show ?thesis unfolding 2
      by (rule recOK_unresolved [OF assms(1) len]) (use keep same in auto)
  qed
qed

lemma retireCurrent_ok:
  assumes "recOK S E r" "mrCurrent r = Some cur" "retireCurrent now i uncertain cur r = Inr r'" "0 \<le> uncertain"
  shows "recOK S (if uncertain = 0 then insert (icID cur) E else E) r'"
  using assms
  by (auto simp: recOK_def retireCurrent_def addUnresolved_def unproven_current activeCurrent_def Let_def subset_iff
      split: if_splits option.splits)

lemma retireRecord_ok:
  assumes "recOK S E r" "retireRecord now i inc uncertain r = Inr r'" "0 \<le> uncertain"
  shows "recOK S (if uncertain = 0 then insert inc E else E) r'"
  using assms(2) retireCurrent_ok [OF assms(1) _ _ assms(3)] retireLate_ok [OF assms(1)]
  unfolding retireRecord_def by (cases "mrCurrent r") (fastforce split: if_splits)+

lemma recOK_resolved: "recOK S E r \<Longrightarrow> icID u \<in> E \<Longrightarrow> recOK S E (addResolved now a b u r)"
  by (auto simp: recOK_def addResolved_def Let_def unproven_current activeCurrent_def subset_iff dest: in_set_dropD)

lemma recOK_clear: "recOK S E r \<Longrightarrow> {j. activeCurrent r j} \<subseteq> E \<Longrightarrow> recOK S E (r\<lparr>mrCurrent := None\<rparr>)"
  by (auto simp: recOK_def unproven_current)

lemma resolveRecord_ok:
  assumes "recOK S E r" "resolveRecord now live i inc a b r = Inr r'"
  shows "recOK S (insert inc E) r'"
proof (cases "find (\<lambda>u. icID u = inc) (mrUnresolved r)")
  case None
  with assms(2) have act: "activeCurrent r inc"
    and r': "r' = addResolved now a b ((the (mrCurrent r))\<lparr>icEnded := now\<rparr>) (r\<lparr>mrCurrent := None\<rparr>)"
    by (auto simp: resolveRecord_def split: if_splits)
  have "recOK S (insert inc E) r" using assms(1) by (rule recOK_mono) auto
  then have "recOK S (insert inc E) (r\<lparr>mrCurrent := None\<rparr>)"
    using act by (rule_tac recOK_clear) (auto simp: activeCurrent_def split: option.splits)
  then show ?thesis unfolding r' using act
    by (rule_tac recOK_resolved) (auto simp: activeCurrent_def split: option.splits)
next
  case (Some u)
  then have u: "icID u = inc" by (auto simp: find_Some_iff)
  let ?us = "replaceFirst (\<lambda>u. icID u = inc) (\<lambda>_. []) (mrUnresolved r)"
  have len: "length ?us \<le> length (mrUnresolved r)" by (rule replaceFirst_length) simp
  have keep: "icID ` set (mrUnresolved r) - {inc} \<subseteq> icID ` set ?us"
    using replaceFirst_keeps [of _ "mrUnresolved r" "\<lambda>u. icID u = inc" "\<lambda>_. []"] by blast
  have r': "r' = addResolved now a b u (r\<lparr>mrUnresolved := ?us\<rparr>)"
    using assms(2) Some by (simp add: resolveRecord_def)
  have "recOK S (insert inc E) (r\<lparr>mrUnresolved := ?us\<rparr>)"
    by (rule recOK_unresolved [OF assms(1) len]) (use keep in auto)
  then show ?thesis unfolding r' by (rule recOK_resolved) (simp add: u)
qed

subsection \<open>What the table keeps\<close>

definition startedOf :: "history \<Rightarrow> string \<Rightarrow> string set" where
  "startedOf h i = {j. (i, j) \<in> hyStarted h}"

definition endedOf :: "history \<Rightarrow> string \<Rightarrow> string set" where
  "endedOf h i = {j. (i, j) \<in> hyEnded h}"

definition recordsOK :: "fleet \<Rightarrow> history \<Rightarrow> bool" where
  "recordsOK fl h \<longleftrightarrow>
     (\<forall>i. recOK (startedOf h i) (endedOf h i) (recordAt fl i)) \<and>
     (\<forall>i fg. (i, fg) \<in> hyForgot h \<longrightarrow> set fg \<subseteq> endedOf h i)"

definition proxiesOK :: "fleet \<Rightarrow> bool" where
  "proxiesOK fl \<longleftrightarrow>
     (\<forall>i pr. fmlookup (flProxies fl) i = Some pr \<longrightarrow>
        validateAcks (hbBarriers (prHeartbeat pr)) = None \<and>
        (\<forall>j. activeCurrent (recordAt fl i) j \<longrightarrow> hbIncarnation (prHeartbeat pr) = j))"

definition prevOK :: "history \<Rightarrow> string \<Rightarrow> string \<Rightarrow> bool" where
  "prevOK h i s \<longleftrightarrow> (\<exists>ids. s = commaJoin ids \<and> (\<forall>x \<in> set ids. ValidIncarnation x) \<and> set ids \<subseteq> startedOf h i \<union> endedOf h i)"

definition cachedOK :: "fleet \<Rightarrow> history \<Rightarrow> string \<Rightarrow> cached \<Rightarrow> bool" where
  "cachedOK fl h i c \<longleftrightarrow>
     caRev c \<le> flRevision fl \<and> (\<forall>r. fmlookup (flMembers fl) i = Some (caRev c, r) \<longrightarrow> r = caRec c) \<and> prevOK h i (caPrevIDs c)"

definition cacheOK :: "fleet \<Rightarrow> history \<Rightarrow> bool" where
  "cacheOK fl h \<longleftrightarrow>
     (\<forall>i rv r. fmlookup (flMembers fl) i = Some (rv, r) \<longrightarrow> rv \<le> flRevision fl) \<and>
     (\<forall>n i c. fmlookup (flKnown fl) (n, i) = Some c \<longrightarrow> cachedOK fl h i c)"

definition fleetOK :: "fleet \<times> history \<Rightarrow> bool" where
  "fleetOK s \<longleftrightarrow> recordsOK (fst s) (snd s) \<and> proxiesOK (fst s) \<and> cacheOK (fst s) (snd s)"

lemma history_of [simp]:
  "startedOf (beat i hb h) i = startedOf h i \<union> ({hbIncarnation hb} \<union> icID ` {p \<in> set (hbPrevious hb). uncleanEnd p})"
  "endedOf (beat i hb h) i = endedOf h i \<union> icID ` {p \<in> set (hbPrevious hb). cleanEnd p}"
  "i' \<noteq> i \<Longrightarrow> startedOf (beat i hb h) i' = startedOf h i'"
  "i' \<noteq> i \<Longrightarrow> endedOf (beat i hb h) i' = endedOf h i'"
  "hyForgot (beat i hb h) = hyForgot h"
  "startedOf (ended i inc h) i' = startedOf h i'"
  "endedOf (ended i inc h) i' = (if i' = i then insert inc (endedOf h i') else endedOf h i')"
  "hyForgot (ended i inc h) = hyForgot h"
  by (auto simp: startedOf_def endedOf_def beat_def ended_def)

definition grows :: "history \<Rightarrow> history \<Rightarrow> bool" where
  "grows h h' \<longleftrightarrow> (\<forall>i. startedOf h i \<subseteq> startedOf h' i \<and> endedOf h i \<subseteq> endedOf h' i) \<and> hyForgot h' = hyForgot h"

lemma grows_simps [simp]: "grows h h" "grows h (ended i inc h)"
  by (auto simp: grows_def)

lemma grows_beat [simp]: "grows h (beat i hb h)"
  unfolding grows_def by (auto simp: startedOf_def endedOf_def beat_def)

lemma recordAt_commit [simp]: "recordAt (commitRecord node i r fl) i' = (if i' = i then r else recordAt fl i')"
  by (simp add: recordAt_def commitRecord_def Let_def)

lemma changeMember_Inr:
  assumes "changeMember node i create fn fl = Inr fl'"
  obtains r where "fn (recordAt fl i) = Inr r" "fl' = commitRecord node i r fl"
  using assms by (auto simp: changeMember_def recordAt_def split: if_splits sum.splits)

lemma prevOK_Nil [simp]: "prevOK h i ''''"
  unfolding prevOK_def by (rule exI [of _ "[]"]) simp

lemma prevOK_grows: "prevOK h i s \<Longrightarrow> grows h h' \<Longrightarrow> prevOK h' i s"
  unfolding prevOK_def grows_def by blast

lemma commitRecord_fields [simp]:
  "flRevision (commitRecord node i r fl) = flRevision fl + 1"
  "flMembers (commitRecord node i r fl) = fmupd i (flRevision fl + 1, r) (flMembers fl)"
  "flProxies (commitRecord node i r fl) = flProxies fl"
  "flForgotten (commitRecord node i r fl) = flForgotten fl"
  "flKnown (commitRecord node i r fl) = fmupd (node, i) \<lparr>caRev = flRevision fl + 1, caRec = r,
     caPrevIDs = (case fmlookup (flKnown fl) (node, i) of None \<Rightarrow> '''' | Some c \<Rightarrow> caPrevIDs c)\<rparr> (flKnown fl)"
  by (simp_all add: commitRecord_def Let_def)

lemma cachedOK_commit:
  assumes "cachedOK fl h i' c" "grows h h'"
  shows "cachedOK (commitRecord node i r fl) h' i' c"
  using assms prevOK_grows by (auto simp: cachedOK_def)

lemma cacheOK_commit:
  assumes ok: "cacheOK fl h" and g: "grows h h'"
  shows "cacheOK (commitRecord node i r fl) h'"
proof -
  have "prevOK h' i (case fmlookup (flKnown fl) (node, i) of None \<Rightarrow> '''' | Some c \<Rightarrow> caPrevIDs c)"
    using ok prevOK_grows [OF _ g] by (auto simp: cacheOK_def cachedOK_def split: option.splits)
  then have new: "cachedOK (commitRecord node i r fl) h' i \<lparr>caRev = flRevision fl + 1, caRec = r,
     caPrevIDs = (case fmlookup (flKnown fl) (node, i) of None \<Rightarrow> '''' | Some c \<Rightarrow> caPrevIDs c)\<rparr>"
    by (simp add: cachedOK_def)
  have old: "cachedOK (commitRecord node i r fl) h' i' c" if "fmlookup (flKnown fl) (n, i') = Some c" for n i' c
    using ok that by (intro cachedOK_commit [OF _ g]) (simp add: cacheOK_def)
  have "rv \<le> flRevision fl + 1" if "fmlookup (flMembers fl) i' = Some (rv, r')" for i' rv r'
    using ok that by (fastforce simp: cacheOK_def)
  with new old show ?thesis unfolding cacheOK_def by (auto split: if_splits simp del: commitRecord_fields(4))
qed

lemma recordsOK_commit:
  assumes "recordsOK fl h" "grows h h'" "recOK (startedOf h' i) (endedOf h' i) r"
    "\<And>i'. i' \<noteq> i \<Longrightarrow> startedOf h' i' = startedOf h i' \<and> endedOf h' i' = endedOf h i'"
  shows "recordsOK (commitRecord node i r fl) h'"
proof -
  have "set fg \<subseteq> endedOf h' i'" if "(i', fg) \<in> hyForgot h'" for i' fg
    using that assms(1,2) unfolding recordsOK_def grows_def by blast
  with assms show ?thesis by (simp add: recordsOK_def)
qed

lemma changeMember_ok:
  assumes ok: "fleetOK (fl, h)" and ch: "changeMember node i create fn fl = Inr fl'" and g: "grows h h'"
    and other: "\<And>i'. i' \<noteq> i \<Longrightarrow> startedOf h' i' = startedOf h i' \<and> endedOf h' i' = endedOf h i'"
    and rec: "\<And>r. fn (recordAt fl i) = Inr r \<Longrightarrow> recOK (startedOf h i) (endedOf h i) (recordAt fl i) \<Longrightarrow>
                recOK (startedOf h' i) (endedOf h' i) r"
    and cur: "\<And>r j. fn (recordAt fl i) = Inr r \<Longrightarrow> activeCurrent r j \<Longrightarrow> activeCurrent (recordAt fl i) j"
  shows "fleetOK (fl', h')"
proof -
  obtain r where r: "fn (recordAt fl i) = Inr r" "fl' = commitRecord node i r fl" using changeMember_Inr [OF ch] .
  have "recOK (startedOf h' i) (endedOf h' i) r"
    using rec [OF r(1)] ok by (simp add: fleetOK_def recordsOK_def)
  moreover have "flProxies fl' = flProxies fl" by (simp add: r(2) commitRecord_def Let_def)
  moreover have "proxiesOK fl'"
    using ok cur [OF r(1)] calculation(2) by (auto simp: fleetOK_def proxiesOK_def r(2))
  ultimately show ?thesis
    using ok recordsOK_commit [OF _ g _ other] cacheOK_commit [OF _ g] by (simp add: fleetOK_def r(2))
qed

lemma commaJoin_inj:
  "\<forall>x \<in> set xs. length x = n \<Longrightarrow> \<forall>x \<in> set ys. length x = n \<Longrightarrow> 0 < n \<Longrightarrow> commaJoin xs = commaJoin ys \<Longrightarrow> xs = ys"
proof (induction xs arbitrary: ys rule: commaJoin.induct)
  case 1
  then show ?case by (cases ys rule: commaJoin.cases) auto
next
  case (2 x)
  have "ys \<noteq> []" using 2 by auto
  moreover have "ys \<noteq> x' # y' # zs'" for x' y' zs'
    using 2 by (auto simp: append_eq_append_conv2)
  ultimately show ?case using 2 by (cases ys rule: commaJoin.cases) auto
next
  case (3 x y zs)
  have "ys \<noteq> []" "ys \<noteq> [x']" for x'
    using "3.prems" by (auto simp: append_eq_append_conv2)
  then obtain x' y' zs' where ys: "ys = x' # y' # zs'" by (cases ys rule: commaJoin.cases) auto
  then have "x = x'" "commaJoin (y # zs) = commaJoin (y' # zs')" using "3.prems" by auto
  moreover have "y # zs = y' # zs'" using "3.prems" calculation(2) ys by (intro "3.IH") auto
  ultimately show ?case using ys by simp
qed

lemma prevOK_previous:
  assumes "prevOK h i (previousIDs ps)" "\<forall>p \<in> set ps. ValidIncarnation (icID p)"
  shows "icID ` set ps \<subseteq> startedOf h i \<union> endedOf h i"
proof -
  from assms(1) obtain ids where ids: "commaJoin (map icID ps) = commaJoin ids" "\<forall>x \<in> set ids. ValidIncarnation x"
      "set ids \<subseteq> startedOf h i \<union> endedOf h i"
    by (auto simp: prevOK_def previousIDs_def)
  have "map icID ps = ids"
    using ids(2) assms(2) by (intro commaJoin_inj [OF _ _ _ ids(1), of 32]) (auto simp: ValidIncarnation_def)
  with ids(3) show ?thesis by (metis set_map)
qed

lemma heartbeat_accepted:
  assumes "heartbeatRefuses f i hb = None"
  shows "ValidIncarnation (hbIncarnation hb)" "validateAcks (hbBarriers hb) = None"
    "\<forall>p \<in> set (hbPrevious hb). ValidIncarnation (icID p) \<and> icID p \<noteq> hbIncarnation hb \<and> (cleanEnd p \<or> uncleanEnd p)"
proof -
  show "ValidIncarnation (hbIncarnation hb)" "validateAcks (hbBarriers hb) = None"
    using assms by (auto simp: heartbeatRefuses_def split: if_splits option.splits)
  have "\<not> badPrevious (hbIncarnation hb) (hbPrevious hb) k" if "k < length (hbPrevious hb)" for k
    using assms that by (auto simp: heartbeatRefuses_def list_ex_iff split: if_splits)
  then show "\<forall>p \<in> set (hbPrevious hb). ValidIncarnation (icID p) \<and> icID p \<noteq> hbIncarnation hb \<and> (cleanEnd p \<or> uncleanEnd p)"
    by (fastforce simp: badPrevious_def Let_def in_set_conv_nth cleanEnd_def uncleanEnd_def)
qed

lemma beat_previous:
  assumes "heartbeatRefuses f i hb = None"
  shows "icID ` set (hbPrevious hb) \<subseteq> startedOf (beat i hb h) i \<union> endedOf (beat i hb h) i"
  using heartbeat_accepted(3) [OF assms] by auto

lemma activeCurrent_recordAt: "activeCurrent (recordAt fl i) j \<Longrightarrow> hasKey (flMembers fl) i"
  by (auto simp: recordAt_def activeCurrent_def zeroRecord_def fmdomI split: option.splits)

lemma putProxy_fields [simp]:
  "flMembers (putProxy now i hb fl) = flMembers fl" "flKnown (putProxy now i hb fl) = flKnown fl"
  "flRevision (putProxy now i hb fl) = flRevision fl"
  "flProxies (putProxy now i hb fl) = fmupd i \<lparr>prHeartbeat = hb, prSeen = now\<rparr> (flProxies fl)"
  "recordAt (putProxy now i hb fl) = recordAt fl"
  by (auto simp: putProxy_def recordAt_def)

lemma keepPrevIDs_fields [simp]:
  "flMembers (keepPrevIDs node i hb fl) = flMembers fl" "flRevision (keepPrevIDs node i hb fl) = flRevision fl"
  "flProxies (keepPrevIDs node i hb fl) = flProxies fl" "recordAt (keepPrevIDs node i hb fl) = recordAt fl"
  by (auto simp: keepPrevIDs_def recordAt_def split: option.splits)

lemma cacheOK_keep:
  assumes "cacheOK fl h" "prevOK h i (previousIDs (hbPrevious hb))"
  shows "cacheOK (keepPrevIDs node i hb fl) h"
proof (cases "hbPrevious hb = [] \<or> fmlookup (flKnown fl) (node, i) = None")
  case True
  with assms(1) show ?thesis by (auto simp: keepPrevIDs_def)
next
  case False
  then obtain c where c: "fmlookup (flKnown fl) (node, i) = Some c" "hbPrevious hb \<noteq> []" by auto
  have fl': "keepPrevIDs node i hb fl = fl\<lparr>flKnown := fmupd (node, i) (c\<lparr>caPrevIDs := previousIDs (hbPrevious hb)\<rparr>) (flKnown fl)\<rparr>"
    using c by (simp add: keepPrevIDs_def)
  have "cachedOK fl h i c" using assms(1) c(1) by (simp add: cacheOK_def)
  then have "cachedOK fl h i (c\<lparr>caPrevIDs := previousIDs (hbPrevious hb)\<rparr>)"
    using assms(2) by (simp add: cachedOK_def)
  then show ?thesis
    using assms(1) unfolding fl' cacheOK_def by (auto simp: cachedOK_def split: if_splits)
qed

lemma cacheOK_put: "cacheOK fl h \<Longrightarrow> cacheOK (putProxy now i hb fl) h"
  by (auto simp: cacheOK_def cachedOK_def)

lemma Heartbeat_cases:
  assumes "Heartbeat ttl now node i fg hb fl = Inr (fl', g)"
  obtains (same) c r where "fmlookup (flKnown fl) (node, i) = Some c" "unchanged (Some c) hb"
      "fmlookup (flMembers fl) i = Some (caRev c, r)" "fl' = putProxy now i hb (fl\<lparr>flRevision := flRevision fl + 1\<rparr>)"
    | (changed) r where "heartbeatRecord now i (if hbPrevious hb = [] then [] else fg) hb (recordAt fl i) = Inr r"
      "fl' = keepPrevIDs node i hb (putProxy now i hb (commitRecord node i r fl))"
proof (cases "unchanged (fmlookup (flKnown fl) (node, i)) hb \<and>
    (case (fmlookup (flKnown fl) (node, i), fmlookup (flMembers fl) i) of (Some c, Some (rv, r)) \<Rightarrow> caRev c = rv | _ \<Rightarrow> False)")
  case True
  then obtain c r where "fmlookup (flKnown fl) (node, i) = Some c" "fmlookup (flMembers fl) i = Some (caRev c, r)"
    by (auto split: option.splits)
  with True assms show thesis by (intro same) (auto simp: Heartbeat_def Let_def)
next
  case False
  then obtain fl2 where "changeMember node i True (heartbeatRecord now i (if hbPrevious hb = [] then [] else fg) hb) fl = Inr fl2"
      "fl' = keepPrevIDs node i hb (putProxy now i hb fl2)"
    using assms unfolding Heartbeat_def Let_def by (auto split: sum.splits)
  then show thesis by (auto elim!: changeMember_Inr intro: changed)
qed

lemma heartbeat_same_ok:
  assumes ok: "fleetOK (fl, h)" and hb: "heartbeatRefuses f i hb = None"
    and c: "fmlookup (flKnown fl) (node, i) = Some c" "unchanged (Some c) hb" "fmlookup (flMembers fl) i = Some (caRev c, r)"
  shows "fleetOK (putProxy now i hb (fl\<lparr>flRevision := flRevision fl + 1\<rparr>), beat i hb h)"
proof -
  let ?fl = "putProxy now i hb (fl\<lparr>flRevision := flRevision fl + 1\<rparr>)"
  have at: "recordAt (fl\<lparr>flRevision := flRevision fl + 1\<rparr>) = recordAt fl" by (simp add: recordAt_def fun_eq_iff)
  have cOK: "cachedOK fl h i c" using ok c(1) by (simp add: fleetOK_def cacheOK_def)
  then have "recordAt fl i = caRec c" using c(3) by (auto simp: cachedOK_def recordAt_def)
  then have act: "activeCurrent (recordAt fl i) (hbIncarnation hb)" using c(2) by (simp add: unchanged_def)
  have prev: "icID ` set (hbPrevious hb) \<subseteq> startedOf h i \<union> endedOf h i"
  proof (cases "hbPrevious hb = []")
    case False
    then have "prevOK h i (previousIDs (hbPrevious hb))" using cOK c(2) by (auto simp: cachedOK_def unchanged_def)
    with heartbeat_accepted(3) [OF hb] show ?thesis by (intro prevOK_previous) auto
  qed simp
  have rec: "recOK (startedOf h i) (endedOf h i) (recordAt fl i)" using ok by (simp add: fleetOK_def recordsOK_def)
  have "recOK (insert (hbIncarnation hb) (startedOf h i)) (endedOf h i) (recordAt fl i)"
    using rec act by (auto simp: recOK_def unproven_current)
  then have "recOK (startedOf (beat i hb h) i) (endedOf (beat i hb h) i) (recordAt fl i)"
    by (rule recOK_mono) (use prev in auto)
  then have "recOK (startedOf (beat i hb h) i') (endedOf (beat i hb h) i') (recordAt fl i')" for i'
    using ok by (cases "i' = i") (auto simp: fleetOK_def recordsOK_def)
  moreover have "set fg \<subseteq> endedOf (beat i hb h) i'" if "(i', fg) \<in> hyForgot h" for i' fg
    using ok that grows_beat [of h i hb] unfolding fleetOK_def recordsOK_def grows_def fst_conv snd_conv by blast
  ultimately have "recordsOK ?fl (beat i hb h)" by (simp add: recordsOK_def at)
  moreover have "proxiesOK ?fl"
    using ok act heartbeat_accepted(2) [OF hb] by (auto simp: fleetOK_def proxiesOK_def at activeCurrent_def split: option.splits)
  moreover have "cachedOK ?fl (beat i hb h) i' c'" if "cachedOK fl h i' c'" for i' c'
    using that prevOK_grows [OF _ grows_beat] by (auto simp: cachedOK_def)
  then have "cacheOK ?fl (beat i hb h)" using ok by (fastforce simp: fleetOK_def cacheOK_def)
  ultimately show ?thesis by (simp add: fleetOK_def)
qed

lemma heartbeat_changed_ok:
  assumes ok: "fleetOK (fl, h)" and hb: "heartbeatRefuses f i hb = None" and fg: "fg = [] \<or> (i, fg) \<in> hyForgot h"
    and r: "heartbeatRecord now i (if hbPrevious hb = [] then [] else fg) hb (recordAt fl i) = Inr r"
  shows "fleetOK (keepPrevIDs node i hb (putProxy now i hb (commitRecord node i r fl)), beat i hb h)"
proof -
  have rec: "recOK (startedOf h i) (endedOf h i) (recordAt fl i)" using ok by (simp add: fleetOK_def recordsOK_def)
  have "set (if hbPrevious hb = [] then [] else fg) \<subseteq> endedOf h i"
    using ok fg by (auto simp: fleetOK_def recordsOK_def)
  note new = heartbeatRecord_ok [OF rec this r]
  have "recordsOK (commitRecord node i r fl) (beat i hb h)"
    using ok new by (intro recordsOK_commit [of fl h]) (auto simp: fleetOK_def)
  moreover have "proxiesOK (putProxy now i hb (commitRecord node i r fl))"
    using ok new heartbeat_accepted(2) [OF hb] by (auto simp: fleetOK_def proxiesOK_def activeCurrent_def)
  moreover have "prevOK (beat i hb h) i (previousIDs (hbPrevious hb))"
    unfolding prevOK_def previousIDs_def using beat_previous [OF hb] heartbeat_accepted(3) [OF hb]
    by (intro exI [of _ "map icID (hbPrevious hb)"]) auto
  then have "cacheOK (keepPrevIDs node i hb (putProxy now i hb (commitRecord node i r fl))) (beat i hb h)"
    using ok by (intro cacheOK_keep cacheOK_put cacheOK_commit [OF _ grows_beat]) (auto simp: fleetOK_def)
  ultimately show ?thesis by (simp add: fleetOK_def recordsOK_def proxiesOK_def)
qed

lemma forget_ok:
  assumes ok: "fleetOK (fl, h)" and f: "Forget node i fl = Inr fl'"
  shows "fleetOK (fl', h\<lparr>hyForgot := insert (i, endedIncarnations (recordAt fl i)) (hyForgot h)\<rparr>)"
proof -
  let ?h = "h\<lparr>hyForgot := insert (i, endedIncarnations (recordAt fl i)) (hyForgot h)\<rparr>"
  have of: "startedOf (h\<lparr>hyForgot := F\<rparr>) = startedOf h" "endedOf (h\<lparr>hyForgot := F\<rparr>) = endedOf h" for F
    by (auto simp: startedOf_def endedOf_def)
  obtain rv r where r: "fmlookup (flMembers fl) i = Some (rv, r)" "\<not> hasKey (flProxies fl) i" "unproven r = []"
    and fl': "fl' = fl\<lparr>flMembers := fmdrop i (flMembers fl), flForgotten := fmupd i (endedIncarnations r) (flForgotten fl),
                       flRevision := flRevision fl + 1, flKnown := fmdrop (node, i) (flKnown fl)\<rparr>"
    using f by (auto simp: Forget_def split: option.splits prod.splits if_splits)
  have at: "recordAt fl i = r" "recordAt fl' i' = (if i' = i then zeroRecord else recordAt fl i')" for i'
    using r(1) by (auto simp: recordAt_def fl')
  have rec: "recOK (startedOf h i) (endedOf h i) r" using ok at by (auto simp: fleetOK_def recordsOK_def)
  then have "startedOf h i \<subseteq> endedOf h i" using r(3) by (auto simp: recOK_def)
  moreover have "set (endedIncarnations r) \<subseteq> endedOf h i"
    using rec by (cases "mrCurrent r") (auto simp: recOK_def endedIncarnations_def split: if_splits)
  ultimately have "recordsOK fl' ?h"
    using ok unfolding recordsOK_def fleetOK_def fst_conv snd_conv of at by (auto intro: recOK_zero)
  moreover have "flProxies fl' = flProxies fl" by (simp add: fl')
  then have "proxiesOK fl'" using ok r(2) by (auto simp: fleetOK_def proxiesOK_def at fmdomI split: if_splits)
  moreover have "cachedOK fl' ?h i' c" if "cachedOK fl h i' c" for i' c
    using that by (auto simp: cachedOK_def prevOK_def of fl' split: if_splits)
  then have "cacheOK fl' ?h" using ok by (fastforce simp: fleetOK_def cacheOK_def fl' split: if_splits)
  ultimately show ?thesis by (simp add: fleetOK_def)
qed

lemma activeCurrent_retire: "retireRecord now i inc u r = Inr r' \<Longrightarrow> activeCurrent r' j \<Longrightarrow> activeCurrent r j"
  by (auto simp: retireRecord_def retireCurrent_def retireLate_def addUnresolved_def activeCurrent_def Let_def
      split: option.splits if_splits)

lemma activeCurrent_resolve: "resolveRecord now live i inc a b r = Inr r' \<Longrightarrow> activeCurrent r' j \<Longrightarrow> activeCurrent r j"
  by (auto simp: resolveRecord_def addResolved_def activeCurrent_def Let_def split: option.splits if_splits)

lemma request_ok: "requestRetireRecord i r = Inr r' \<Longrightarrow> r' = r\<lparr>mrRetireRequested := True\<rparr>"
  by (auto simp: requestRetireRecord_def split: option.splits if_splits)

theorem fleet_step_ok: "fleet_step s s' \<Longrightarrow> fleetOK s \<Longrightarrow> fleetOK s'"
proof (induction rule: fleet_step.induct)
  case (heartbeat f i hb fg h ttl now node fl fl' g)
  from heartbeat(3) show ?case
    by (cases rule: Heartbeat_cases)
      (use heartbeat heartbeat_same_ok heartbeat_changed_ok in blast)+
next
  case (retire node i now inc uncertain fl fl' h)
  show ?case
    by (rule changeMember_ok [OF retire(3,1)])
      (use retireRecord_ok [OF _ _ retire(2)] activeCurrent_retire in \<open>auto split: if_splits\<close>)
next
  case (request node i fl fl' h)
  show ?case
    by (rule changeMember_ok [OF request(2) request(1) [unfolded RequestRetire_def]])
      (auto dest!: request_ok simp: recOK_def unproven_def activeCurrent_def)
next
  case (resolve now live node i inc a b fl fl' h)
  show ?case
    by (rule changeMember_ok [OF resolve(2) resolve(1) [unfolded Resolve_def]])
      (use resolveRecord_ok activeCurrent_resolve in auto)
next
  case (forget node i fl fl' h)
  then show ?case by (intro forget_ok)
next
  case (expire fl h i)
  then show ?case
    by (auto simp: fleetOK_def recordsOK_def proxiesOK_def cacheOK_def cachedOK_def dropProxy_def recordAt_def split: if_splits)
qed

lemma newFleet_ok: "fleetOK (newFleet, newHistory)"
  by (simp add: fleetOK_def recordsOK_def proxiesOK_def cacheOK_def newFleet_def newHistory_def recordAt_def
      startedOf_def endedOf_def recOK_zero)

lemma fleet_run_ok: "fleet_step\<^sup>*\<^sup>* (newFleet, newHistory) s \<Longrightarrow> fleetOK s"
  by (induction rule: rtranclp_induct) (auto intro: newFleet_ok fleet_step_ok)

end
