(* ===== verification/Operations.thy ===== *)
theory Operations
  imports Fleet Sha256
begin

text \<open>
  Operation records and the scopes they reserve (\<^verbatim>\<open>internal/control/operation.go\<close>, \<^verbatim>\<open>scope.go\<close>, \<^verbatim>\<open>worker.go\<close> and the record
  writes of \<^verbatim>\<open>barrier.go\<close>, ADR-0017 and ADR-0021).

  The store is the in-memory one, whose methods run under one lock; the etcd store passes the same contract test.
  A writer reads a record, changes it and writes it back over the sequence it read: the retry loops around that
  compare-and-swap have the effect of one atomic step on the record as it stands, and this is what a step is here.
  Times are numbers; \<^verbatim>\<open>Progress\<close>, \<^verbatim>\<open>Result\<close> and \<^verbatim>\<open>Member\<close>, which nothing here reads, are left out of the record, and
  of its arguments only what the mover's session needs is kept. A Go map is listed in an order the caller gives. An
  index that names no record would be a nil dereference in \<^verbatim>\<open>Create\<close>: it is the error \<^term>\<open>NilRecord\<close>, which no
  store that the steps reach returns.

  What the records keep along every run of these steps is shown in the theory Operation_Store.
\<close>

subsection \<open>Kinds, statuses and phases\<close>

definition OpRamp :: string where "OpRamp = ''ramp''"

definition OpMigrate :: string where "OpMigrate = ''migrate''"

definition OpMover :: string where "OpMover = ''mover''"

definition OpCutover :: string where "OpCutover = ''cutover''"

definition OpPurge :: string where "OpPurge = ''purge-source''"

definition OpClusterReadOnly :: string where "OpClusterReadOnly = ''cluster-read-only''"

definition OpPlacementReadOnly :: string where "OpPlacementReadOnly = ''placement-read-only''"

definition OpControlJoin :: string where "OpControlJoin = ''control-join''"

definition OpControlRemove :: string where "OpControlRemove = ''control-remove''"

lemmas op_kinds = OpRamp_def OpMigrate_def OpMover_def OpCutover_def OpPurge_def OpClusterReadOnly_def
  OpPlacementReadOnly_def OpControlJoin_def OpControlRemove_def

definition StatusPending :: string where "StatusPending = ''pending''"

definition StatusRunning :: string where "StatusRunning = ''running''"

definition StatusBlocked :: string where "StatusBlocked = ''blocked''"

definition StatusSucceeded :: string where "StatusSucceeded = ''succeeded''"

definition StatusFailed :: string where "StatusFailed = ''failed''"

definition StatusCancelled :: string where "StatusCancelled = ''cancelled''"

lemmas op_statuses = StatusPending_def StatusRunning_def StatusBlocked_def StatusSucceeded_def StatusFailed_def StatusCancelled_def

definition EffectNone :: string where "EffectNone = ''none''"

definition EffectCommitted :: string where "EffectCommitted = ''committed''"

definition EffectUncertain :: string where "EffectUncertain = ''uncertain''"

definition PhaseQueued :: string where "PhaseQueued = ''queued''"

definition PhasePrecondition :: string where "PhasePrecondition = ''precondition''"

definition PhaseHold :: string where "PhaseHold = ''hold''"

definition PhaseDrain :: string where "PhaseDrain = ''drain''"

definition PhaseCommit :: string where "PhaseCommit = ''commit''"

definition PhaseWindow :: string where "PhaseWindow = ''window''"

definition PhaseDiff :: string where "PhaseDiff = ''diff''"

definition PhaseDone :: string where "PhaseDone = ''done''"

definition ActionResume :: string where "ActionResume = ''resume''"

definition ActionCancel :: string where "ActionCancel = ''cancel''"

definition CodeNotCancellable :: string where "CodeNotCancellable = ''not_cancellable''"

subsection \<open>Records\<close>

record blocker =
  bkCode :: string
  bkProxyID :: string
  bkIncarnation :: string
  bkCount :: int
  bkMessage :: message

definition BlockerOldRequests :: string where "BlockerOldRequests = ''old_requests''"

definition BlockerBackendOutcomeUnknown :: string where "BlockerBackendOutcomeUnknown = ''backend_outcome_unknown''"

definition BlockerProxyMissing :: string where "BlockerProxyMissing = ''proxy_missing''"

definition BlockerInstallPending :: string where "BlockerInstallPending = ''install_pending''"

definition BlockerIncarnationUnresolved :: string where "BlockerIncarnationUnresolved = ''incarnation_unresolved''"

definition BlockerCacheNotDurable :: string where "BlockerCacheNotDurable = ''cache_not_durable''"

definition BlockerOwnerLost :: string where "BlockerOwnerLost = ''owner_lost''"

record barrier_state =
  bsID :: string
  bsScope :: string
  bsKind :: string
  bsHoldVersion :: int
  bsGeneration :: int
  bsCommitted :: bool
  bsCommitVersion :: int
  bsDispatchStarted :: bool
  bsHeldAt :: int
  bsDrainedAt :: int
  bsCommittedAt :: int
  bsPrior :: "(bool \<times> bool) option"

record op_scope =
  scResource :: string
  scGeneration :: int
  scClusters :: "string list"

record mover_args =
  maExternal :: bool
  maSession :: string

record worker_session =
  wsID :: string
  wsIdentity :: identity
  wsGeneration :: int
  wsSequence :: int
  wsState :: string
  wsInflight :: int
  wsUncertain :: int
  wsLastSeen :: int
  wsCompletedAt :: int
  wsError :: string
  wsResolvedBy :: string
  wsAttestation :: string

record operation =
  opID :: string
  opKind :: string
  opPlacement :: string
  opCluster :: string
  opActor :: string
  opNode :: string
  opIdentity :: identity
  opScope :: "op_scope option"
  opRequestID :: string
  opIntentDigest :: string
  opSequence :: int
  opOwnerTerm :: int
  opCreated :: int
  opUpdated :: int
  opStatus :: string
  opEffectState :: string
  opAllowedActions :: "string list"
  opBlockers :: "blocker list"
  opBlockerCount :: nat
  opBarrier :: "barrier_state option"
  opWorker :: "worker_session option"
  opCancelRequest :: "(string \<times> int) option"
  opPhase :: string
  opWaitingOn :: "string list"
  opVersion :: int
  opMover :: "mover_args option"
  opError :: "(string \<times> message) option"

datatype op_error =
    OperationExists string
  | IdempotentReplay operation
  | IdempotencyConflict string
  | CapacityError int
  | LineageError lineage_error
  | GenerationError string int int
  | ScopeBusy string string string
  | UnknownOperation string
  | StaleSequence string int int
  | NilRecord string
  | NotCancellable message
  | Refused message

subsection \<open>Scopes\<close>

definition Terminal :: "operation \<Rightarrow> bool" where
  "Terminal op \<longleftrightarrow> opStatus op = StatusSucceeded \<or> opStatus op = StatusFailed \<or> opStatus op = StatusCancelled"

definition IdempotencyRetention :: int where "IdempotencyRetention = 7 * 24 * 3600 * 1000000000"

definition DefaultCapacity :: int where "DefaultCapacity = 256"

definition defaultOperationLimit :: int where "defaultOperationLimit = 1000"

definition Prunable :: "int \<Rightarrow> operation \<Rightarrow> bool" where
  "Prunable now op \<longleftrightarrow>
     Terminal op \<and> opEffectState op \<noteq> EffectUncertain \<and>
     (opRequestID op = '''' \<or> IdempotencyRetention \<le> now - opUpdated op)"

definition scopeCluster :: "op_scope \<Rightarrow> string option" where
  "scopeCluster sc = cutPrefix (scResource sc) ''cluster:''"

definition touches :: "op_scope \<Rightarrow> string \<Rightarrow> bool" where
  "touches sc cl \<longleftrightarrow> scopeCluster sc = None \<and> cl \<in> set (scClusters sc)"

definition conflictWith :: "op_scope \<Rightarrow> operation \<Rightarrow> op_error option" where
  "conflictWith sc x =
     (case opScope x of
        None \<Rightarrow> None
      | Some sx \<Rightarrow>
          if Terminal x then None
          else if scResource sx = scResource sc then Some (ScopeBusy (scResource sc) (opID x) '''')
          else (case scopeCluster sc of
                  Some cl \<Rightarrow> if touches sx cl then Some (ScopeBusy (scResource sc) (opID x) (scResource sx)) else None
                | None \<Rightarrow> (case scopeCluster sx of
                             Some xcl \<Rightarrow> if xcl \<in> set (scClusters sc) then Some (ScopeBusy (scResource sc) (opID x) (scResource sx)) else None
                           | None \<Rightarrow> None)))"

definition conflict :: "op_scope \<Rightarrow> operation list \<Rightarrow> op_error option" where
  "conflict sc live = firstSome (conflictWith sc) live"

definition checkScope :: "dir_file \<Rightarrow> operation \<Rightarrow> op_error option" where
  "checkScope f op =
     (if \<not> IsZero (opIdentity op) \<and> opIdentity op \<noteq> fIdentity f then map_option LineageError (checkLineage f (opIdentity op) 0)
      else case opScope op of
             None \<Rightarrow> None
           | Some sc \<Rightarrow> if Generation f (scResource sc) \<noteq> scGeneration sc
                        then Some (GenerationError (scResource sc) (scGeneration sc) (Generation f (scResource sc)))
                        else None)"

definition IdempotencyIndex :: "operation \<Rightarrow> string" where
  "IdempotencyIndex op =
     hexEncode (sha256 (''shunt-idempotency-v1'' @ CHR 0x00 # idEpoch (opIdentity op) @ CHR 0x00 # opActor op @ CHR 0x00 # opRequestID op))"

definition replay :: "operation \<Rightarrow> operation \<Rightarrow> op_error" where
  "replay op existing =
     (if opIntentDigest existing \<noteq> opIntentDigest op then IdempotencyConflict (opID existing) else IdempotentReplay existing)"

subsection \<open>The store\<close>

record mem_operations =
  moLimit :: int
  moCapacity :: int
  moNode :: string
  moOrder :: "string list"
  moByID :: "(string, operation) fmap"
  moIdem :: "(string, string) fmap"

definition OwnerLive :: "mem_operations \<Rightarrow> string \<Rightarrow> bool" where
  "OwnerLive m node \<longleftrightarrow> node = (if moNode m = '''' then ''lab'' else moNode m)"

definition Get :: "mem_operations \<Rightarrow> string \<Rightarrow> operation option" where
  "Get m i = fmlookup (moByID m) i"

fun listFrom :: "mem_operations \<Rightarrow> string \<Rightarrow> string \<Rightarrow> nat \<Rightarrow> string list \<Rightarrow> operation list" where
  "listFrom m pl cl 0 ids = []"
| "listFrom m pl cl n [] = []"
| "listFrom m pl cl (Suc n) (i # ids) =
     (case fmlookup (moByID m) i of
        None \<Rightarrow> listFrom m pl cl (Suc n) ids
      | Some op \<Rightarrow> if (pl = '''' \<or> opPlacement op = pl) \<and> (cl = '''' \<or> opCluster op = cl)
                   then op # listFrom m pl cl n ids else listFrom m pl cl (Suc n) ids)"

definition List_op :: "mem_operations \<Rightarrow> string \<Rightarrow> string \<Rightarrow> nat \<Rightarrow> operation list" where
  "List_op m pl cl limit = listFrom m pl cl limit (rev (moOrder m))"

definition isEvidence :: "operation \<Rightarrow> bool" where
  "isEvidence op \<longleftrightarrow> \<not> Terminal op \<or> opEffectState op = EffectUncertain"

definition Evidence :: "mem_operations \<Rightarrow> operation list" where
  "Evidence m = filter isEvidence (List.map_filter (fmlookup (moByID m)) (rev (moOrder m)))"


fun trimFrom :: "int \<Rightarrow> int \<Rightarrow> string list \<Rightarrow> string list \<Rightarrow> mem_operations \<Rightarrow> mem_operations" where
  "trimFrom now limit kept [] m = m\<lparr>moOrder := kept\<rparr>"
| "trimFrom now limit kept (i # ids) m =
     (if int (length kept + length (i # ids)) \<le> limit then m\<lparr>moOrder := kept @ i # ids\<rparr>
      else case fmlookup (moByID m) i of
             Some op \<Rightarrow> if Prunable now op
                        then trimFrom now limit kept ids
                               (m\<lparr>moIdem := (if opRequestID op \<noteq> '''' then fmdrop (IdempotencyIndex op) (moIdem m) else moIdem m),
                                  moByID := fmdrop i (moByID m)\<rparr>)
                        else trimFrom now limit (kept @ [i]) ids m
           | None \<Rightarrow> trimFrom now limit (kept @ [i]) ids m)"

definition orDefault :: "int \<Rightarrow> int \<Rightarrow> int" where
  "orDefault d n = (if n \<le> 0 then d else n)"

definition trim :: "int \<Rightarrow> mem_operations \<Rightarrow> mem_operations" where
  "trim now m = trimFrom now (orDefault defaultOperationLimit (moLimit m)) [] (moOrder m) m"

definition records :: "string list \<Rightarrow> mem_operations \<Rightarrow> operation list" where
  "records ks m = List.map_filter (fmlookup (moByID m)) ks"

definition unfinished :: "string list \<Rightarrow> mem_operations \<Rightarrow> int" where
  "unfinished ks m = int (length (filter (\<lambda>x. \<not> Terminal x) (records ks m)))"

definition createRefuses :: "string list \<Rightarrow> dir_file option \<Rightarrow> operation \<Rightarrow> mem_operations \<Rightarrow> op_error option" where
  "createRefuses ks dir op m =
     (if hasKey (moByID m) (opID op) then Some (OperationExists (opID op))
      else case (if opRequestID op \<noteq> '''' then fmlookup (moIdem m) (IdempotencyIndex op) else None) of
        Some i \<Rightarrow> Some (case fmlookup (moByID m) i of None \<Rightarrow> NilRecord i | Some existing \<Rightarrow> replay op existing)
      | None \<Rightarrow>
          (case opScope op of
             None \<Rightarrow> None
           | Some sc \<Rightarrow>
               if orDefault DefaultCapacity (moCapacity m) \<le> unfinished ks m
               then Some (CapacityError (orDefault DefaultCapacity (moCapacity m)))
               else case (case dir of None \<Rightarrow> None | Some f \<Rightarrow> checkScope f op) of
                 Some e \<Rightarrow> Some e
               | None \<Rightarrow> conflict sc (records ks m)))"

definition insertRecord :: "operation \<Rightarrow> mem_operations \<Rightarrow> mem_operations" where
  "insertRecord op m =
     m\<lparr>moOrder := moOrder m @ [opID op], moByID := fmupd (opID op) op (moByID m),
       moIdem := (if opRequestID op \<noteq> '''' then fmupd (IdempotencyIndex op) (opID op) (moIdem m) else moIdem m)\<rparr>"

definition Create_op :: "int \<Rightarrow> string list \<Rightarrow> dir_file option \<Rightarrow> operation \<Rightarrow> mem_operations \<Rightarrow> op_error + mem_operations" where
  "Create_op now ks dir op m =
     (case createRefuses ks dir op m of
        Some e \<Rightarrow> Inl e
      | None \<Rightarrow> Inr (trim now (insertRecord op m)))"

definition Update :: "int \<Rightarrow> operation \<Rightarrow> mem_operations \<Rightarrow> op_error + mem_operations" where
  "Update now op m =
     (case fmlookup (moByID m) (opID op) of
        None \<Rightarrow> Inl (UnknownOperation (opID op))
      | Some cur \<Rightarrow>
          if opSequence cur \<noteq> opSequence op - 1
          then Inl (StaleSequence (opID op) (opSequence cur) (opSequence op - 1))
          else Inr (trim now (m\<lparr>moByID := fmupd (opID op) op (moByID m)\<rparr>)))"

subsection \<open>What is on the records of lost owners, and cancellation\<close>

definition resumable :: "string \<Rightarrow> bool" where
  "resumable kind \<longleftrightarrow> kind \<in> {OpRamp, OpMigrate, OpPlacementReadOnly, OpClusterReadOnly, OpCutover, OpPurge}"

definition carriesOn :: "operation \<Rightarrow> bool" where
  "carriesOn op \<longleftrightarrow> (resumable (opKind op) \<and> opBarrier op \<noteq> None) \<or> opKind op = OpControlJoin \<or> opKind op = OpControlRemove"

definition cancelPhases :: "string list" where
  "cancelPhases = ['''', PhaseQueued, PhasePrecondition, PhaseDiff]"

definition notCancellable :: "operation \<Rightarrow> bool \<Rightarrow> op_error option" where
  "notCancellable op ownerGone =
     (if opKind op = OpControlJoin then None
      else if opKind op = OpControlRemove
      then Some (NotCancellable (''operation %s removes a control-plane member; a removal is sent at once and cannot be taken back: to keep the node, join it again'', [AStr (opID op)]))
      else if opKind op = OpMover
      then Some (NotCancellable (''operation %s is a mover: it ends with its worker, and an expired worker session is resolved with `shunt operation resolve-worker %s --session <id> --attest <why>`'', [AStr (opID op), AStr (opID op)]))
      else if \<not> resumable (opKind op)
      then Some (NotCancellable (''operation %s (%s) has no drain barrier that can be safely canceled'', [AStr (opID op), AStr (opKind op)]))
      else case opBarrier op of
        None \<Rightarrow> if opPhase op \<in> set cancelPhases then None
                else Some (NotCancellable (''operation %s is writing its change (phase %s)'', [AStr (opID op), AStr (opPhase op)]))
      | Some b \<Rightarrow>
          if bsCommitted b
          then Some (NotCancellable (''operation %s committed its change at directory version %d; it settles, and a further change is a new operation'', [AStr (opID op), AInt (bsCommitVersion b)]))
          else if bsDispatchStarted b
          then Some (NotCancellable (''operation %s has started destructive backend work; it must be resumed to completion'', [AStr (opID op)]))
          else if bsHoldVersion b = 0 \<and> \<not> ownerGone
          then Some (Refused (''operation %s is still writing its hold; retry cancellation once the record shows hold_version'', [AStr (opID op)]))
          else if opPhase op = PhaseCommit \<and> \<not> ownerGone
          then Some (NotCancellable (''operation %s is writing its commit; it settles, and a further change is a new operation'', [AStr (opID op)]))
          else None)"

definition beforeFirstWrite :: "operation \<Rightarrow> bool" where
  "beforeFirstWrite op \<longleftrightarrow> opBarrier op = None \<and> opPhase op \<in> {PhaseQueued, PhasePrecondition, PhaseWindow, PhaseDiff}"

definition orphan :: "operation \<Rightarrow> int \<Rightarrow> message \<Rightarrow> operation" where
  "orphan op now why =
     (let op = op\<lparr>opSequence := opSequence op + 1, opUpdated := now\<rparr> in
      if carriesOn op
      then let op = op\<lparr>opStatus := StatusBlocked,
                       opBlockers := [\<lparr>bkCode = BlockerOwnerLost, bkProxyID = '''', bkIncarnation = '''', bkCount = 0, bkMessage = why\<rparr>],
                       opBlockerCount := 1\<rparr>
           in op\<lparr>opAllowedActions := (if notCancellable op True = None then [ActionResume, ActionCancel] else [ActionResume])\<rparr>
      else op\<lparr>opEffectState :=
                (if opEffectState op = EffectNone \<or> opEffectState op = ''''
                 then (if opStatus op = StatusPending \<or> beforeFirstWrite op then EffectNone else EffectUncertain)
                 else opEffectState op),
              opStatus := StatusFailed, opPhase := PhaseDone, opBlockers := [], opBlockerCount := 0, opAllowedActions := [],
              opError := Some (''unavailable'', why)\<rparr>)"

definition cancelWrite :: "string \<Rightarrow> operation \<Rightarrow> operation" where
  "cancelWrite actor op =
     op\<lparr>opStatus := StatusCancelled, opPhase := PhaseDone, opBlockers := [], opBlockerCount := 0, opAllowedActions := [],
        opEffectState := EffectNone,
        opError := Some (StatusCancelled, (''canceled by %s before the change was committed; the routing is as it was before the operation'', [AStr actor]))\<rparr>"

definition takenOver :: "string \<Rightarrow> operation \<Rightarrow> message" where
  "takenOver fmt cur = (fmt, [AStr (opID cur), AStr (opNode cur), AInt (opOwnerTerm cur)])"

definition cancelEnd :: "string \<Rightarrow> string \<Rightarrow> int \<Rightarrow> bool \<Rightarrow> operation \<Rightarrow> op_error + operation" where
  "cancelEnd actor fromNode fromTerm ownerGone cur =
     (if opNode cur \<noteq> fromNode \<or> opOwnerTerm cur \<noteq> fromTerm then Inl (Refused (takenOver ''operation %s was taken over by control node %s at owner term %d; retry the cancellation'' cur))
      else case notCancellable cur ownerGone of
             Some e \<Rightarrow> Inl e
           | None \<Rightarrow> Inr (cancelWrite actor cur))"

definition resumeEnd :: "string \<Rightarrow> string \<Rightarrow> int \<Rightarrow> operation \<Rightarrow> op_error + operation" where
  "resumeEnd node fromNode fromTerm cur =
     (if opNode cur \<noteq> fromNode \<or> opOwnerTerm cur \<noteq> fromTerm then Inl (Refused (takenOver ''operation %s was taken over by control node %s at owner term %d; follow that owner'' cur))
      else Inr (cur\<lparr>opNode := node, opOwnerTerm := opOwnerTerm cur + 1, opStatus := StatusRunning, opBlockers := [], opBlockerCount := 0,
             opAllowedActions := (case opBarrier cur of
                 Some b \<Rightarrow> if 0 < bsHoldVersion b \<and> \<not> bsCommitted b then [ActionCancel] else []
               | None \<Rightarrow> [])\<rparr>))"

definition resumeOwnEnd :: "string \<Rightarrow> int \<Rightarrow> operation \<Rightarrow> op_error + operation" where
  "resumeOwnEnd fromNode fromTerm cur =
     (if opNode cur \<noteq> fromNode \<or> opOwnerTerm cur \<noteq> fromTerm then Inl (Refused (takenOver ''operation %s was already resumed by control node %s at owner term %d'' cur))
      else Inr (cur\<lparr>opOwnerTerm := opOwnerTerm cur + 1, opStatus := StatusRunning, opBlockers := [], opBlockerCount := 0\<rparr>))"

text \<open>
  \<^verbatim>\<open>updateRecord\<close> reads the record, leaves an ended one as it is, and otherwise writes what \<^verbatim>\<open>end\<close> makes of it; the
  answer says whether its write landed.
\<close>

definition updateRecord :: "int \<Rightarrow> string \<Rightarrow> (operation \<Rightarrow> op_error + operation) \<Rightarrow> mem_operations
    \<Rightarrow> op_error + (mem_operations \<times> operation \<times> bool)" where
  "updateRecord now i endf m =
     (case Get m i of
        None \<Rightarrow> Inl (UnknownOperation i)
      | Some op \<Rightarrow>
          if Terminal op then Inr (m, op, False)
          else case endf op of
            Inl e \<Rightarrow> Inl e
          | Inr op1 \<Rightarrow>
              (let op2 = op1\<lparr>opSequence := opSequence op1 + 1, opUpdated := now\<rparr> in
               case Update now op2 m of Inl e \<Rightarrow> Inl e | Inr m' \<Rightarrow> Inr (m', op2, True)))"

definition correctCommitted :: "int \<Rightarrow> string \<Rightarrow> string \<Rightarrow> mem_operations \<Rightarrow> op_error + (mem_operations \<times> operation)" where
  "correctCommitted now i actor m =
     (case Get m i of
        None \<Rightarrow> Inl (UnknownOperation i)
      | Some op \<Rightarrow>
          (let op' = op\<lparr>opBarrier := map_option (bsCommitted_update (\<lambda>_. True)) (opBarrier op), opStatus := StatusFailed,
                 opEffectState := EffectCommitted,
                 opError := Some (CodeNotCancellable, (''the change was committed before %s's cancellation reached it and is in force; a further change is a new operation'', [AStr actor])),
                 opSequence := opSequence op + 1, opUpdated := now\<rparr>
           in case Update now op' m of Inl e \<Rightarrow> Inl e | Inr m' \<Rightarrow> Inr (m', op')))"

subsection \<open>The owner of a record\<close>

record tracker =
  trOp :: operation
  trLost :: bool
  trStartVersion :: int

definition beginOp :: "int \<Rightarrow> string \<Rightarrow> string \<Rightarrow> string \<Rightarrow> dir_file \<Rightarrow> operation \<Rightarrow> operation" where
  "beginOp now i actor node f op =
     op\<lparr>opID := i, opActor := actor, opNode := node, opIdentity := fIdentity f, opCreated := now, opUpdated := now,
        opStatus := StatusPending, opPhase := PhaseQueued, opSequence := 1, opEffectState := EffectNone, opAllowedActions := []\<rparr>"

definition beginTracker :: "int \<Rightarrow> string \<Rightarrow> string \<Rightarrow> string \<Rightarrow> dir_file \<Rightarrow> string list \<Rightarrow> dir_file option \<Rightarrow> operation \<Rightarrow> mem_operations
    \<Rightarrow> op_error + (mem_operations \<times> tracker)" where
  "beginTracker now i actor node f ks dir op m =
     (let op' = beginOp now i actor node f op in
      case Create_op now ks dir op' m of
        Inl e \<Rightarrow> Inl e
      | Inr m' \<Rightarrow> Inr (m', \<lparr>trOp = op', trLost = False, trStartVersion = fVersion f\<rparr>))"

text \<open>
  \<^verbatim>\<open>put\<close> writes the owner's copy over the sequence it holds. When another writer's worker session or cancellation
  request landed in between, it takes these from the stored record and writes over the new sequence; an ended
  record, or another owner or term, is a takeover, and the tracker is lost.
\<close>

definition mergeStored :: "operation \<Rightarrow> operation \<Rightarrow> operation" where
  "mergeStored sop op =
     op\<lparr>opWorker := opWorker sop,
        opCancelRequest := (case opCancelRequest sop of None \<Rightarrow> opCancelRequest op | Some r \<Rightarrow> Some r),
        opAllowedActions := (case opCancelRequest sop of None \<Rightarrow> opAllowedActions op | Some r \<Rightarrow> []),
        opSequence := opSequence sop + 1\<rparr>"

definition put :: "int \<Rightarrow> mem_operations \<times> tracker \<Rightarrow> mem_operations \<times> tracker" where
  "put now mt =
     (let (m, tr) = mt in
      if trLost tr then (m, tr)
      else let op = (trOp tr)\<lparr>opUpdated := now, opSequence := opSequence (trOp tr) + 1\<rparr> in
        case Update now op m of
          Inr m' \<Rightarrow> (m', tr\<lparr>trOp := op\<rparr>)
        | Inl (StaleSequence _ _ _) \<Rightarrow>
            (case Get m (opID op) of
               None \<Rightarrow> (m, tr\<lparr>trOp := op, trLost := True\<rparr>)
             | Some sop \<Rightarrow>
                 if opNode sop \<noteq> opNode op \<or> opOwnerTerm sop \<noteq> opOwnerTerm op \<or> Terminal sop
                 then (m, tr\<lparr>trOp := op, trLost := True\<rparr>)
                 else case Update now (mergeStored sop op) m of
                        Inr m' \<Rightarrow> (m', tr\<lparr>trOp := mergeStored sop op\<rparr>)
                      | Inl _ \<Rightarrow> (m, tr\<lparr>trOp := mergeStored sop op, trLost := True\<rparr>))
        | Inl _ \<Rightarrow> (m, tr\<lparr>trOp := op\<lparr>opSequence := opSequence op - 1\<rparr>\<rparr>))"

datatype ending = Succeeded int | Failed string message | Canceled message | Lost

definition check :: "mem_operations \<Rightarrow> tracker \<Rightarrow> ending option" where
  "check m tr =
     (if \<not> trLost tr then None
      else Some (case Get m (opID (trOp tr)) of
                   None \<Rightarrow> Lost
                 | Some op \<Rightarrow> if opStatus op = StatusCancelled
                              then Canceled (''the operation was canceled before its change was committed'', []) else Lost))"

definition refresh :: "mem_operations \<Rightarrow> tracker \<Rightarrow> tracker" where
  "refresh m tr =
     (if trLost tr \<or> opID (trOp tr) = '''' then tr
      else case Get m (opID (trOp tr)) of
             None \<Rightarrow> tr
           | Some op \<Rightarrow> if Terminal op \<or> opNode op \<noteq> opNode (trOp tr) \<or> opOwnerTerm op \<noteq> opOwnerTerm (trOp tr)
                        then tr\<lparr>trLost := True\<rparr> else tr)"

definition onOp :: "(operation \<Rightarrow> operation) \<Rightarrow> mem_operations \<times> tracker \<Rightarrow> mem_operations \<times> tracker" where
  "onOp g mt = (fst mt, (snd mt)\<lparr>trOp := g (trOp (snd mt))\<rparr>)"

definition setBarrier :: "int \<Rightarrow> barrier_state \<Rightarrow> string list \<Rightarrow> mem_operations \<times> tracker \<Rightarrow> mem_operations \<times> tracker" where
  "setBarrier now st actions mt = put now (onOp (\<lambda>op. op\<lparr>opBarrier := Some st, opAllowedActions := actions\<rparr>) mt)"

definition blocked :: "int \<Rightarrow> blocker list \<Rightarrow> mem_operations \<times> tracker \<Rightarrow> mem_operations \<times> tracker" where
  "blocked now bs mt =
     (let op = trOp (snd mt); status = (if bs \<noteq> [] then StatusBlocked else StatusRunning) in
      if opStatus op = status \<and> opBlockers op = bs then mt
      else put now (onOp (\<lambda>op. op\<lparr>opStatus := status, opBlockers := bs, opBlockerCount := length bs\<rparr>) mt))"

definition allow :: "int \<Rightarrow> string list \<Rightarrow> mem_operations \<times> tracker \<Rightarrow> mem_operations \<times> tracker" where
  "allow now actions mt =
     (if opAllowedActions (trOp (snd mt)) = actions then mt else put now (onOp (opAllowedActions_update (\<lambda>_. actions)) mt))"

definition phase :: "int \<Rightarrow> string \<Rightarrow> mem_operations \<times> tracker \<Rightarrow> mem_operations \<times> tracker" where
  "phase now p mt = (if opPhase (trOp (snd mt)) = p then mt else put now (onOp (opPhase_update (\<lambda>_. p)) mt))"

definition waiting :: "int \<Rightarrow> string list \<Rightarrow> mem_operations \<times> tracker \<Rightarrow> mem_operations \<times> tracker" where
  "waiting now ids mt = (if opWaitingOn (trOp (snd mt)) = ids then mt else put now (onOp (opWaitingOn_update (\<lambda>_. ids)) mt))"

definition running :: "int \<Rightarrow> mem_operations \<times> tracker \<Rightarrow> mem_operations \<times> tracker" where
  "running now mt = put now (onOp (opStatus_update (\<lambda>_. StatusRunning)) mt)"

definition settleEffect :: "int \<Rightarrow> int \<Rightarrow> operation \<Rightarrow> operation" where
  "settleEffect dirVersion startVersion op =
     (if opStatus op = StatusCancelled \<and> (case opBarrier op of None \<Rightarrow> True | Some b \<Rightarrow> \<not> bsCommitted b)
      then op\<lparr>opEffectState := EffectNone\<rparr>
      else if opEffectState op = EffectNone \<and> (0 < opVersion op \<or> startVersion < dirVersion)
      then op\<lparr>opEffectState := EffectCommitted\<rparr>
      else op)"

definition finishOp :: "ending \<Rightarrow> operation \<Rightarrow> operation" where
  "finishOp e op =
     (let op = op\<lparr>opPhase := PhaseDone, opBlockers := [], opBlockerCount := 0, opAllowedActions := []\<rparr> in
      case e of
        Canceled msg \<Rightarrow> op\<lparr>opStatus := StatusCancelled, opError := Some (StatusCancelled, msg)\<rparr>
      | Lost \<Rightarrow> op
      | Failed code msg \<Rightarrow> op\<lparr>opStatus := StatusFailed, opError := Some (code, msg)\<rparr>
      | Succeeded v \<Rightarrow> op\<lparr>opStatus := StatusSucceeded, opVersion := v\<rparr>)"

definition finish :: "int \<Rightarrow> int \<Rightarrow> ending \<Rightarrow> mem_operations \<times> tracker \<Rightarrow> mem_operations \<times> tracker" where
  "finish now dirVersion e mt =
     (if e = Lost then onOp (finishOp e) mt
      else put now (onOp (settleEffect dirVersion (trStartVersion (snd mt)) \<circ> finishOp e) mt))"

subsection \<open>Worker sessions\<close>

definition WorkerActive :: string where "WorkerActive = ''active''"

definition WorkerCompleted :: string where "WorkerCompleted = ''completed''"

definition WorkerUnresolved :: string where "WorkerUnresolved = ''unresolved''"

definition maxWorkerCount :: int where "maxWorkerCount = 2 ^ 30"

definition maxWorkerError :: nat where "maxWorkerError = 4096"

definition maxWorkerAttestation :: nat where "maxWorkerAttestation = 4096"

record worker_heartbeat =
  whSession :: string
  whIdentity :: identity
  whGeneration :: int
  whSequence :: int
  whInflight :: int
  whUncertain :: int
  whComplete :: bool
  whError :: string
  whResolve :: bool
  whAttestation :: string

definition workerHeartbeatRefuses :: "worker_heartbeat \<Rightarrow> message option" where
  "workerHeartbeatRefuses req = refuse
     [(\<not> ValidIncarnation (whSession req) \<or> whSequence req \<le> 0 \<or> whGeneration req \<le> 0 \<or> whInflight req < 0 \<or> whUncertain req < 0 \<or>
         maxWorkerCount < whInflight req \<or> maxWorkerCount < whUncertain req,
        (''invalid worker heartbeat: session, generation and sequence must be positive and counts between 0 and %d'', [AInt maxWorkerCount])),
      (maxWorkerError < length (whError req) \<or> maxWorkerAttestation < length (whAttestation req),
        (''invalid worker heartbeat: error and attestation are limited to %d bytes'', [ANat maxWorkerError])),
      (whComplete req \<and> (whInflight req \<noteq> 0 \<or> whUncertain req \<noteq> 0),
        (''a completed worker session must report zero in-flight and uncertain effects'', [])),
      (whResolve req \<and> whAttestation req = '''', (''resolving an expired worker session requires an attestation'', []))]"

definition workerState :: "worker_heartbeat \<Rightarrow> string" where
  "workerState req = (if whComplete req then WorkerCompleted else WorkerActive)"

definition sameWorker :: "worker_session \<Rightarrow> worker_heartbeat \<Rightarrow> string \<Rightarrow> bool" where
  "sameWorker cur req actor \<longleftrightarrow>
     wsID cur = whSession req \<and> wsIdentity cur = whIdentity req \<and> wsGeneration cur = whGeneration req \<and>
     wsState cur = workerState req \<and> wsInflight cur = whInflight req \<and> wsUncertain cur = whUncertain req \<and> wsError cur = whError req \<and>
     ((\<not> whResolve req \<and> wsResolvedBy cur = '''' \<and> wsAttestation cur = '''') \<or>
      (whResolve req \<and> wsResolvedBy cur = actor \<and> wsAttestation cur = whAttestation req))"

definition newWorker :: "int \<Rightarrow> worker_heartbeat \<Rightarrow> string \<Rightarrow> worker_session" where
  "newWorker now req actor =
     \<lparr>wsID = whSession req, wsIdentity = whIdentity req, wsGeneration = whGeneration req, wsSequence = whSequence req,
      wsState = workerState req, wsInflight = whInflight req, wsUncertain = whUncertain req, wsLastSeen = now,
      wsCompletedAt = (if whComplete req then now else 0), wsError = whError req,
      wsResolvedBy = (if whResolve req then actor else ''''), wsAttestation = (if whResolve req then whAttestation req else '''')\<rparr>"

text \<open>The answer is the session the record has afterwards and whether it differs from the stored one.\<close>

definition nextWorker :: "int \<Rightarrow> int \<Rightarrow> operation \<Rightarrow> worker_heartbeat \<Rightarrow> string \<Rightarrow> op_error + (worker_session \<times> bool)" where
  "nextWorker now ttl op req actor =
     (if opKind op \<noteq> OpMover \<or> opScope op = None then Inl (Refused (''operation %s is not a mover operation'', [AStr (opID op)]))
      else if (case opMover op of None \<Rightarrow> True | Some a \<Rightarrow> \<not> maExternal a \<or> maSession a \<noteq> whSession req)
      then Inl (Refused (''operation %s is not enrolled for worker session %s'', [AStr (opID op), AStr (whSession req)]))
      else if whIdentity req \<noteq> opIdentity op \<or> whGeneration req \<noteq> scGeneration (the (opScope op))
      then Inl (Refused (''worker session %s is for another directory lineage or placement generation'', [AStr (whSession req)]))
      else case opWorker op of
        None \<Rightarrow> if Terminal op
                then Inl (Refused (''operation %s has ended %s; worker session %s writes nothing more to it'', [AStr (opID op), AStr (opStatus op), AStr (whSession req)]))
                else Inr (newWorker now req actor, True)
      | Some cur \<Rightarrow>
          if whSequence req = wsSequence cur \<and> sameWorker cur req actor \<and> wsState cur = WorkerCompleted then Inr (cur, False)
          else if Terminal op
          then Inl (Refused (''operation %s has ended %s; worker session %s writes nothing more to it'', [AStr (opID op), AStr (opStatus op), AStr (whSession req)]))
          else if wsState cur = WorkerCompleted
          then Inl (Refused (''worker session %s has completed%s; its operation ends with it'', [AStr (wsID cur), AStr (if wsResolvedBy cur = '''' then '''' else '', resolved by '' @ wsResolvedBy cur)]))
          else if (wsState cur = WorkerUnresolved \<or> (wsState cur = WorkerActive \<and> ttl < now - wsLastSeen cur)) \<and> \<not> whResolve req
          then Inl (Refused (''worker session %s expired with work unresolved; reconcile it with resolve and an attestation'', [AStr (whSession req)]))
          else if whSequence req < wsSequence cur
          then Inl (Refused (''worker session %s heartbeat sequence %d is behind %d'', [AStr (whSession req), AInt (whSequence req), AInt (wsSequence cur)]))
          else if whSequence req = wsSequence cur
          then (if sameWorker cur req actor then Inr (cur, False)
                else Inl (Refused (''worker session %s heartbeat sequence %d was already used with different state'', [AStr (whSession req), AInt (whSequence req)])))
          else Inr (newWorker now req actor, True))"

definition applyWorker :: "int \<Rightarrow> int \<Rightarrow> string \<Rightarrow> worker_heartbeat \<Rightarrow> string \<Rightarrow> mem_operations \<Rightarrow> op_error + (mem_operations \<times> worker_session)" where
  "applyWorker now ttl i req actor m =
     (case Get m i of
        None \<Rightarrow> Inl (UnknownOperation i)
      | Some op \<Rightarrow>
          (case nextWorker now ttl op req actor of
             Inl e \<Rightarrow> Inl e
           | Inr (w, changed) \<Rightarrow>
               if \<not> changed then Inr (m, w)
               else case Update now (op\<lparr>opWorker := Some w, opSequence := opSequence op + 1, opUpdated := now\<rparr>) m of
                      Inl e \<Rightarrow> Inl e
                    | Inr m' \<Rightarrow> Inr (m', w)))"

definition workerResolvable :: "int \<Rightarrow> int \<Rightarrow> operation \<Rightarrow> message option" where
  "workerResolvable now ttl op =
     (if opKind op \<noteq> OpMover \<or> (case opMover op of None \<Rightarrow> True | Some a \<Rightarrow> \<not> maExternal a)
      then Some (''operation %s is not an external mover; only an external mover's worker session is resolved'', [AStr (opID op)])
      else if Terminal op then Some (''operation %s has ended %s'', [AStr (opID op), AStr (opStatus op)])
      else case opWorker op of
        None \<Rightarrow> if now - opCreated op \<le> ttl
                then Some (''operation %s's worker session has not enrolled yet; wait %s for it'', [AStr (opID op), AInt ttl]) else None
      | Some w \<Rightarrow>
          if wsState w = WorkerCompleted then Some (''worker session %s has completed; its operation ends with it'', [AStr (wsID w)])
          else if wsState w = WorkerActive \<and> now - wsLastSeen w \<le> ttl
          then Some (''worker session %s is live (last heartbeat %s ago); it ends itself, or stop it and resolve it once it has expired'', [AStr (wsID w), AInt (now - wsLastSeen w)])
          else None)"

definition resolveEnd :: "operation \<Rightarrow> op_error + operation" where
  "resolveEnd op =
     (case opWorker op of
        Some w \<Rightarrow>
          if wsState w = WorkerCompleted
          then Inr (op\<lparr>opStatus := StatusFailed, opPhase := PhaseDone, opBlockers := [], opBlockerCount := 0, opAllowedActions := [],
                 opError := Some (''backend'', (''external mover: %s'', [AStr (wsError w)])),
                 opEffectState := (if opEffectState op = '''' then EffectNone else opEffectState op)\<rparr>)
          else Inl (Refused (''operation %s's worker session changed under the resolution; retry'', [AStr (opID op)]))
      | None \<Rightarrow> Inl (Refused (''operation %s's worker session changed under the resolution; retry'', [AStr (opID op)])))"

definition joinCancelEnd :: "int \<Rightarrow> string \<Rightarrow> string \<Rightarrow> string \<Rightarrow> int \<Rightarrow> bool \<Rightarrow> operation \<Rightarrow> op_error + operation" where
  "joinCancelEnd now actor node fromNode fromTerm ownerGone cur =
     (if opNode cur \<noteq> fromNode \<or> opOwnerTerm cur \<noteq> fromTerm
      then Inl (Refused (takenOver ''operation %s was taken over by control node %s at owner term %d; retry the cancellation'' cur))
      else let cur' = cur\<lparr>opCancelRequest := (case opCancelRequest cur of None \<Rightarrow> Some (actor, now) | Some r \<Rightarrow> Some r), opAllowedActions := []\<rparr>
           in Inr (if ownerGone
                   then cur'\<lparr>opNode := node, opOwnerTerm := opOwnerTerm cur + 1, opStatus := StatusRunning, opBlockers := [], opBlockerCount := 0\<rparr>
                   else cur'))"

definition OpClusterAdd :: string where "OpClusterAdd = ''cluster-add''"

definition finishHTTPOp :: "(string \<times> message) + (int \<times> string \<times> string) option \<Rightarrow> operation \<Rightarrow> operation" where
  "finishHTTPOp answer op =
     (let op = op\<lparr>opPhase := PhaseDone\<rparr> in
      case answer of
        Inr None \<Rightarrow> op\<lparr>opStatus := StatusSucceeded\<rparr>
      | Inr (Some (v, name, key)) \<Rightarrow>
          op\<lparr>opStatus := StatusSucceeded, opVersion := v,
             opCluster := (if opCluster op = '''' \<and> opKind op = OpClusterAdd then name else opCluster op),
             opPlacement := (if opPlacement op = '''' then key else opPlacement op)\<rparr>
      | Inl e \<Rightarrow> op\<lparr>opStatus := StatusFailed, opError := Some e\<rparr>)"

definition finishHTTP :: "int \<Rightarrow> int \<Rightarrow> (string \<times> message) + (int \<times> string \<times> string) option \<Rightarrow> mem_operations \<times> tracker \<Rightarrow> mem_operations \<times> tracker" where
  "finishHTTP now dirVersion answer mt =
     put now (onOp (settleEffect dirVersion (trStartVersion (snd mt)) \<circ> finishHTTPOp answer) mt)"

subsection \<open>The steps of the control plane\<close>

text \<open>
  The state is the store and the trackers of the runs in progress, on whichever nodes they are. A run's writes are
  \<^term>\<open>ownerWrite\<close>; a run that ends its record, or finds it lost, is over. The other steps are the writers beside the
  owners: a cancellation, a takeover, the sweep of lost owners, a worker's heartbeat.
\<close>

datatype owner_write =
    WBarrier barrier_state "string list"
  | WBlocked "blocker list"
  | WAllow "string list"
  | WPhase string
  | WWaiting "string list"
  | WRunning

definition ownerWrite :: "int \<Rightarrow> owner_write \<Rightarrow> mem_operations \<times> tracker \<Rightarrow> mem_operations \<times> tracker" where
  "ownerWrite now w mt =
     (case w of
        WBarrier st actions \<Rightarrow> setBarrier now st actions mt
      | WBlocked bs \<Rightarrow> blocked now bs mt
      | WAllow actions \<Rightarrow> allow now actions mt
      | WPhase p \<Rightarrow> phase now p mt
      | WWaiting ids \<Rightarrow> waiting now ids mt
      | WRunning \<Rightarrow> running now mt)"

type_synonym control = "mem_operations \<times> tracker list"

inductive op_step :: "control \<Rightarrow> control \<Rightarrow> bool" where
  started: "beginTracker now i actor node f ks dir op m = Inr (m', tr) \<Longrightarrow> set ks = fset (fmdom (moByID m)) \<Longrightarrow>
    i \<notin> (opID \<circ> trOp) ` set (ts @ us) \<Longrightarrow> op_step (m, ts @ us) (m', ts @ tr # us)"
| wrote: "ownerWrite now w (m, tr) = (m', tr') \<Longrightarrow> op_step (m, ts @ tr # us) (m', ts @ tr' # us)"
| finished: "finish now v e (m, tr) = (m', tr') \<Longrightarrow> op_step (m, ts @ tr # us) (m', ts @ us)"
| answered: "finishHTTP now v answer (m, tr) = (m', tr') \<Longrightarrow> op_step (m, ts @ tr # us) (m', ts @ us)"
| lost: "op_step (m, ts @ tr # us) (m, ts @ tr\<lparr>trLost := True\<rparr> # us)"
| cancel: "updateRecord now i (cancelEnd actor node term ownerGone) m = Inr (m', op, b) \<Longrightarrow> op_step (m, ts) (m', ts)"
| resume: "updateRecord now i endf m = Inr (m', op, b) \<Longrightarrow>
    endf \<in> {resumeEnd to node term, resumeOwnEnd node term, joinCancelEnd now actor to node term True} \<Longrightarrow>
    op_step (m, ts) (m', (if b then [\<lparr>trOp = op, trLost = False, trStartVersion = v\<rparr>] else []) @ ts)"
| request: "updateRecord now i (joinCancelEnd now actor to node term False) m = Inr (m', op, b) \<Longrightarrow> op_step (m, ts) (m', ts)"
| orphaned: "Get m i = Some op \<Longrightarrow> \<not> Terminal op \<Longrightarrow> Update now (orphan op now why) m = Inr m' \<Longrightarrow> op_step (m, ts) (m', ts)"
| correct: "correctCommitted now i actor m = Inr (m', op) \<Longrightarrow> op_step (m, ts) (m', ts)"
| worker: "applyWorker now ttl i req actor m = Inr (m', w) \<Longrightarrow> op_step (m, ts) (m', ts)"
| resolved: "updateRecord now i resolveEnd m = Inr (m', op, b) \<Longrightarrow> op_step (m, ts) (m', ts)"

definition newOperations :: "int \<Rightarrow> int \<Rightarrow> string \<Rightarrow> mem_operations" where
  "newOperations limit capacity node =
     \<lparr>moLimit = limit, moCapacity = capacity, moNode = node, moOrder = [], moByID = fmempty, moIdem = fmempty\<rparr>"

end
