(* ===== verification/Operation_Store.thy ===== *)
theory Operation_Store
  imports Operations
begin

text \<open>
  What the store of operation records keeps, whichever writers come in whichever order: unfinished operations never
  overlap in scope, an idempotency key names one record and its record exists, the history limit drops no evidence,
  and a record that ended is not run again by an owner that has not noticed.

  The invariant ties each run to the record it writes (\<^verbatim>\<open>linked\<close>): the run is lost, or it is behind the record, or it
  is level with a record that has not ended.
\<close>

subsection \<open>What the store keeps\<close>

definition overlap :: "op_scope \<Rightarrow> op_scope \<Rightarrow> bool" where
  "overlap a b \<longleftrightarrow>
     scResource a = scResource b \<or>
     (case scopeCluster a of Some cl \<Rightarrow> touches b cl | None \<Rightarrow> False) \<or>
     (case scopeCluster b of Some cl \<Rightarrow> touches a cl | None \<Rightarrow> False)"

lemma overlap_sym: "overlap a b \<longleftrightarrow> overlap b a"
  by (auto simp: overlap_def)

lemma conflictWith_None:
  "conflictWith sc x = None \<longleftrightarrow> Terminal x \<or> (\<forall>sx. opScope x = Some sx \<longrightarrow> \<not> overlap sc sx)"
  by (auto simp: conflictWith_def overlap_def touches_def split: option.splits)

lemma firstSome_None: "firstSome f xs = None \<longleftrightarrow> (\<forall>x \<in> set xs. f x = None)"
  by (induction xs) (auto split: option.splits)

lemma firstSome_Some: "firstSome f xs = Some y \<Longrightarrow> \<exists>x \<in> set xs. f x = Some y"
  by (induction xs) (auto split: option.splits)

lemma set_records: "set ks = fset (fmdom (moByID m)) \<Longrightarrow> x \<in> set (records ks m) \<longleftrightarrow> (\<exists>i. fmlookup (moByID m) i = Some x)"
  by (auto simp: records_def List.map_filter_def fmlookup_dom_iff image_iff intro: fmdomI) (metis fmdomI option.sel)

definition sameIntent :: "operation \<Rightarrow> operation \<Rightarrow> bool" where
  "sameIntent a b \<longleftrightarrow>
     opID a = opID b \<and> opScope a = opScope b \<and> opIdentity a = opIdentity b \<and> opActor a = opActor b \<and> opRequestID a = opRequestID b"

definition exclusive :: "mem_operations \<Rightarrow> bool" where
  "exclusive m \<longleftrightarrow>
     (\<forall>i j a b sa sb. i \<noteq> j \<longrightarrow> fmlookup (moByID m) i = Some a \<longrightarrow> fmlookup (moByID m) j = Some b \<longrightarrow>
        \<not> Terminal a \<longrightarrow> \<not> Terminal b \<longrightarrow> opScope a = Some sa \<longrightarrow> opScope b = Some sb \<longrightarrow> \<not> overlap sa sb)"

definition keyed :: "mem_operations \<Rightarrow> bool" where
  "keyed m \<longleftrightarrow>
     (\<forall>i op. fmlookup (moByID m) i = Some op \<longrightarrow> opID op = i \<and> (opRequestID op \<noteq> '''' \<longrightarrow> fmlookup (moIdem m) (IdempotencyIndex op) = Some i)) \<and>
     (\<forall>x i. fmlookup (moIdem m) x = Some i \<longrightarrow>
        (\<exists>op. fmlookup (moByID m) i = Some op \<and> opRequestID op \<noteq> '''' \<and> IdempotencyIndex op = x))"

definition listed :: "string list \<Rightarrow> mem_operations \<Rightarrow> bool" where
  "listed ids m \<longleftrightarrow> distinct ids \<and> set ids = fset (fmdom (moByID m))"

definition storeOK :: "mem_operations \<Rightarrow> bool" where
  "storeOK m \<longleftrightarrow> exclusive m \<and> keyed m \<and> listed (moOrder m) m"

lemma keyedD:
  assumes "keyed m"
  shows "fmlookup (moByID m) i = Some op \<Longrightarrow> opID op = i"
    "fmlookup (moByID m) i = Some op \<Longrightarrow> opRequestID op \<noteq> '''' \<Longrightarrow> fmlookup (moIdem m) (IdempotencyIndex op) = Some i"
    "fmlookup (moIdem m) x = Some i \<Longrightarrow> \<exists>op. fmlookup (moByID m) i = Some op \<and> opRequestID op \<noteq> '''' \<and> IdempotencyIndex op = x"
  using assms unfolding keyed_def by blast+

lemma reorder_simps [simp]:
  "keyed (m\<lparr>moOrder := ids\<rparr>) = keyed m" "listed ks (m\<lparr>moOrder := ids\<rparr>) = listed ks m"
  by (simp_all add: keyed_def listed_def)

lemma sameIntent_index: "sameIntent a b \<Longrightarrow> IdempotencyIndex a = IdempotencyIndex b"
  by (simp add: sameIntent_def IdempotencyIndex_def)

lemma keyed_drop:
  assumes "keyed m" "fmlookup (moByID m) i = Some op"
  shows "keyed (m\<lparr>moIdem := (if opRequestID op \<noteq> '''' then fmdrop (IdempotencyIndex op) (moIdem m) else moIdem m),
                  moByID := fmdrop i (moByID m)\<rparr>)"
proof -
  note look = keyedD(1,2) [OF assms(1)] and idem = keyedD(3) [OF assms(1)]
  have other: "IdempotencyIndex a \<noteq> IdempotencyIndex op"
    if "fmlookup (moByID m) j = Some a" "j \<noteq> i" "opRequestID a \<noteq> ''''" "opRequestID op \<noteq> ''''" for j a
    using look(2) [OF that(1,3)] look(2) [OF assms(2) that(4)] that(2) by auto
  have self: "opRequestID op \<noteq> '''' \<and> x = IdempotencyIndex op" if "fmlookup (moIdem m) x = Some i" for x
    using idem [OF that] assms(2) by auto
  show ?thesis unfolding keyed_def
  proof (intro conjI allI impI)
    fix j a
    assume a: "fmlookup (moByID (m\<lparr>moIdem := (if opRequestID op \<noteq> '''' then fmdrop (IdempotencyIndex op) (moIdem m) else moIdem m),
                  moByID := fmdrop i (moByID m)\<rparr>)) j = Some a"
    then have j: "fmlookup (moByID m) j = Some a" "j \<noteq> i" by (auto split: if_splits)
    show "opID a = j" using look(1) [OF j(1)] .
    show "fmlookup (moIdem (m\<lparr>moIdem := (if opRequestID op \<noteq> '''' then fmdrop (IdempotencyIndex op) (moIdem m) else moIdem m),
                  moByID := fmdrop i (moByID m)\<rparr>)) (IdempotencyIndex a) = Some j" if "opRequestID a \<noteq> ''''"
      using look(2) [OF j(1) that] other [OF j that] by simp
  next
    fix x j
    assume "fmlookup (moIdem (m\<lparr>moIdem := (if opRequestID op \<noteq> '''' then fmdrop (IdempotencyIndex op) (moIdem m) else moIdem m),
                  moByID := fmdrop i (moByID m)\<rparr>)) x = Some j"
    then have x: "fmlookup (moIdem m) x = Some j" "opRequestID op \<noteq> '''' \<Longrightarrow> x \<noteq> IdempotencyIndex op" by (auto split: if_splits)
    with self [of x] have "j \<noteq> i" by auto
    then show "\<exists>a. fmlookup (moByID (m\<lparr>moIdem := (if opRequestID op \<noteq> '''' then fmdrop (IdempotencyIndex op) (moIdem m) else moIdem m),
                  moByID := fmdrop i (moByID m)\<rparr>)) j = Some a \<and> opRequestID a \<noteq> '''' \<and> IdempotencyIndex a = x"
      using idem [OF x(1)] by simp
  qed
qed

definition shrinks :: "int \<Rightarrow> mem_operations \<Rightarrow> mem_operations \<Rightarrow> bool" where
  "shrinks now m m' \<longleftrightarrow>
     (\<forall>i op. fmlookup (moByID m') i = Some op \<longrightarrow> fmlookup (moByID m) i = Some op) \<and>
     (\<forall>i op. fmlookup (moByID m) i = Some op \<longrightarrow> \<not> Prunable now op \<longrightarrow> fmlookup (moByID m') i = Some op)"

lemma shrinks_refl [simp]: "shrinks now m (m\<lparr>moOrder := ids\<rparr>)"
  by (simp add: shrinks_def)

lemma shrinksD:
  assumes "shrinks now m m'"
  shows "fmlookup (moByID m') i = Some op \<Longrightarrow> fmlookup (moByID m) i = Some op"
    "fmlookup (moByID m) i = Some op \<Longrightarrow> \<not> Prunable now op \<Longrightarrow> fmlookup (moByID m') i = Some op"
  using assms unfolding shrinks_def by blast+

lemma shrinks_trans: "shrinks now a b \<Longrightarrow> shrinks now b c \<Longrightarrow> shrinks now a c"
  unfolding shrinks_def by blast

lemma exclusive_shrinks: "exclusive m \<Longrightarrow> shrinks now m m' \<Longrightarrow> exclusive m'"
proof -
  assume ex: "exclusive m" and sh: "shrinks now m m'"
  have up: "fmlookup (moByID m) i = Some op" if "fmlookup (moByID m') i = Some op" for i op
    using shrinksD(1) [OF sh that] .
  show "exclusive m'" unfolding exclusive_def
  proof (intro allI impI)
    fix i j a b sa sb
    assume "i \<noteq> j" "fmlookup (moByID m') i = Some a" "fmlookup (moByID m') j = Some b" "\<not> Terminal a" "\<not> Terminal b"
      "opScope a = Some sa" "opScope b = Some sb"
    then show "\<not> overlap sa sb" by (intro ex [unfolded exclusive_def, rule_format, of i j a b sa sb] up)
  qed
qed

lemma trimFrom_ok:
  "keyed m \<Longrightarrow> listed (kept @ ids) m \<Longrightarrow> m' = trimFrom now limit kept ids m \<Longrightarrow>
   keyed m' \<and> listed (moOrder m') m' \<and> shrinks now m m' \<and>
   (int (length (moOrder m')) \<le> limit \<or>
    (\<forall>i \<in> set (moOrder m') - set kept. \<forall>op. fmlookup (moByID m') i = Some op \<longrightarrow> \<not> Prunable now op))"
proof (induction now limit kept ids m arbitrary: m' rule: trimFrom.induct)
  case (1 now limit kept m)
  then show ?case by simp
next
  case (2 now limit kept i ids m)
  show ?case
  proof (cases "int (length kept + length (i # ids)) \<le> limit")
    case True
    with 2 show ?thesis by simp
  next
    case long: False
    have "i |\<in>| fmdom (moByID m)" using "2.prems"(2) by (auto simp: listed_def)
    then obtain op where op: "fmlookup (moByID m) i = Some op" by (meson fmlookup_dom_iff)
    show ?thesis
    proof (cases "Prunable now op")
      case True
      let ?m = "m\<lparr>moIdem := (if opRequestID op \<noteq> '''' then fmdrop (IdempotencyIndex op) (moIdem m) else moIdem m),
                  moByID := fmdrop i (moByID m)\<rparr>"
      have m': "m' = trimFrom now limit kept ids ?m" using "2.prems"(3) long op True by simp
      have l: "listed (kept @ ids) ?m" using "2.prems"(2) by (auto simp: listed_def)
      have s: "shrinks now m ?m" using op True by (auto simp: shrinks_def)
      from "2.IH"(2) [OF long op True keyed_drop [OF "2.prems"(1) op] l m'] s show ?thesis
        by (blast intro: shrinks_trans)
    next
      case False
      have m': "m' = trimFrom now limit (kept @ [i]) ids m" using "2.prems"(3) long op False by simp
      have "listed ((kept @ [i]) @ ids) m" using "2.prems"(2) by simp
      note IH = "2.IH"(3) [OF long op False "2.prems"(1) this m']
      have "\<not> Prunable now x" if "fmlookup (moByID m') i = Some x" for x
        using shrinksD(1) [of now m m' i x] IH that op False by simp
      with IH show ?thesis by auto
    qed
  qed
qed

lemma trim_ok:
  assumes "exclusive m" "keyed m" "listed (moOrder m) m"
  shows "storeOK (trim now m)" "shrinks now m (trim now m)"
    "int (length (moOrder (trim now m))) \<le> orDefault defaultOperationLimit (moLimit m) \<or>
     (\<forall>i op. fmlookup (moByID (trim now m)) i = Some op \<longrightarrow> \<not> Prunable now op)"
proof -
  have l: "listed ([] @ moOrder m) m" using assms(3) by simp
  note * = trimFrom_ok [OF assms(2) l trim_def [of now m]]
  have "exclusive (trim now m)" using * by (intro exclusive_shrinks [OF assms(1), of now]) simp
  then show "storeOK (trim now m)" using * by (simp add: storeOK_def)
  show "shrinks now m (trim now m)" using * by simp
  show "int (length (moOrder (trim now m))) \<le> orDefault defaultOperationLimit (moLimit m) \<or>
     (\<forall>i op. fmlookup (moByID (trim now m)) i = Some op \<longrightarrow> \<not> Prunable now op)"
    using * by (auto simp: listed_def fmdomI)
qed

lemma createRefuses_None:
  assumes "createRefuses ks dir op m = None" "storeOK m" "set ks = fset (fmdom (moByID m))"
  shows "fmlookup (moByID m) (opID op) = None"
    "opRequestID op \<noteq> '''' \<Longrightarrow> fmlookup (moIdem m) (IdempotencyIndex op) = None"
    "\<And>i x sc sx. fmlookup (moByID m) i = Some x \<Longrightarrow> \<not> Terminal x \<Longrightarrow> opScope op = Some sc \<Longrightarrow> opScope x = Some sx \<Longrightarrow> \<not> overlap sc sx"
proof -
  show "fmlookup (moByID m) (opID op) = None"
    using assms(1) by (auto simp: createRefuses_def fmlookup_dom_iff split: if_splits intro: fmdom_notD)
  show "opRequestID op \<noteq> '''' \<Longrightarrow> fmlookup (moIdem m) (IdempotencyIndex op) = None"
    using assms(1) by (auto simp: createRefuses_def split: if_splits option.splits)
  show "\<not> overlap sc sx" if "fmlookup (moByID m) i = Some x" "\<not> Terminal x" "opScope op = Some sc" "opScope x = Some sx" for i x sc sx
  proof -
    have "conflict sc (records ks m) = None"
      using assms(1) that(3) by (auto simp: createRefuses_def split: if_splits option.splits)
    then have "conflictWith sc x = None"
      using set_records [OF assms(3)] that(1) by (auto simp: conflict_def firstSome_None)
    with that show ?thesis by (simp add: conflictWith_None)
  qed
qed

lemma insert_ok:
  assumes ok: "storeOK m" and r: "createRefuses ks dir op m = None" and ks: "set ks = fset (fmdom (moByID m))"
  shows "exclusive (insertRecord op m)" "keyed (insertRecord op m)" "listed (moOrder (insertRecord op m)) (insertRecord op m)"
proof -
  note new = createRefuses_None [OF r ok ks]
  show "listed (moOrder (insertRecord op m)) (insertRecord op m)"
    using ok new(1) by (auto simp: storeOK_def listed_def insertRecord_def fmlookup_dom_iff)
  have look: "fmlookup (moByID (insertRecord op m)) i = (if i = opID op then Some op else fmlookup (moByID m) i)" for i
    by (simp add: insertRecord_def)
  have idem: "fmlookup (moIdem (insertRecord op m)) x =
      (if opRequestID op \<noteq> '''' \<and> x = IdempotencyIndex op then Some (opID op) else fmlookup (moIdem m) x)" for x
    by (simp add: insertRecord_def)
  have ex: "exclusive m" using ok by (simp add: storeOK_def)
  show "exclusive (insertRecord op m)"
    unfolding exclusive_def look
  proof (intro allI impI)
    fix i j a b sa sb
    assume *: "i \<noteq> j" "(if i = opID op then Some op else fmlookup (moByID m) i) = Some a"
      "(if j = opID op then Some op else fmlookup (moByID m) j) = Some b" "\<not> Terminal a" "\<not> Terminal b"
      "opScope a = Some sa" "opScope b = Some sb"
    consider "i = opID op" "j \<noteq> opID op" | "i \<noteq> opID op" "j = opID op" | "i \<noteq> opID op" "j \<noteq> opID op" using *(1) by auto
    then show "\<not> overlap sa sb"
    proof cases
      case 1
      with * new(3) [of j b sa sb] show ?thesis by simp
    next
      case 2
      with * new(3) [of i a sb sa] show ?thesis by (simp add: overlap_sym [of sa sb])
    next
      case 3
      with * show ?thesis using ex [unfolded exclusive_def, rule_format, of i j a b sa sb] by simp
    qed
  qed
  have k: "keyed m" using ok by (simp add: storeOK_def)
  show "keyed (insertRecord op m)"
    unfolding keyed_def look idem
  proof (intro conjI allI impI)
    fix i a
    assume a: "(if i = opID op then Some op else fmlookup (moByID m) i) = Some a"
    have old: "opID a = i \<and> (opRequestID a \<noteq> '''' \<longrightarrow> fmlookup (moIdem m) (IdempotencyIndex a) = Some i)" if "i \<noteq> opID op"
      using keyedD(1,2) [OF k, of i a] a that by simp
    show "opID a = i" using a old by (auto split: if_splits)
    show "(if opRequestID op \<noteq> '''' \<and> IdempotencyIndex a = IdempotencyIndex op then Some (opID op) else fmlookup (moIdem m) (IdempotencyIndex a)) = Some i"
      if "opRequestID a \<noteq> ''''"
      using a old new(2) that by (cases "i = opID op") auto
  next
    fix x i
    assume "(if opRequestID op \<noteq> '''' \<and> x = IdempotencyIndex op then Some (opID op) else fmlookup (moIdem m) x) = Some i"
    then show "\<exists>a. (if i = opID op then Some op else fmlookup (moByID m) i) = Some a \<and> opRequestID a \<noteq> '''' \<and> IdempotencyIndex a = x"
      using keyedD(3) [OF k, of x i] new(1) by (auto split: if_splits)
  qed
qed

subsection \<open>Writes keep the store\<close>

lemma sameIntent_simps [simp]: "sameIntent a a"
  by (simp add: sameIntent_def)

lemma sameIntent_trans: "sameIntent a b \<Longrightarrow> sameIntent b c \<Longrightarrow> sameIntent a c"
  by (simp add: sameIntent_def)

lemma sameIntent_sym: "sameIntent a b \<Longrightarrow> sameIntent b a"
  by (simp add: sameIntent_def)

lemma Update_Inr:
  assumes "Update now op m = Inr m'"
  obtains cur where "Get m (opID op) = Some cur" "opSequence op = opSequence cur + 1"
    "m' = trim now (m\<lparr>moByID := fmupd (opID op) op (moByID m)\<rparr>)"
  using assms by (auto simp: Update_def Get_def split: option.splits if_splits)

lemma replace_ok:
  assumes ok: "storeOK m" and cur: "fmlookup (moByID m) (opID op) = Some cur" and same: "sameIntent cur op"
    and fin: "Terminal cur \<Longrightarrow> Terminal op"
  shows "exclusive (m\<lparr>moByID := fmupd (opID op) op (moByID m)\<rparr>)" "keyed (m\<lparr>moByID := fmupd (opID op) op (moByID m)\<rparr>)"
    "listed (moOrder m) (m\<lparr>moByID := fmupd (opID op) op (moByID m)\<rparr>)"
proof -
  let ?m = "m\<lparr>moByID := fmupd (opID op) op (moByID m)\<rparr>"
  have old: "\<exists>b. fmlookup (moByID m) i = Some b \<and> sameIntent b a \<and> (Terminal b \<longrightarrow> Terminal a)"
    if "fmlookup (moByID ?m) i = Some a" for i a
    using that cur same fin by (auto split: if_splits)
  have ex: "exclusive m" and k: "keyed m" and l: "listed (moOrder m) m" using ok by (simp_all add: storeOK_def)
  show "exclusive ?m" unfolding exclusive_def
  proof (intro allI impI)
    fix i j a b sa sb
    assume *: "i \<noteq> j" "fmlookup (moByID ?m) i = Some a" "fmlookup (moByID ?m) j = Some b" "\<not> Terminal a" "\<not> Terminal b"
      "opScope a = Some sa" "opScope b = Some sb"
    from old [OF *(2)] old [OF *(3)] *(4-7) obtain a' b' where
      "fmlookup (moByID m) i = Some a'" "fmlookup (moByID m) j = Some b'" "\<not> Terminal a'" "\<not> Terminal b'"
      "opScope a' = Some sa" "opScope b' = Some sb" by (auto simp: sameIntent_def)
    with *(1) show "\<not> overlap sa sb" by (intro ex [unfolded exclusive_def, rule_format, of i j a' b' sa sb])
  qed
  have "opRequestID a = opRequestID b \<and> IdempotencyIndex a = IdempotencyIndex b \<and> opID a = opID b" if "sameIntent b a" for a b
    using that sameIntent_index [OF that] by (simp add: sameIntent_def)
  note same' = this
  show "keyed ?m" unfolding keyed_def
  proof (intro conjI allI impI)
    fix i a assume "fmlookup (moByID ?m) i = Some a"
    from old [OF this] obtain b where b: "fmlookup (moByID m) i = Some b" "sameIntent b a" by blast
    show "opID a = i" using keyedD(1) [OF k b(1)] same' [OF b(2)] by simp
    show "fmlookup (moIdem ?m) (IdempotencyIndex a) = Some i" if "opRequestID a \<noteq> ''''"
      using keyedD(2) [OF k b(1)] same' [OF b(2)] that by simp
  next
    fix x i assume "fmlookup (moIdem ?m) x = Some i"
    then obtain b where b: "fmlookup (moByID m) i = Some b" "opRequestID b \<noteq> ''''" "IdempotencyIndex b = x"
      using keyedD(3) [OF k, of x i] by auto
    show "\<exists>a. fmlookup (moByID ?m) i = Some a \<and> opRequestID a \<noteq> '''' \<and> IdempotencyIndex a = x"
      using b cur same' [OF same] by (cases "i = opID op") auto
  qed
  have "opID op |\<in>| fmdom (moByID m)" using cur by (rule fmdomI)
  then show "listed (moOrder m) ?m" using l by (auto simp: listed_def)
qed

lemma Update_ok:
  assumes ok: "storeOK m" and u: "Update now op m = Inr m'" and cur: "Get m (opID op) = Some cur"
    and same: "sameIntent cur op" and fin: "Terminal cur \<Longrightarrow> Terminal op"
  shows "storeOK m'" "shrinks now (m\<lparr>moByID := fmupd (opID op) op (moByID m)\<rparr>) m'"
proof -
  note r = replace_ok [OF ok cur [unfolded Get_def] same fin]
  have m': "m' = trim now (m\<lparr>moByID := fmupd (opID op) op (moByID m)\<rparr>)" using u by (rule Update_Inr)
  show "storeOK m'" "shrinks now (m\<lparr>moByID := fmupd (opID op) op (moByID m)\<rparr>) m'"
    unfolding m' using r by (auto intro!: trim_ok)
qed

definition linked :: "mem_operations \<Rightarrow> tracker \<Rightarrow> bool" where
  "linked m tr \<longleftrightarrow>
     (\<forall>cur. Get m (opID (trOp tr)) = Some cur \<longrightarrow>
        sameIntent cur (trOp tr) \<and>
        (trLost tr \<or> opSequence (trOp tr) < opSequence cur \<or> opSequence (trOp tr) = opSequence cur \<and> \<not> Terminal cur))"

definition controlOK :: "control \<Rightarrow> bool" where
  "controlOK s \<longleftrightarrow> storeOK (fst s) \<and> (\<forall>tr \<in> set (snd s). linked (fst s) tr \<and> \<not> Terminal (trOp tr))"

lemma linkedD:
  assumes "linked m tr" "Get m (opID (trOp tr)) = Some cur"
  shows "sameIntent cur (trOp tr)"
    "\<not> trLost tr \<Longrightarrow> opSequence (trOp tr) = opSequence cur \<Longrightarrow> \<not> Terminal cur"
    "\<not> trLost tr \<Longrightarrow> opSequence (trOp tr) \<le> opSequence cur"
  using assms unfolding linked_def by auto

lemma Update_linked:
  assumes ok: "storeOK m" and u: "Update now op m = Inr m'" and cur: "Get m (opID op) = Some cur"
    and same: "sameIntent cur op" and fin: "Terminal cur \<Longrightarrow> Terminal op" and tr: "linked m tr"
  shows "linked m' tr"
  unfolding linked_def
proof (intro allI impI)
  fix c assume c: "Get m' (opID (trOp tr)) = Some c"
  have seq: "opSequence op = opSequence cur + 1" using u cur by (auto elim!: Update_Inr)
  have "fmlookup (fmupd (opID op) op (moByID m)) (opID (trOp tr)) = Some c"
    using shrinksD(1) [OF Update_ok(2) [OF ok u cur same fin] c [unfolded Get_def]] by simp
  note look = this
  show "sameIntent c (trOp tr) \<and>
        (trLost tr \<or> opSequence (trOp tr) < opSequence c \<or> opSequence (trOp tr) = opSequence c \<and> \<not> Terminal c)"
  proof (cases "opID (trOp tr) = opID op")
    case True
    have c': "c = op" using look True by simp
    have cur': "Get m (opID (trOp tr)) = Some cur" using cur True by simp
    have "sameIntent c (trOp tr)"
      unfolding c' using sameIntent_sym [OF same] linkedD(1) [OF tr cur'] by (rule sameIntent_trans)
    moreover have "trLost tr \<or> opSequence (trOp tr) < opSequence c" using linkedD(3) [OF tr cur'] seq c' by auto
    ultimately show ?thesis by blast
  next
    case False
    then have "Get m (opID (trOp tr)) = Some c" using look by (simp add: Get_def)
    then show ?thesis using tr unfolding linked_def by blast
  qed
qed

definition keeps :: "mem_operations \<Rightarrow> mem_operations \<Rightarrow> bool" where
  "keeps m m' \<longleftrightarrow> storeOK m' \<and> (\<forall>tr. linked m tr \<longrightarrow> linked m' tr)"

lemma keepsI: "storeOK m' \<Longrightarrow> (\<And>tr. linked m tr \<Longrightarrow> linked m' tr) \<Longrightarrow> keeps m m'"
  by (simp add: keeps_def)

lemma keeps_refl: "storeOK m \<Longrightarrow> keeps m m"
  by (simp add: keeps_def)

lemma keeps_control: "keeps m m' \<Longrightarrow> controlOK (m, ts) \<Longrightarrow> controlOK (m', ts)"
  by (simp add: keeps_def controlOK_def)

lemmas Update_keeps = keepsI [OF Update_ok(1) Update_linked]

text \<open>What \<^verbatim>\<open>put\<close> does: it writes the owner's record over one that has not ended, or the store stays as it is.\<close>

lemma put_cases:
  assumes "put now (m, tr) = (m', tr')" "linked m tr"
  obtains (kept) "m' = m" "trLost tr'" "sameIntent (trOp tr) (trOp tr')" "opStatus (trOp tr') = opStatus (trOp tr)"
    | (gone) "m' = m" "Get m (opID (trOp tr)) = None" "sameIntent (trOp tr) (trOp tr')" "opStatus (trOp tr') = opStatus (trOp tr)"
    | (written) cur where "Get m (opID (trOp tr)) = Some cur" "\<not> Terminal cur" "Update now (trOp tr') m = Inr m'"
        "sameIntent (trOp tr) (trOp tr')" "opStatus (trOp tr') = opStatus (trOp tr)" "opBarrier (trOp tr') = opBarrier (trOp tr)"
        "\<not> trLost tr"
proof (cases "trLost tr")
  case True
  with assms(1) show thesis by (intro kept) (auto simp: put_def)
next
  case nl: False
  let ?op = "(trOp tr)\<lparr>opUpdated := now, opSequence := opSequence (trOp tr) + 1\<rparr>"
  show thesis
  proof (cases "Get m (opID (trOp tr))")
    case None
    then have "Update now ?op m = Inl (UnknownOperation (opID (trOp tr)))" by (simp add: Update_def Get_def)
    with assms(1) nl None show thesis by (intro gone) (auto simp: put_def Let_def sameIntent_def)
  next
    case (Some cur)
    show thesis
    proof (cases "opSequence cur = opSequence (trOp tr)")
      case True
      then have "Update now ?op m = Inr (trim now (m\<lparr>moByID := fmupd (opID ?op) ?op (moByID m)\<rparr>))"
        using Some by (simp add: Update_def Get_def)
      with assms(1) nl Some True linkedD(2) [OF assms(2) Some nl] show thesis
        by (intro written) (auto simp: put_def Let_def sameIntent_def)
    next
      case False
      then have st: "Update now ?op m = Inl (StaleSequence (opID (trOp tr)) (opSequence cur) (opSequence (trOp tr)))"
        using Some by (simp add: Update_def Get_def)
      have mg: "Update now (mergeStored cur ?op) m = Inr (trim now (m\<lparr>moByID := fmupd (opID (trOp tr)) (mergeStored cur ?op) (moByID m)\<rparr>))"
        using Some by (simp add: Update_def Get_def mergeStored_def)
      show thesis
      proof (cases "opNode cur \<noteq> opNode (trOp tr) \<or> opOwnerTerm cur \<noteq> opOwnerTerm (trOp tr) \<or> Terminal cur")
        case True
        then show thesis using assms(1) nl Some st by (intro kept) (auto simp: put_def Let_def sameIntent_def)
      next
        case False
        then show thesis using assms(1) nl Some st mg by (intro written) (auto simp: put_def Let_def sameIntent_def mergeStored_def)
      qed
    qed
  qed
qed

subsection \<open>Every step keeps the control plane\<close>

lemma linked_onOp: "linked m tr \<Longrightarrow> sameIntent (trOp tr) op \<Longrightarrow> opSequence op = opSequence (trOp tr) \<Longrightarrow> linked m (tr\<lparr>trOp := op\<rparr>)"
proof -
  assume tr: "linked m tr" and s: "sameIntent (trOp tr) op" "opSequence op = opSequence (trOp tr)"
  have i: "opID op = opID (trOp tr)" using s(1) by (simp add: sameIntent_def)
  show ?thesis unfolding linked_def
  proof (intro allI impI)
    fix cur assume "Get m (opID (trOp (tr\<lparr>trOp := op\<rparr>))) = Some cur"
    then have cur: "Get m (opID (trOp tr)) = Some cur" by (simp add: i)
    show "sameIntent cur (trOp (tr\<lparr>trOp := op\<rparr>)) \<and> (trLost (tr\<lparr>trOp := op\<rparr>) \<or>
        opSequence (trOp (tr\<lparr>trOp := op\<rparr>)) < opSequence cur \<or> opSequence (trOp (tr\<lparr>trOp := op\<rparr>)) = opSequence cur \<and> \<not> Terminal cur)"
      using sameIntent_trans [OF linkedD(1) [OF tr cur] s(1)] tr [unfolded linked_def, rule_format, OF cur] s(2) by auto
  qed
qed

lemma linked_lost:
  assumes "linked m tr" "sameIntent (trOp tr) (trOp tr')" "trLost tr' \<or> Get m (opID (trOp tr)) = None"
  shows "linked m tr'"
  unfolding linked_def
proof (intro allI impI)
  fix cur assume c: "Get m (opID (trOp tr')) = Some cur"
  have "opID (trOp tr') = opID (trOp tr)" using assms(2) by (simp add: sameIntent_def)
  with c have cur: "Get m (opID (trOp tr)) = Some cur" by simp
  then show "sameIntent cur (trOp tr') \<and>
      (trLost tr' \<or> opSequence (trOp tr') < opSequence cur \<or> opSequence (trOp tr') = opSequence cur \<and> \<not> Terminal cur)"
    using sameIntent_trans [OF linkedD(1) [OF assms(1) cur] assms(2)] assms(3) by auto
qed

lemma put_ok:
  assumes ok: "storeOK m" and tr: "linked m tr" and p: "put now (m, tr) = (m', tr')"
  shows "keeps m m' \<and> (\<not> Terminal (trOp tr) \<longrightarrow> linked m' tr' \<and> \<not> Terminal (trOp tr'))"
  using p tr
proof (cases rule: put_cases)
    case kept
    with keeps_refl [OF ok] linked_lost [OF tr kept(3)] show ?thesis by (simp add: Terminal_def)
  next
    case gone
    with keeps_refl [OF ok] linked_lost [OF tr gone(3)] show ?thesis by (simp add: Terminal_def)
  next
    case (written cur)
    have i: "opID (trOp tr') = opID (trOp tr)" using written(4) by (simp add: sameIntent_def)
    have cur: "Get m (opID (trOp tr')) = Some cur" using written(1) i by simp
    have same: "sameIntent cur (trOp tr')" using linkedD(1) [OF tr written(1)] written(4) by (rule sameIntent_trans)
    have fin: "Terminal cur \<Longrightarrow> Terminal (trOp tr')" using written(2) by simp
    note u = written(3) cur same fin
    have "linked m' tr'" if "\<not> Terminal (trOp tr')" unfolding linked_def
    proof (intro allI impI)
      fix c assume "Get m' (opID (trOp tr')) = Some c"
      then have "c = trOp tr'" using shrinksD(1) [OF Update_ok(2) [OF ok u], of "opID (trOp tr')" c] by (simp add: Get_def)
      with that show "sameIntent c (trOp tr') \<and>
          (trLost tr' \<or> opSequence (trOp tr') < opSequence c \<or> opSequence (trOp tr') = opSequence c \<and> \<not> Terminal c)" by simp
    qed
    moreover have "Terminal (trOp tr') = Terminal (trOp tr)" using written(5) by (simp add: Terminal_def)
    ultimately show ?thesis using Update_keeps [OF ok u ok u] by simp
qed

lemma ownerWrite_put:
  "\<not> Terminal (trOp tr) \<Longrightarrow>
   ownerWrite now w (m, tr) = (m, tr) \<or>
   (\<exists>op. ownerWrite now w (m, tr) = put now (m, tr\<lparr>trOp := op\<rparr>) \<and> sameIntent (trOp tr) op \<and>
         opSequence op = opSequence (trOp tr) \<and> \<not> Terminal op)"
  by (cases w)
    (auto simp: ownerWrite_def setBarrier_def blocked_def allow_def phase_def waiting_def running_def onOp_def Let_def
      sameIntent_def Terminal_def op_statuses)

lemma ownerWrite_ok:
  assumes "storeOK m" "linked m tr" "\<not> Terminal (trOp tr)" "ownerWrite now w (m, tr) = (m', tr')"
  shows "keeps m m' \<and> linked m' tr' \<and> \<not> Terminal (trOp tr')"
  using ownerWrite_put [OF assms(3), of now w m]
proof
  assume "ownerWrite now w (m, tr) = (m, tr)"
  with assms keeps_refl show ?thesis by simp
next
  assume "\<exists>op. ownerWrite now w (m, tr) = put now (m, tr\<lparr>trOp := op\<rparr>) \<and> sameIntent (trOp tr) op \<and>
       opSequence op = opSequence (trOp tr) \<and> \<not> Terminal op"
  then obtain op where op: "put now (m, tr\<lparr>trOp := op\<rparr>) = (m', tr')" "sameIntent (trOp tr) op"
      "opSequence op = opSequence (trOp tr)" "\<not> Terminal op"
    using assms(4) by auto
  from put_ok [OF assms(1) linked_onOp [OF assms(2) op(2,3)] op(1)] op(4) show ?thesis by simp
qed

lemma ending_fields [simp]:
  "sameIntent op (settleEffect v sv op')  = sameIntent op op'" "opSequence (settleEffect v sv op') = opSequence op'"
  "sameIntent op (finishOp e op)" "opSequence (finishOp e op) = opSequence op"
  "sameIntent op (finishHTTPOp answer op)" "opSequence (finishHTTPOp answer op) = opSequence op"
  by (auto simp: sameIntent_def settleEffect_def finishOp_def finishHTTPOp_def Let_def split: ending.splits sum.splits option.splits)

lemma ending_put_ok:
  assumes "storeOK m" "linked m tr" "put now (onOp g (m, tr)) = (m', tr')"
    "sameIntent (trOp tr) (g (trOp tr))" "opSequence (g (trOp tr)) = opSequence (trOp tr)"
  shows "keeps m m'"
  using put_ok [OF assms(1) linked_onOp [OF assms(2,4,5)] assms(3) [unfolded onOp_def fst_conv snd_conv]] by simp

lemma finish_ok:
  assumes "storeOK m" "linked m tr" "finish now v e (m, tr) = (m', tr')"
  shows "keeps m m'"
proof (cases "e = Lost")
  case True
  with assms keeps_refl show ?thesis by (auto simp: finish_def onOp_def)
next
  case False
  then show ?thesis using assms(3) ending_put_ok [OF assms(1,2), of now "settleEffect v (trStartVersion tr) \<circ> finishOp e" m' tr']
    by (auto simp: finish_def)
qed

lemma finishHTTP_ok:
  assumes "storeOK m" "linked m tr" "finishHTTP now v answer (m, tr) = (m', tr')"
  shows "keeps m m'"
  using assms(3) ending_put_ok [OF assms(1,2), of now "settleEffect v (trStartVersion tr) \<circ> finishHTTPOp answer" m' tr']
  by (auto simp: finishHTTP_def)

text \<open>The writers beside the owner keep the intent of the record, and none of them runs an ended record again.\<close>

definition keepsIntent :: "(operation \<Rightarrow> op_error + operation) \<Rightarrow> bool" where
  "keepsIntent endf \<longleftrightarrow> (\<forall>a b. endf a = Inr b \<longrightarrow> sameIntent a b \<and> opSequence b = opSequence a)"

lemma writers_keep [simp]:
  "keepsIntent (cancelEnd actor node t gone)" "keepsIntent (resumeEnd to node t)" "keepsIntent (resumeOwnEnd node t)"
  "keepsIntent (joinCancelEnd now actor to node t gone)" "keepsIntent resolveEnd"
  by (auto simp: keepsIntent_def cancelEnd_def cancelWrite_def resumeEnd_def resumeOwnEnd_def joinCancelEnd_def resolveEnd_def
      sameIntent_def Let_def split: if_splits option.splits)

lemma orphan_keeps: "sameIntent op (orphan op now why)" "opSequence (orphan op now why) = opSequence op + 1"
  by (auto simp: sameIntent_def orphan_def Let_def)

lemma updateRecord_cases:
  assumes "updateRecord now i endf m = Inr (m', op, b)" "keepsIntent endf" "storeOK m"
  obtains (ended) "m' = m" "\<not> b" | (written) cur a where "b" "Get m i = Some cur" "\<not> Terminal cur" "endf cur = Inr a"
    "op = a\<lparr>opSequence := opSequence a + 1, opUpdated := now\<rparr>" "Update now op m = Inr m'" "Get m (opID op) = Some cur" "sameIntent cur op"
proof -
  obtain cur where cur: "Get m i = Some cur" using assms(1) by (auto simp: updateRecord_def split: option.splits)
  show thesis
  proof (cases "Terminal cur")
    case True
    with assms(1) cur show thesis by (intro ended) (auto simp: updateRecord_def)
  next
    case False
    then obtain a where a: "endf cur = Inr a" "op = a\<lparr>opSequence := opSequence a + 1, opUpdated := now\<rparr>" "Update now op m = Inr m'" "b"
      using assms(1) cur by (auto simp: updateRecord_def Let_def split: sum.splits)
    have s: "sameIntent cur op" using assms(2) a(1,2) by (auto simp: keepsIntent_def sameIntent_def)
    have "opID cur = i" using assms(3) keyedD(1) cur by (auto simp: storeOK_def Get_def)
    then have "Get m (opID op) = Some cur" using s cur by (simp add: sameIntent_def)
    then show thesis using a cur False s by (intro written)
  qed
qed

lemma updateRecord_ok:
  assumes "updateRecord now i endf m = Inr (m', op, b)" "keepsIntent endf" "storeOK m"
  shows "keeps m m'"
  using assms
proof (cases rule: updateRecord_cases)
  case ended
  with assms(3) keeps_refl show ?thesis by simp
next
  case (written cur a)
  have fin: "Terminal cur \<Longrightarrow> Terminal op" using written(3) by simp
  note u = written(6,7,8) fin
  show ?thesis by (rule Update_keeps [OF assms(3) u assms(3) u])
qed

lemma shrinks_cong: "moByID a = moByID b \<Longrightarrow> shrinks now a m \<Longrightarrow> shrinks now b m"
proof -
  assume eq: "moByID a = moByID b" and sh: "shrinks now a m"
  from sh show "shrinks now b m" unfolding shrinks_def eq .
qed

lemma fresh_linked:
  assumes "shrinks now (m\<lparr>moByID := fmupd (opID op) op (moByID m)\<rparr>) m'" "\<not> Terminal op" "trOp tr = op"
  shows "linked m' tr"
  unfolding linked_def
proof (intro allI impI)
  fix c assume "Get m' (opID (trOp tr)) = Some c"
  then have "c = op" using shrinksD(1) [OF assms(1), of "opID op" c] assms(3) by (simp add: Get_def)
  with assms(2,3) show "sameIntent c (trOp tr) \<and>
      (trLost tr \<or> opSequence (trOp tr) < opSequence c \<or> opSequence (trOp tr) = opSequence c \<and> \<not> Terminal c)" by simp
qed

lemma beginTracker_ok:
  assumes ok: "storeOK m" and b: "beginTracker now i actor node f ks dir op m = Inr (m', tr)" and ks: "set ks = fset (fmdom (moByID m))"
  shows "storeOK m'" "linked m' tr" "\<not> Terminal (trOp tr)" "opID (trOp tr') \<noteq> i \<Longrightarrow> linked m tr' \<Longrightarrow> linked m' tr'"
proof -
  let ?op = "beginOp now i actor node f op"
  have m': "createRefuses ks dir ?op m = None" "m' = trim now (insertRecord ?op m)" and tr: "trOp tr = ?op"
    using b by (auto simp: beginTracker_def Create_op_def Let_def split: option.splits)
  have i: "opID ?op = i" and live: "\<not> Terminal ?op" by (simp_all add: beginOp_def Terminal_def op_statuses)
  note ins = insert_ok [OF ok m'(1) ks]
  show "storeOK m'" "\<not> Terminal (trOp tr)" using trim_ok(1) [OF ins] m'(2) tr live by simp_all
  have sh: "shrinks now (insertRecord ?op m) m'" using trim_ok(2) [OF ins] m'(2) by simp
  have "shrinks now (m\<lparr>moByID := fmupd (opID ?op) ?op (moByID m)\<rparr>) m'"
    by (rule shrinks_cong [OF _ sh]) (simp add: insertRecord_def)
  then show "linked m' tr" using live tr by (rule fresh_linked)
  show "linked m' tr'" if "opID (trOp tr') \<noteq> i" "linked m tr'"
    unfolding linked_def
  proof (intro allI impI)
    fix c assume "Get m' (opID (trOp tr')) = Some c"
    then have "Get m (opID (trOp tr')) = Some c"
      using shrinksD(1) [OF sh, of "opID (trOp tr')" c] that(1) i by (simp add: Get_def insertRecord_def)
    with that(2) show "sameIntent c (trOp tr') \<and>
        (trLost tr' \<or> opSequence (trOp tr') < opSequence c \<or> opSequence (trOp tr') = opSequence c \<and> \<not> Terminal c)"
      unfolding linked_def by blast
  qed
qed

lemma resumeEnd_live:
  "endf \<in> {resumeEnd to node t, resumeOwnEnd node t, joinCancelEnd now actor to node t True} \<Longrightarrow> endf cur = Inr a \<Longrightarrow> \<not> Terminal a"
  by (auto simp: resumeEnd_def resumeOwnEnd_def joinCancelEnd_def Let_def Terminal_def op_statuses split: if_splits)

lemma plain_update_ok:
  assumes "storeOK m" "Get m i = Some cur" "Update now op m = Inr m'" "sameIntent cur op" "Terminal cur \<Longrightarrow> Terminal op"
  shows "keeps m m'"
proof -
  have "opID cur = i" using assms(1,2) keyedD(1) by (auto simp: storeOK_def Get_def)
  then have cur: "Get m (opID op) = Some cur" using assms(2,4) by (simp add: sameIntent_def)
  note u = assms(3) cur assms(4,5)
  show ?thesis by (rule Update_keeps [OF assms(1) u assms(1) u])
qed

lemma correctCommitted_update:
  assumes "correctCommitted now i actor m = Inr (m', op)"
  obtains cur where "Get m i = Some cur" "Update now op m = Inr m'" "sameIntent cur op" "opStatus op = StatusFailed"
  using assms by (auto simp: correctCommitted_def Let_def sameIntent_def split: option.splits sum.splits)

lemma nextWorker_live: "nextWorker now ttl op req actor = Inr (w, True) \<Longrightarrow> \<not> Terminal op"
  by (auto simp: nextWorker_def split: if_splits option.splits)

lemma applyWorker_cases:
  assumes "applyWorker now ttl i req actor m = Inr (m', w)"
  obtains (same) "m' = m" | (written) cur where "Get m i = Some cur" "\<not> Terminal cur"
    "Update now (cur\<lparr>opWorker := Some w, opSequence := opSequence cur + 1, opUpdated := now\<rparr>) m = Inr m'"
proof -
  obtain cur w' ch where cur: "Get m i = Some cur" "nextWorker now ttl cur req actor = Inr (w', ch)"
    using assms by (auto simp: applyWorker_def split: option.splits sum.splits)
  show thesis
  proof (cases ch)
    case True
    with assms cur nextWorker_live show thesis by (intro written) (auto simp: applyWorker_def split: sum.splits)
  next
    case False
    with assms cur show thesis by (intro same) (auto simp: applyWorker_def)
  qed
qed

lemma correctCommitted_ok: "correctCommitted now i actor m = Inr (m', op) \<Longrightarrow> storeOK m \<Longrightarrow> keeps m m'"
  by (erule correctCommitted_update) (rule plain_update_ok [where i = i], assumption+, simp add: Terminal_def)

lemma applyWorker_ok:
  assumes "applyWorker now ttl i req actor m = Inr (m', w)" "storeOK m"
  shows "keeps m m'"
  using assms(1)
proof (cases rule: applyWorker_cases)
  case same
  with assms(2) keeps_refl show ?thesis by simp
next
  case (written cur)
  show ?thesis by (rule plain_update_ok [OF assms(2) written(1,3)]) (use written(2) in \<open>auto simp: sameIntent_def\<close>)
qed

lemma orphan_ok:
  assumes "Get m i = Some op" "\<not> Terminal op" "Update now (orphan op now why) m = Inr m'" "storeOK m"
  shows "keeps m m'"
  by (rule plain_update_ok [OF assms(4,1,3) orphan_keeps(1)]) (use assms(2) in simp)

lemma resume_ok:
  assumes "updateRecord now i endf m = Inr (m', op, True)" "storeOK m"
    and "endf \<in> {resumeEnd to node t, resumeOwnEnd node t, joinCancelEnd now actor to node t True}"
  shows "linked m' \<lparr>trOp = op, trLost = False, trStartVersion = v\<rparr> \<and> \<not> Terminal op"
proof -
  have k: "keepsIntent endf" using assms(3) by auto
  from assms(1) k assms(2) show ?thesis
  proof (cases rule: updateRecord_cases)
    case (written cur a)
    have live: "\<not> Terminal op" using resumeEnd_live [OF assms(3) written(4)] written(5) by (simp add: Terminal_def)
    have fin: "Terminal cur \<Longrightarrow> Terminal op" using written(3) by simp
    show ?thesis using fresh_linked [OF Update_ok(2) [OF assms(2) written(6,7,8) fin] live] live by simp
  qed simp
qed

lemma controlOK_parts:
  "controlOK (m, ts) \<Longrightarrow> storeOK m" "controlOK (m, ts @ tr # us) \<Longrightarrow> linked m tr" "controlOK (m, ts @ tr # us) \<Longrightarrow> \<not> Terminal (trOp tr)"
  "controlOK (m, ts @ tr # us) \<Longrightarrow> controlOK (m, ts @ us)"
  "controlOK (m, ts @ us) \<Longrightarrow> linked m tr \<Longrightarrow> \<not> Terminal (trOp tr) \<Longrightarrow> controlOK (m, ts @ tr # us)"
  by (auto simp: controlOK_def)

theorem op_step_ok: "op_step s s' \<Longrightarrow> controlOK s \<Longrightarrow> controlOK s'"
proof (induction rule: op_step.induct)
  case (started now i actor node f ks dir op m m' tr ts us)
  note b = beginTracker_ok [OF controlOK_parts(1) [OF started(4)] started(1,2)]
  have "linked m' u \<and> \<not> Terminal (trOp u)" if "u \<in> set (ts @ us)" for u
    using b(4) [of u] started(3,4) that by (auto simp: controlOK_def)
  with b(1) have "controlOK (m', ts @ us)" by (simp add: controlOK_def)
  with b(2,3) show ?case by (intro controlOK_parts(5))
next
  case (wrote now w m tr m' tr' ts us)
  note o = ownerWrite_ok [OF controlOK_parts(1-3) [OF wrote(2)] wrote(1)]
  then have "controlOK (m', ts @ us)" using keeps_control controlOK_parts(4) [OF wrote(2)] by blast
  with o show ?case by (intro controlOK_parts(5)) auto
next
  case (finished now v e m tr m' tr' ts us)
  show ?case
    by (rule keeps_control [OF finish_ok [OF controlOK_parts(1,2) [OF finished(2)] finished(1)] controlOK_parts(4) [OF finished(2)]])
next
  case (answered now v answer m tr m' tr' ts us)
  show ?case
    by (rule keeps_control [OF finishHTTP_ok [OF controlOK_parts(1,2) [OF answered(2)] answered(1)] controlOK_parts(4) [OF answered(2)]])
next
  case (lost m ts tr us)
  have "linked m (tr\<lparr>trLost := True\<rparr>)" by (rule linked_lost [OF controlOK_parts(2) [OF lost]]) auto
  with controlOK_parts(3,4) [OF lost] show ?case by (intro controlOK_parts(5)) auto
next
  case (resume now i endf m m' op b to node t actor ts v)
  have k: "keepsIntent endf" using resume(2) by auto
  have "controlOK (m', ts)"
    by (rule keeps_control [OF updateRecord_ok [OF resume(1) k controlOK_parts(1) [OF resume(3)]] resume(3)])
  moreover have "b \<Longrightarrow> linked m' \<lparr>trOp = op, trLost = False, trStartVersion = v\<rparr> \<and> \<not> Terminal op"
    using resume_ok [OF _ controlOK_parts(1) [OF resume(3)] resume(2)] resume(1) by simp
  ultimately show ?case by (auto simp: controlOK_def)
qed (blast intro: keeps_control updateRecord_ok writers_keep orphan_ok correctCommitted_ok applyWorker_ok controlOK_parts(1))+

lemma newOperations_ok: "controlOK (newOperations limit capacity node, [])"
  by (simp add: controlOK_def storeOK_def exclusive_def keyed_def listed_def newOperations_def)

lemma op_run_ok: "op_step\<^sup>*\<^sup>* (newOperations limit capacity node, []) s \<Longrightarrow> controlOK s"
  by (induction rule: rtranclp_induct) (auto intro: newOperations_ok op_step_ok)

subsection \<open>Keys, evidence, cancellation\<close>

lemma Create_op_replays:
  assumes ok: "storeOK m" and x: "fmlookup (moByID m) i = Some x" "opRequestID x \<noteq> ''''"
    and op: "idEpoch (opIdentity op) = idEpoch (opIdentity x)" "opActor op = opActor x" "opRequestID op = opRequestID x"
    and new: "fmlookup (moByID m) (opID op) = None"
  shows "Create_op now ks dir op m = Inl (replay op x)"
proof -
  have "IdempotencyIndex op = IdempotencyIndex x" using op by (simp add: IdempotencyIndex_def)
  moreover have "fmlookup (moIdem m) (IdempotencyIndex x) = Some i"
    using ok keyedD(2) x by (auto simp: storeOK_def)
  moreover have "\<not> hasKey (moByID m) (opID op)" using new by (auto simp: fmlookup_dom_iff)
  ultimately show ?thesis using x op(3) by (simp add: Create_op_def createRefuses_def)
qed

lemma Create_op_not_nil:
  assumes "storeOK m"
  shows "Create_op now ks dir op m \<noteq> Inl (NilRecord i)"
proof
  assume "Create_op now ks dir op m = Inl (NilRecord i)"
  then have "createRefuses ks dir op m = Some (NilRecord i)" by (simp add: Create_op_def split: option.splits)
  then have "\<exists>x. fmlookup (moIdem m) x = Some i \<and> fmlookup (moByID m) i = None"
    by (auto simp: createRefuses_def replay_def conflict_def checkScope_def Let_def split: if_splits option.splits dest!: firstSome_Some)
       (auto simp: conflictWith_def split: if_splits option.splits)
  with keyedD(3) assms show False by (fastforce simp: storeOK_def)
qed

lemma Create_op_keeps_evidence:
  assumes ok: "storeOK m" and c: "Create_op now ks dir op m = Inr m'" and ks: "set ks = fset (fmdom (moByID m))"
    and x: "fmlookup (moByID m) i = Some x" "\<not> Prunable now x"
  shows "fmlookup (moByID m') i = Some x"
proof -
  have r: "createRefuses ks dir op m = None" "m' = trim now (insertRecord op m)" using c by (auto simp: Create_op_def split: option.splits)
  have "i \<noteq> opID op" using createRefuses_None(1) [OF r(1) ok ks] x(1) by auto
  then have "fmlookup (moByID (insertRecord op m)) i = Some x" using x(1) by (simp add: insertRecord_def)
  with shrinksD(2) [OF trim_ok(2) [OF insert_ok [OF ok r(1) ks], of now]] x(2) show ?thesis by (simp add: r(2))
qed

lemma evidence_not_prunable: "isEvidence x \<Longrightarrow> \<not> Prunable now x"
  by (auto simp: isEvidence_def Prunable_def)

lemma put_ended:
  assumes "Get m (opID (trOp tr)) = Some x" "Terminal x" "opSequence x \<noteq> opSequence (trOp tr)" "\<not> trLost tr"
  shows "fst (put now (m, tr)) = m" "trLost (snd (put now (m, tr)))"
proof -
  let ?op = "(trOp tr)\<lparr>opUpdated := now, opSequence := opSequence (trOp tr) + 1\<rparr>"
  have "Update now ?op m = Inl (StaleSequence (opID (trOp tr)) (opSequence x) (opSequence (trOp tr)))"
    using assms(1,3) by (simp add: Update_def Get_def)
  then show "fst (put now (m, tr)) = m" "trLost (snd (put now (m, tr)))"
    using assms by (simp_all add: put_def Let_def)
qed

lemma put_id: "opID (trOp (snd (put now (m, tr)))) = opID (trOp tr)"
  by (simp add: put_def Let_def mergeStored_def split: sum.split op_error.split option.split)

lemma cancelled_record:
  assumes ok: "storeOK m" and c: "updateRecord now i (cancelEnd actor node t gone) m = Inr (m', op, True)"
    and kept: "Get m' i = Some x" "opKind x \<noteq> OpControlJoin"
  shows "x = op" "opStatus x = StatusCancelled" "opBarrier x = Some b \<Longrightarrow> \<not> bsCommitted b \<and> \<not> bsDispatchStarted b"
    "\<exists>cur. Get m i = Some cur \<and> \<not> Terminal cur \<and> opSequence x = opSequence cur + 1"
proof -
  have "x = op \<and> opStatus x = StatusCancelled \<and> (\<forall>b. opBarrier x = Some b \<longrightarrow> \<not> bsCommitted b \<and> \<not> bsDispatchStarted b) \<and>
    (\<exists>cur. Get m i = Some cur \<and> \<not> Terminal cur \<and> opSequence x = opSequence cur + 1)"
    using c writers_keep(1) ok
  proof (cases rule: updateRecord_cases)
    case (written cur a)
    have fin: "Terminal cur \<Longrightarrow> Terminal op" using written(3) by simp
    have "opID cur = i" using ok keyedD(1) written(2) by (auto simp: storeOK_def Get_def)
    then have i: "opID op = i" using written(8) by (simp add: sameIntent_def)
    have x: "x = op"
      using shrinksD(1) [OF Update_ok(2) [OF ok written(6,7,8) fin], of i x] kept(1) i by (simp add: Get_def)
    have a: "a = cancelWrite actor cur" "notCancellable cur gone = None"
      using written(4) by (auto simp: cancelEnd_def split: if_splits option.splits)
    have "opKind cur \<noteq> OpControlJoin" using x a(1) written(5) kept(2) by (simp add: cancelWrite_def)
    then have "opBarrier cur = Some b \<Longrightarrow> \<not> bsCommitted b \<and> \<not> bsDispatchStarted b" for b
      using a(2) by (auto simp: notCancellable_def split: if_splits)
    then show ?thesis using x a(1) written by (auto simp: cancelWrite_def)
  qed simp
  then show "x = op" "opStatus x = StatusCancelled" "opBarrier x = Some b \<Longrightarrow> \<not> bsCommitted b \<and> \<not> bsDispatchStarted b"
    "\<exists>cur. Get m i = Some cur \<and> \<not> Terminal cur \<and> opSequence x = opSequence cur + 1" by blast+
qed

lemma orphan_ends_mover: "opKind op = OpMover \<Longrightarrow> opStatus (orphan op now why) = StatusFailed"
  by (simp add: orphan_def carriesOn_def resumable_def op_kinds Let_def)

end
