(* ===== verification/Drain.thy ===== *)
theory Drain
  imports Operation_Store
begin

text \<open>
  The drain barrier as the control plane runs it (\<^verbatim>\<open>internal/control/barrier.go\<close> and the version precondition of
  \<^verbatim>\<open>internal/control/ops.go\<close>, ADR-0021 D2): what stands in a barrier's way, the loop that waits until nothing does, and
  the order of the writes around it.

  A run of \<^verbatim>\<open>runBarrier\<close> reads the world at each of its turns; what it reads is an argument (\<^verbatim>\<open>world\<close>), and what it
  does is a list of events in the order it does them. A loop without a deadline is a partial function.
\<close>

subsection \<open>Blockers\<close>

definition BlockerInstallBackpressure :: string where "BlockerInstallBackpressure = ''install_backpressure''"

definition BlockerQuorumUnavailable :: string where "BlockerQuorumUnavailable = ''quorum_unavailable''"

definition blockerOf :: "string \<Rightarrow> string \<Rightarrow> message \<Rightarrow> blocker" where
  "blockerOf code i msg = \<lparr>bkCode = code, bkProxyID = i, bkIncarnation = '''', bkCount = 0, bkMessage = msg\<rparr>"

definition missingText :: "member \<Rightarrow> string \<Rightarrow> message" where
  "missingText m serving =
     (case mbIncarnation m of
        None \<Rightarrow> if mbUnresolved m \<noteq> []
                then (''%s retired with outcomes unknown; resolve its incarnation, then `shunt proxy forget %s`'', [AStr (mbID m), AStr (mbID m)])
                else (''%s has no running process; `shunt proxy forget %s`'', [AStr (mbID m), AStr (mbID m)])
      | Some _ \<Rightarrow> (''%s is silent (last seen %s ago); %s'', [AStr (mbID m), AInt (mbSinceSeen m), AStr serving]))"

definition unresolvedBlocker :: "member \<Rightarrow> incarnation \<Rightarrow> blocker" where
  "unresolvedBlocker m inc =
     \<lparr>bkCode = BlockerIncarnationUnresolved, bkProxyID = mbID m, bkIncarnation = icID inc, bkCount = icUncertain inc,
      bkMessage = (''incarnation %s of %s did not retire cleanly; its backend work may still land (`shunt proxy resolve %s --incarnation %s --attest <why>` once it has ended)'',
        [AStr (icID inc), AStr (mbID m), AStr (mbID m), AStr (icID inc)])\<rparr>"

definition lineageBlocker :: "member \<Rightarrow> blocker" where
  "lineageBlocker m = blockerOf BlockerProxyMissing (mbID m) (''%s is on another directory lineage and must be re-enrolled'', [AStr (mbID m)])"

definition memberBlockers :: "string \<Rightarrow> ack list \<Rightarrow> int \<Rightarrow> barrier_state \<Rightarrow> blocker list" where
  "memberBlockers i acks durable st =
     (case find (\<lambda>a. akID a = bsID st) acks of
        None \<Rightarrow> [blockerOf BlockerInstallPending i (''%s has not installed the hold yet'', [AStr i])]
      | Some a \<Rightarrow>
          if akGeneration a < bsGeneration st \<or> \<not> akClosed a
          then [blockerOf BlockerInstallPending i (''%s acknowledges the hold at generation %d, closed %v; the barrier is at generation %d'',
                  [AStr i, AInt (akGeneration a), ABool (akClosed a), AInt (bsGeneration st)])]
          else
            (if durable < bsHoldVersion st
             then [blockerOf BlockerCacheNotDurable i (''%s's restart cache is at version %d, before the hold's %d'', [AStr i, AInt durable, AInt (bsHoldVersion st)])]
             else []) @
            (if 0 < akUncertain a
             then [(blockerOf BlockerBackendOutcomeUnknown i (''%s never learned the outcome of %d request(s) through this gate; retire and resolve it once the backend is quiet'',
                     [AStr i, AInt (akUncertain a)]))\<lparr>bkCount := akUncertain a\<rparr>]
             else []) @
            (if 0 < akInflight a
             then [(blockerOf BlockerOldRequests i (''%s still has %d request(s) out through this gate'', [AStr i, AInt (akInflight a)]))\<lparr>bkCount := akInflight a\<rparr>]
             else []))"

definition drainMember :: "identity \<Rightarrow> barrier_state \<Rightarrow> member \<Rightarrow> blocker list" where
  "drainMember cur st m =
     map (unresolvedBlocker m) (mbUnresolved m) @
     (if Retired m then []
      else if \<not> mbLive m
      then [blockerOf BlockerProxyMissing (mbID m) (missingText m ''its process may still serve the old routing'')]
      else if mbIdentity m \<noteq> cur then [lineageBlocker m]
      else memberBlockers (mbID m) (mbBarriers m) (mbDurable m) st)"

text \<open>The lab's own proxy, when there is one, is its node name, its acknowledgements and the version on its disk.\<close>

definition drainBlockers :: "member list \<Rightarrow> identity \<Rightarrow> (string \<times> ack list \<times> int) option \<Rightarrow> barrier_state
    \<Rightarrow> (string + blocker list) option \<Rightarrow> string + blocker list" where
  "drainBlockers ms cur gates st extra =
     (let out = concat (map (drainMember cur st) ms) @
                (case gates of None \<Rightarrow> [] | Some (node, acks, version) \<Rightarrow> memberBlockers node acks version st)
      in case extra of
           Some r \<Rightarrow> if out = [] then r else Inr out
         | None \<Rightarrow> Inr out)"

definition versionMember :: "identity \<Rightarrow> int \<Rightarrow> member \<Rightarrow> blocker list" where
  "versionMember cur v m =
     map (unresolvedBlocker m) (mbUnresolved m) @
     (if Retired m then []
      else if \<not> mbLive m
      then [blockerOf BlockerProxyMissing (mbID m) (missingText m ''a proxy cut off before a step would still write every key by the old routing, so every step waits for it until it is back, retires, or its incarnation is resolved'')]
      else if mbIdentity m \<noteq> cur then [lineageBlocker m]
      else if v \<le> mbInstalled m \<and> mbApplied m < v
      then [blockerOf BlockerInstallBackpressure (mbID m) (''%s has installed version %d but its requests still use %d, waiting for long-running requests to release a retired runtime bundle'',
              [AStr (mbID m), AInt (mbInstalled m), AInt (mbApplied m)])]
      else if \<not> Has m cur v
      then [blockerOf BlockerInstallPending (mbID m) (''%s has version %d installed, the directory is at %d; it installs it within a heartbeat once it can reach a control node'',
              [AStr (mbID m), AInt (mbApplied m), AInt v])]
      else [])"

definition versionBlockers :: "member list \<Rightarrow> identity \<Rightarrow> int \<Rightarrow> blocker list" where
  "versionBlockers ms cur v = concat (map (versionMember cur v) ms)"

subsection \<open>The directory's side\<close>

definition carriesBarrier :: "dir_file \<Rightarrow> string \<Rightarrow> string \<Rightarrow> bool" where
  "carriesBarrier f scope i =
     (let b = (case cutPrefix scope ''cluster:'' of
                 Some name \<Rightarrow> clusterBarrier f name
               | None \<Rightarrow>
                   (let key = (if prefix ''placement:'' scope then drop (length ''placement:'') scope else scope);
                        (tenant, bucket, ok) = SplitKey key
                    in case getPlacement f (Key tenant bucket) of None \<Rightarrow> None | Some p \<Rightarrow> pBarrier p))
      in case b of None \<Rightarrow> False | Some b \<Rightarrow> bID b = i)"

definition releaseTransition :: "string \<Rightarrow> transition" where
  "releaseTransition i =
     \<lparr>tTo = '''', tTarget = '''', tName = '''', tRatio = Fin 0, tPrefixes = [], tCutover = None, tHold = False, tRelease = True,
      tComplete = False, tBarrier = i, tRange = None, tLeg = '''', tScope = '''', tShare = Fin 0\<rparr>"

text \<open>The write that undoes an operation's hold: none for an operation without a barrier or of another kind.\<close>

definition releaseHold :: "operation \<Rightarrow> store_op option" where
  "releaseHold op =
     (case opBarrier op of
        None \<Rightarrow> None
      | Some b \<Rightarrow>
          if opKind op = OpRamp \<or> opKind op = OpMigrate
          then (let (tenant, bucket, ok) = SplitKey (opPlacement op) in Some (OpSetState tenant bucket StateRamping (releaseTransition (bsID b))))
          else if opKind op = OpPlacementReadOnly \<or> opKind op = OpClusterReadOnly
          then (let (ro, reject) = (case bsPrior b of None \<Rightarrow> (False, False) | Some r \<Rightarrow> r) in Some (OpReleaseReadOnly (bsScope b) (bsID b) ro reject))
          else if opKind op = OpCutover \<or> opKind op = OpPurge then Some (OpClearBarrier (bsScope b) (bsID b))
          else None)"

subsection \<open>The run of a barrier\<close>

datatype commit_result = CommitGone | CommitDone int bool | CommitFailed string

record world =
  wHoldCheck :: "ending option"
  wHold :: "string + (int \<times> int \<times> int)"
  wCarried :: "string + bool"
  wCheck :: "nat \<Rightarrow> ending option"
  wEval :: "nat \<Rightarrow> string + blocker list"
  wSleep :: "nat \<Rightarrow> bool"
  wDrainedAt :: int
  wCommitCheck :: "nat \<Rightarrow> ending option"
  wCommit :: "nat \<Rightarrow> commit_result"
  wDispatched :: "nat \<Rightarrow> bool"
  wCommitSleep :: "nat \<Rightarrow> bool"
  wCommittedAt :: int

datatype event =
    EvBarrier barrier_state "string list"
  | EvPhase string
  | EvHold
  | EvBlocked "blocker list"
  | EvDrained nat
  | EvCommit nat

datatype run_error = EndedBy ending | RunFailed string

definition quorumBlocker :: "string \<Rightarrow> blocker" where
  "quorumBlocker msg = blockerOf BlockerQuorumUnavailable '''' (''%s'', [AStr msg])"

definition evalBlockers :: "world \<Rightarrow> nat \<Rightarrow> blocker list" where
  "evalBlockers w n = (case wEval w n of Inl msg \<Rightarrow> [quorumBlocker msg] | Inr bs \<Rightarrow> bs)"

partial_function (option) blockUntil :: "world \<Rightarrow> nat \<Rightarrow> event list \<Rightarrow> (run_error option \<times> event list) option" where
  "blockUntil w n evs =
     (case wCheck w n of
        Some e \<Rightarrow> Some (Some (EndedBy e), evs)
      | None \<Rightarrow>
          if evalBlockers w n = [] then Some (None, evs @ [EvBlocked [], EvDrained n])
          else if \<not> wSleep w n
          then Some (Some (RunFailed ''waiting for the barrier''), evs @ [EvBlocked (evalBlockers w n)])
          else blockUntil w (Suc n) (evs @ [EvBlocked (evalBlockers w n)]))"

partial_function (option) commitLoop :: "world \<Rightarrow> nat \<Rightarrow> event list \<Rightarrow> ((run_error + int) \<times> event list) option" where
  "commitLoop w n evs =
     (case wCommit w n of
        CommitGone \<Rightarrow> Some (Inl (EndedBy (Canceled (''the operation was canceled before its change was committed'', []))), evs @ [EvCommit n])
      | CommitDone v already \<Rightarrow> Some (Inr v, evs @ [EvCommit n, EvBlocked []])
      | CommitFailed msg \<Rightarrow>
          if \<not> wDispatched w n then Some (Inl (RunFailed msg), evs @ [EvCommit n])
          else (let evs' = evs @ [EvCommit n, EvBlocked [blockerOf BlockerBackendOutcomeUnknown '''' (''%s'', [AStr msg])]] in
                if \<not> wCommitSleep w n then Some (Inl (RunFailed ''reconciling destructive barrier commit''), evs')
                else case wCommitCheck w (Suc n) of
                       Some e \<Rightarrow> Some (Inl (EndedBy e), evs')
                     | None \<Rightarrow> commitLoop w (Suc n) evs'))"

definition newBarrier :: "string \<Rightarrow> string \<Rightarrow> string \<Rightarrow> (bool \<times> bool) option \<Rightarrow> barrier_state" where
  "newBarrier i scope kind prior =
     \<lparr>bsID = i, bsScope = scope, bsKind = kind, bsHoldVersion = 0, bsGeneration = 0, bsCommitted = False, bsCommitVersion = 0,
      bsDispatchStarted = False, bsHeldAt = 0, bsDrainedAt = 0, bsCommittedAt = 0, bsPrior = prior\<rparr>"

definition commitPhase :: "world \<Rightarrow> barrier_state \<Rightarrow> event list \<Rightarrow> ((run_error + barrier_state) \<times> event list) option" where
  "commitPhase w st evs =
     (let evs = evs @ [EvPhase PhaseCommit] in
      case wCommitCheck w 0 of
        Some e \<Rightarrow> Some (Inl (EndedBy e), evs)
      | None \<Rightarrow>
          (case commitLoop w 0 evs of
             None \<Rightarrow> None
           | Some (Inl e, evs') \<Rightarrow> Some (Inl e, evs')
           | Some (Inr v, evs') \<Rightarrow>
               (let st' = st\<lparr>bsCommitted := True, bsCommitVersion := v, bsCommittedAt := wCommittedAt w\<rparr>
                in Some (Inr st', evs' @ [EvBarrier st' []]))))"

definition drainPhase :: "world \<Rightarrow> barrier_state \<Rightarrow> event list \<Rightarrow> ((run_error + barrier_state) \<times> event list) option" where
  "drainPhase w st evs =
     (if bsCommitted st then Some (Inr st, evs)
      else case wCarried w of
        Inl msg \<Rightarrow> Some (Inl (RunFailed msg), evs)
      | Inr False \<Rightarrow> commitPhase w st evs
      | Inr True \<Rightarrow>
          (case blockUntil w 0 (evs @ [EvPhase PhaseDrain]) of
             None \<Rightarrow> None
           | Some (Some e, evs') \<Rightarrow> Some (Inl e, evs')
           | Some (None, evs') \<Rightarrow> commitPhase w (st\<lparr>bsDrainedAt := wDrainedAt w\<rparr>) evs'))"

definition holdPhase :: "world \<Rightarrow> barrier_state \<Rightarrow> event list \<Rightarrow> ((run_error + barrier_state) \<times> event list) option" where
  "holdPhase w st evs =
     (if bsHoldVersion st \<noteq> 0 then drainPhase w st evs
      else let evs = evs @ [EvPhase PhaseHold] in
        case wHoldCheck w of
          Some e \<Rightarrow> Some (Inl (EndedBy e), evs)
        | None \<Rightarrow>
            (case wHold w of
               Inl msg \<Rightarrow> Some (Inl (RunFailed msg), evs @ [EvHold])
             | Inr (v, g, now) \<Rightarrow>
                 (let st' = st\<lparr>bsHoldVersion := v, bsGeneration := g, bsHeldAt := now\<rparr>
                  in drainPhase w st' (evs @ [EvHold, EvBarrier st' [ActionCancel]]))))"

definition runBarrier :: "world \<Rightarrow> string \<Rightarrow> string \<Rightarrow> string \<Rightarrow> (bool \<times> bool) option \<Rightarrow> barrier_state option
    \<Rightarrow> ((run_error + barrier_state) \<times> event list) option" where
  "runBarrier w i scope kind prior st =
     (case st of
        Some st \<Rightarrow> holdPhase w st []
      | None \<Rightarrow> holdPhase w (newBarrier i scope kind prior) [EvBarrier (newBarrier i scope kind prior) []])"

subsection \<open>What no blocker means\<close>

definition drainedAck :: "barrier_state \<Rightarrow> int \<Rightarrow> ack \<Rightarrow> bool" where
  "drainedAck st durable a \<longleftrightarrow>
     akID a = bsID st \<and> bsGeneration st \<le> akGeneration a \<and> akClosed a \<and> bsHoldVersion st \<le> durable \<and>
     akUncertain a \<le> 0 \<and> akInflight a \<le> 0"

lemma memberBlockers_Nil:
  "memberBlockers i acks durable st = [] \<longleftrightarrow> (\<exists>a. find (\<lambda>a. akID a = bsID st) acks = Some a \<and> drainedAck st durable a)"
proof (cases "find (\<lambda>a. akID a = bsID st) acks")
  case (Some a)
  then have "akID a = bsID st" by (auto simp: find_Some_iff)
  with Some show ?thesis by (auto simp: memberBlockers_def drainedAck_def)
qed (simp add: memberBlockers_def)

definition drainedMember :: "identity \<Rightarrow> barrier_state \<Rightarrow> member \<Rightarrow> bool" where
  "drainedMember cur st m \<longleftrightarrow>
     mbUnresolved m = [] \<and>
     (Retired m \<or> mbLive m \<and> mbIdentity m = cur \<and>
        (\<exists>a. find (\<lambda>a. akID a = bsID st) (mbBarriers m) = Some a \<and> drainedAck st (mbDurable m) a))"

lemma drainMember_Nil: "drainMember cur st m = [] \<longleftrightarrow> drainedMember cur st m"
  by (auto simp: drainMember_def drainedMember_def memberBlockers_Nil)

lemma drainBlockers_Nil:
  "drainBlockers ms cur gates st extra = Inr [] \<longleftrightarrow>
     (\<forall>m \<in> set ms. drainedMember cur st m) \<and>
     (\<forall>node acks v. gates = Some (node, acks, v) \<longrightarrow> (\<exists>a. find (\<lambda>a. akID a = bsID st) acks = Some a \<and> drainedAck st v a)) \<and>
     (extra = None \<or> extra = Some (Inr []))"
  by (auto simp: drainBlockers_def Let_def drainMember_Nil memberBlockers_Nil split: option.splits)

lemma validateAcks_counts:
  assumes "validateAcks acks = None" "a \<in> set acks"
  shows "0 \<le> akInflight a" "0 \<le> akUncertain a" "0 \<le> akGeneration a"
proof -
  obtain k where k: "k < length acks" "acks ! k = a" using assms(2) by (auto simp: in_set_conv_nth)
  then have "(k, a) \<in> set (zip [0..<length acks] acks)" by (auto simp: in_set_zip intro!: exI [of _ k])
  then have "ackError (k, a) = None" using assms(1) by (auto simp: validateAcks_def firstSome_None split: if_splits)
  then show "0 \<le> akInflight a" "0 \<le> akUncertain a" "0 \<le> akGeneration a" by (auto simp: ackError_def)
qed

lemma Members_set: "m \<in> set (Members now fl) \<longleftrightarrow> (\<exists>i. (hasKey (flMembers fl) i \<or> hasKey (flProxies fl) i) \<and> m = memberOf now fl i)"
  by (auto simp: Members_def)

lemma memberOf_record: "mbIncarnation (memberOf now fl i) = mrCurrent (recordAt fl i)" "mbUnresolved (memberOf now fl i) = mrUnresolved (recordAt fl i)"
  by (auto simp: memberOf_def recordAt_def Let_def split: option.splits)

lemma memberOf_live:
  "mbLive (memberOf now fl i) \<longleftrightarrow> (\<exists>pr. fmlookup (flProxies fl) i = Some pr)"
  "fmlookup (flProxies fl) i = Some pr \<Longrightarrow>
     mbIdentity (memberOf now fl i) = hbIdentity (prHeartbeat pr) \<and> mbBarriers (memberOf now fl i) = hbBarriers (prHeartbeat pr) \<and>
     mbDurable (memberOf now fl i) = hbDurable (prHeartbeat pr)"
  by (auto simp: memberOf_def Let_def split: option.splits)

definition reportedDrained :: "fleet \<Rightarrow> identity \<Rightarrow> barrier_state \<Rightarrow> string \<Rightarrow> string \<Rightarrow> bool" where
  "reportedDrained fl cur st i j =
     (case fmlookup (flProxies fl) i of
        None \<Rightarrow> False
      | Some pr \<Rightarrow>
          (let hb = prHeartbeat pr in
           hbIncarnation hb = j \<and> hbIdentity hb = cur \<and> bsHoldVersion st \<le> hbDurable hb \<and>
           list_ex (\<lambda>a. akID a = bsID st \<and> bsGeneration st \<le> akGeneration a \<and> akClosed a \<and> akInflight a = 0 \<and> akUncertain a = 0) (hbBarriers hb)))"

lemma drained_processes:
  assumes ok: "fleetOK (fl, h)" and d: "drainBlockers (Members now fl) cur gates st extra = Inr []"
    and j: "(i, j) \<in> hyStarted h" "(i, j) \<notin> hyEnded h"
  shows "reportedDrained fl cur st i j"
proof -
  let ?r = "recordAt fl i" and ?m = "memberOf now fl i"
  have "recOK (startedOf h i) (endedOf h i) ?r" using ok by (simp add: fleetOK_def recordsOK_def)
  then have u: "j \<in> icID ` set (unproven ?r)" using j by (auto simp: recOK_def startedOf_def endedOf_def)
  then have "hasKey (flMembers fl) i"
    by (cases "fmlookup (flMembers fl) i") (auto simp: recordAt_def zeroRecord_def unproven_def intro: fmdomI)
  then have "?m \<in> set (Members now fl)" unfolding Members_set by blast
  then have m: "drainedMember cur st ?m" using d unfolding drainBlockers_Nil by blast
  then have act: "activeCurrent ?r j" using u by (auto simp: unproven_current drainedMember_def memberOf_record)
  then have "\<not> Retired ?m" by (auto simp: Retired_def memberOf_record activeCurrent_def split: option.splits)
  with m obtain pr where pr: "fmlookup (flProxies fl) i = Some pr" by (auto simp: drainedMember_def memberOf_live(1))
  with m \<open>\<not> Retired ?m\<close> obtain a where a: "find (\<lambda>a. akID a = bsID st) (hbBarriers (prHeartbeat pr)) = Some a"
      "drainedAck st (hbDurable (prHeartbeat pr)) a" "hbIdentity (prHeartbeat pr) = cur"
    by (auto simp: drainedMember_def memberOf_live(2) [OF pr])
  have p: "validateAcks (hbBarriers (prHeartbeat pr)) = None" "hbIncarnation (prHeartbeat pr) = j"
    using ok pr act by (auto simp: fleetOK_def proxiesOK_def)
  have "a \<in> set (hbBarriers (prHeartbeat pr))" using a(1) by (auto simp: find_Some_iff)
  with validateAcks_counts [OF p(1) this] a(2,3) p(2) show ?thesis
    by (auto simp: reportedDrained_def pr Let_def drainedAck_def list_ex_iff intro!: bexI [of _ a])
qed

subsection \<open>The loops\<close>

lemma blockUntil_drained:
  assumes "evalBlockers w k = []" "n \<le> k" "\<And>l. n \<le> l \<Longrightarrow> l \<le> k \<Longrightarrow> wCheck w l = None" "\<And>l. n \<le> l \<Longrightarrow> l < k \<Longrightarrow> wSleep w l"
  shows "\<exists>l evs'. l \<le> k \<and> evalBlockers w l = [] \<and> blockUntil w n evs = Some (None, evs @ evs' @ [EvBlocked [], EvDrained l])"
  using assms
proof (induction "k - n" arbitrary: n evs)
  case 0
  then have "n = k" by simp
  with 0 show ?case by (intro exI [of _ k] exI [of _ "[]"]) (subst blockUntil.simps, auto)
next
  case (Suc d)
  show ?case
  proof (cases "evalBlockers w n = []")
    case True
    with Suc.prems show ?thesis by (intro exI [of _ n] exI [of _ "[]"]) (subst blockUntil.simps, auto)
  next
    case False
    have "Suc n \<le> k" using Suc.hyps(2) by simp
    have "d = k - Suc n" using Suc.hyps(2) by simp
    from Suc.hyps(1) [OF this, of "evs @ [EvBlocked (evalBlockers w n)]"] Suc.prems \<open>Suc n \<le> k\<close>
    obtain l evs' where l: "l \<le> k" "evalBlockers w l = []"
      "blockUntil w (Suc n) (evs @ [EvBlocked (evalBlockers w n)]) = Some (None, (evs @ [EvBlocked (evalBlockers w n)]) @ evs' @ [EvBlocked [], EvDrained l])"
      by auto
    have "n < k" using Suc.hyps(2) by simp
    then have "blockUntil w n evs = blockUntil w (Suc n) (evs @ [EvBlocked (evalBlockers w n)])"
      using Suc.prems(3,4) [of n] False by (subst blockUntil.simps) auto
    with l show ?thesis by (intro exI [of _ l] exI [of _ "EvBlocked (evalBlockers w n) # evs'"]) simp
  qed
qed

lemma blockUntil_sound:
  assumes "blockUntil w n evs = Some r"
  shows "\<exists>new. snd r = evs @ new \<and> (\<forall>k. EvCommit k \<notin> set new) \<and> (fst r = None \<longrightarrow> (\<exists>l. EvDrained l \<in> set new \<and> evalBlockers w l = []))"
proof (rule blockUntil.raw_induct [OF _ assms])
  fix f w n evs r
  assume IH: "\<And>w n evs r. f w n evs = Some r \<Longrightarrow>
      \<exists>new. snd r = evs @ new \<and> (\<forall>k. EvCommit k \<notin> set new) \<and> (fst r = None \<longrightarrow> (\<exists>l. EvDrained l \<in> set new \<and> evalBlockers w l = []))"
    and r: "(case wCheck w n of
        Some e \<Rightarrow> Some (Some (EndedBy e), evs)
      | None \<Rightarrow>
          if evalBlockers w n = [] then Some (None, evs @ [EvBlocked [], EvDrained n])
          else if \<not> wSleep w n
          then Some (Some (RunFailed ''waiting for the barrier''), evs @ [EvBlocked (evalBlockers w n)])
          else f w (Suc n) (evs @ [EvBlocked (evalBlockers w n)])) = Some r"
  show "\<exists>new. snd r = evs @ new \<and> (\<forall>k. EvCommit k \<notin> set new) \<and> (fst r = None \<longrightarrow> (\<exists>l. EvDrained l \<in> set new \<and> evalBlockers w l = []))"
  proof (cases "wCheck w n = None \<and> evalBlockers w n \<noteq> [] \<and> wSleep w n")
    case True
    then have "f w (Suc n) (evs @ [EvBlocked (evalBlockers w n)]) = Some r" using r by simp
    from IH [OF this] show ?thesis by auto
  next
    case False
    with r show ?thesis by (auto split: option.splits if_splits)
  qed
qed

lemma commitLoop_sound:
  assumes "commitLoop w n evs = Some r"
  shows "\<exists>new. snd r = evs @ new"
proof (rule commitLoop.raw_induct [OF _ assms])
  fix f w n evs r
  assume IH: "\<And>w n evs r. f w n evs = Some r \<Longrightarrow> \<exists>new. snd r = evs @ new"
    and r: "(case wCommit w n of
        CommitGone \<Rightarrow> Some (Inl (EndedBy (Canceled (''the operation was canceled before its change was committed'', []))), evs @ [EvCommit n])
      | CommitDone v already \<Rightarrow> Some (Inr v, evs @ [EvCommit n, EvBlocked []])
      | CommitFailed msg \<Rightarrow>
          if \<not> wDispatched w n then Some (Inl (RunFailed msg), evs @ [EvCommit n])
          else (let evs' = evs @ [EvCommit n, EvBlocked [blockerOf BlockerBackendOutcomeUnknown '''' (''%s'', [AStr msg])]] in
                if \<not> wCommitSleep w n then Some (Inl (RunFailed ''reconciling destructive barrier commit''), evs')
                else case wCommitCheck w (Suc n) of
                       Some e \<Rightarrow> Some (Inl (EndedBy e), evs')
                     | None \<Rightarrow> f w (Suc n) evs')) = Some r"
  then show "\<exists>new. snd r = evs @ new"
    by (auto simp: Let_def split: commit_result.splits if_splits option.splits dest!: IH)
qed

definition commitGuarded :: "world \<Rightarrow> barrier_state option \<Rightarrow> event list \<Rightarrow> bool" where
  "commitGuarded w st evs \<longleftrightarrow>
     ((\<exists>l. EvDrained l \<in> set evs \<and> evalBlockers w l = []) \<or> wCarried w = Inr False) \<and>
     (\<exists>b. bsHoldVersion b \<noteq> 0 \<and> (st = Some b \<or> EvBarrier b [ActionCancel] \<in> set evs))"

definition noCommit :: "event list \<Rightarrow> bool" where
  "noCommit evs \<longleftrightarrow> (\<forall>k. EvCommit k \<notin> set evs)"

lemma commitPhase_events:
  assumes "commitPhase w st evs = Some (r, evs')"
  shows "\<exists>new. evs' = evs @ new"
proof (cases "wCommitCheck w 0")
  case None
  then obtain x ys where x: "commitLoop w 0 (evs @ [EvPhase PhaseCommit]) = Some (x, ys)"
    using assms by (auto simp: commitPhase_def Let_def split: option.splits)
  from commitLoop_sound [OF x] obtain new where "ys = evs @ EvPhase PhaseCommit # new" by auto
  with assms None x show ?thesis by (auto simp: commitPhase_def Let_def split: sum.splits)
qed (use assms in \<open>auto simp: commitPhase_def\<close>)

lemma guard_here:
  assumes "evs' = evs @ new" "noCommit evs" "commitGuarded w st evs" "evs' = pre @ EvCommit k # post"
  shows "commitGuarded w st pre"
proof -
  have "length evs \<le> length pre"
  proof (rule ccontr)
    assume "\<not> length evs \<le> length pre"
    then have l: "length pre < length evs" by simp
    have "evs ! length pre = evs' ! length pre" using assms(1) l by (simp add: nth_append)
    also have "\<dots> = EvCommit k" by (simp add: assms(4))
    finally have "EvCommit k \<in> set evs" using l by (metis nth_mem)
    with assms(2) show False by (simp add: noCommit_def)
  qed
  then have "take (length evs) evs' = take (length evs) pre" using assms(4) by simp
  then have "evs = take (length evs) pre" using assms(1) by simp
  then have "set evs \<subseteq> set pre" by (metis set_take_subset)
  with assms(3) show ?thesis unfolding commitGuarded_def by blast
qed

lemma drainPhase_guarded:
  assumes r: "drainPhase w st evs = Some (r, evs')" and n: "noCommit evs"
    and b: "\<exists>b. bsHoldVersion b \<noteq> 0 \<and> (st0 = Some b \<or> EvBarrier b [ActionCancel] \<in> set evs)"
    and at: "evs' = pre @ EvCommit k # post"
  shows "commitGuarded w st0 pre"
proof -
  have none: "False" if "evs' = evs @ new" "noCommit new" for new
    using that n at by (metis Un_iff in_set_conv_decomp noCommit_def set_append)
  show ?thesis
  proof (cases "bsCommitted st \<or> (\<exists>msg. wCarried w = Inl msg)")
    case True
    then have "evs' = evs" using r by (auto simp: drainPhase_def split: if_splits)
    with none [of "[]"] show ?thesis by (simp add: noCommit_def)
  next
    case False
    then consider "wCarried w = Inr False" | "wCarried w = Inr True" by (cases "wCarried w") auto
    then show ?thesis
    proof cases
      case 1
      then have "commitPhase w st evs = Some (r, evs')" using r False by (simp add: drainPhase_def)
      then obtain new where "evs' = evs @ new" using commitPhase_events by blast
      moreover have "commitGuarded w st0 evs" using 1 b by (simp add: commitGuarded_def)
      ultimately show ?thesis using guard_here n at by blast
    next
      case 2
      then obtain e ys where u: "blockUntil w 0 (evs @ [EvPhase PhaseDrain]) = Some (e, ys)"
        using r False by (auto simp: drainPhase_def split: option.splits)
      from blockUntil_sound [OF u] obtain new where new: "ys = evs @ EvPhase PhaseDrain # new" "\<forall>k. EvCommit k \<notin> set new"
          "e = None \<Longrightarrow> \<exists>l. EvDrained l \<in> set new \<and> evalBlockers w l = []" by auto
      show ?thesis
      proof (cases e)
        case None
        then have "commitPhase w (st\<lparr>bsDrainedAt := wDrainedAt w\<rparr>) ys = Some (r, evs')" using r u False 2 by (simp add: drainPhase_def)
        then obtain new' where "evs' = ys @ new'" using commitPhase_events by blast
        moreover have "noCommit ys" using n new(1,2) by (simp add: noCommit_def)
        moreover have "commitGuarded w st0 ys" using b new(1) new(3) [OF None] by (auto simp: commitGuarded_def)
        ultimately show ?thesis using guard_here at by blast
      next
        case (Some x)
        then have "evs' = evs @ EvPhase PhaseDrain # new" using r u False 2 new(1) by (simp add: drainPhase_def)
        with none [of "EvPhase PhaseDrain # new"] new(2) show ?thesis by (simp add: noCommit_def)
      qed
    qed
  qed
qed

lemma holdPhase_guarded:
  assumes r: "holdPhase w st evs = Some (r, evs')" and n: "noCommit evs" and st: "bsHoldVersion st \<noteq> 0 \<Longrightarrow> st0 = Some st"
    and v: "\<And>v g now. wHold w = Inr (v, g, now) \<Longrightarrow> v \<noteq> 0" and at: "evs' = pre @ EvCommit k # post"
  shows "commitGuarded w st0 pre"
proof (cases "bsHoldVersion st \<noteq> 0")
  case True
  then have "drainPhase w st evs = Some (r, evs')" using r by (simp add: holdPhase_def)
  from drainPhase_guarded [OF this n _ at] st [OF True] True show ?thesis by blast
next
  case False
  have none: "False" if "evs' = evs @ new" "noCommit new" for new
    using that n at by (metis Un_iff in_set_conv_decomp noCommit_def set_append)
  show ?thesis
  proof (cases "wHoldCheck w = None \<and> (\<exists>x. wHold w = Inr x)")
    case True
    then obtain x g now where x: "wHold w = Inr (x, g, now)" by auto
    let ?st = "st\<lparr>bsHoldVersion := x, bsGeneration := g, bsHeldAt := now\<rparr>"
    let ?evs = "evs @ [EvPhase PhaseHold, EvHold, EvBarrier ?st [ActionCancel]]"
    have "drainPhase w ?st ?evs = Some (r, evs')" using r False True x by (simp add: holdPhase_def Let_def)
    moreover have "noCommit ?evs" using n by (simp add: noCommit_def)
    moreover have "\<exists>b. bsHoldVersion b \<noteq> 0 \<and> (st0 = Some b \<or> EvBarrier b [ActionCancel] \<in> set ?evs)"
      using v [OF x] by (intro exI [of _ ?st]) simp
    ultimately show ?thesis using drainPhase_guarded at by blast
  next
    case no: False
    then have "evs' = evs @ [EvPhase PhaseHold] \<or> evs' = evs @ [EvPhase PhaseHold, EvHold]"
      using r False by (cases "wHold w") (auto simp: holdPhase_def Let_def split: option.splits)
    then show ?thesis using none [of "[EvPhase PhaseHold]"] none [of "[EvPhase PhaseHold, EvHold]"] by (auto simp: noCommit_def)
  qed
qed

lemma runBarrier_guarded:
  assumes "runBarrier w i scope kind prior st = Some (r, pre @ EvCommit k # post)"
    and "\<And>v g now. wHold w = Inr (v, g, now) \<Longrightarrow> v \<noteq> 0"
  shows "commitGuarded w st pre"
proof (cases st)
  case None
  then have "holdPhase w (newBarrier i scope kind prior) [EvBarrier (newBarrier i scope kind prior) []] = Some (r, pre @ EvCommit k # post)"
    using assms(1) by (simp add: runBarrier_def)
  then show ?thesis by (rule holdPhase_guarded [OF _ _ _ assms(2) refl]) (auto simp: noCommit_def newBarrier_def)
next
  case (Some b)
  then have "holdPhase w b [] = Some (r, pre @ EvCommit k # post)" using assms(1) by (simp add: runBarrier_def)
  then show ?thesis by (rule holdPhase_guarded [OF _ _ _ assms(2) refl]) (auto simp: noCommit_def Some)
qed

subsection \<open>A barrier that can drain commits\<close>

definition quiet_run :: "world \<Rightarrow> nat \<Rightarrow> bool" where
  "quiet_run w k \<longleftrightarrow>
     wHoldCheck w = None \<and> (\<forall>l \<le> k. wCheck w l = None) \<and> (\<forall>l < k. wSleep w l) \<and> wCommitCheck w 0 = None \<and> evalBlockers w k = []"

lemma commitPhase_done:
  assumes "wCommitCheck w 0 = None" "wCommit w 0 = CommitDone v already"
  shows "\<exists>st' evs'. commitPhase w st evs = Some (Inr st', evs') \<and> bsCommitted st' \<and> bsCommitVersion st' = v"
proof -
  have "commitLoop w 0 (evs @ [EvPhase PhaseCommit]) = Some (Inr v, (evs @ [EvPhase PhaseCommit]) @ [EvCommit 0, EvBlocked []])"
    using assms(2) by (subst commitLoop.simps) simp
  then show ?thesis using assms(1) by (simp add: commitPhase_def Let_def)
qed

lemma drainPhase_done:
  assumes "quiet_run w k" "wCarried w = Inr c" "wCommit w 0 = CommitDone v already" "\<not> bsCommitted st"
  shows "\<exists>st' evs'. drainPhase w st evs = Some (Inr st', evs') \<and> bsCommitted st' \<and> bsCommitVersion st' = v"
proof (cases c)
  case True
  from assms(1) obtain ys where "blockUntil w 0 (evs @ [EvPhase PhaseDrain]) = Some (None, ys)"
    using blockUntil_drained [of w k 0 "evs @ [EvPhase PhaseDrain]"] unfolding quiet_run_def by auto
  with assms True commitPhase_done [of w v already "st\<lparr>bsDrainedAt := wDrainedAt w\<rparr>" ys] show ?thesis
    by (simp add: drainPhase_def quiet_run_def)
next
  case False
  with assms commitPhase_done [of w v already st evs] show ?thesis by (simp add: drainPhase_def quiet_run_def)
qed

lemma runBarrier_commits:
  assumes "quiet_run w k" "wHold w = Inr h" "wCarried w = Inr c" "wCommit w 0 = CommitDone v already"
    and "\<And>b. st = Some b \<Longrightarrow> \<not> bsCommitted b"
  shows "\<exists>st' evs. runBarrier w i scope kind prior st = Some (Inr st', evs) \<and> bsCommitted st' \<and> bsCommitVersion st' = v"
proof -
  have hold: "\<exists>st' evs'. holdPhase w b evs = Some (Inr st', evs') \<and> bsCommitted st' \<and> bsCommitVersion st' = v"
    if "\<not> bsCommitted b" for b evs
  proof (cases "bsHoldVersion b \<noteq> 0")
    case True
    with drainPhase_done [OF assms(1,3,4) that] show ?thesis by (simp add: holdPhase_def)
  next
    case False
    obtain x g now where "h = (x, g, now)" by (cases h) auto
    with False drainPhase_done [OF assms(1,3,4)] assms(1,2) that show ?thesis
      by (simp add: holdPhase_def Let_def quiet_run_def)
  qed
  show ?thesis
    by (cases st) (use hold assms(5) in \<open>auto simp: runBarrier_def newBarrier_def\<close>)
qed

end
