(* ===== verification/Fenced_Step.thy ===== *)
theory Fenced_Step
  imports Drain Names Composition S3_Ops
begin

text \<open>
  The fenced steps of \<^verbatim>\<open>src/internal/control/ops.go\<close>: how \<^verbatim>\<open>ramp\<close> and \<^verbatim>\<open>migrate start\<close> change a placement. A step
  that moves writes is written as a hold, drained and completed; one that moves none is written at once. What the
  backends answer is the record \<open>backends\<close>; the directory a call reads and the one its write meets are two files, since
  other writers run in between.
\<close>

subsection \<open>Reading a placement\<close>

definition moving :: "placement \<Rightarrow> placement" where
  "moving p = (case pMove p of Some m \<Rightarrow> MoveView p m | None \<Rightarrow> p)"

definition moveScope :: "placement \<Rightarrow> string" where
  "moveScope p = (case pMove p of Some m \<Rightarrow> mScope m | None \<Rightarrow> '''')"

definition hasLeg :: "placement \<Rightarrow> string \<Rightarrow> bool" where
  "hasLeg p i = hasKey (legsOf p) i"

definition hasLegOn :: "placement \<Rightarrow> string \<Rightarrow> bool" where
  "hasLegOn p cluster = list_ex (\<lambda>i. lCluster (getLeg (legsOf p) i) = cluster) (sortedKeys (legsOf p))"

definition moveRange :: "placement \<Rightarrow> placement \<Rightarrow> hash_range option" where
  "moveRange before after = (case pMove after of Some m \<Rightarrow> Some (mRange m) | None \<Rightarrow> map_option mRange (pMove before))"

definition withDefaultName :: "string \<Rightarrow> placement \<Rightarrow> transition \<Rightarrow> transition" where
  "withDefaultName key p t =
     (if pState p = StateActive \<and> pTarget p = '''' \<and> tTarget t \<noteq> '''' \<and> tName t = '''' \<and> \<not> hasLegOn p (tTarget t)
      then (let (tenant, bucket, ok) = SplitKey key in t\<lparr>tName := BackendName tenant bucket 0\<rparr>)
      else t)"

subsection \<open>Results and refusals\<close>

record transition_result =
  trKey :: string
  trFrom :: string
  trTo :: string
  trVersion :: int
  trPrimary :: string
  trSource :: string
  trRatio :: float64
  trCreatedBucket :: string
  trWarning :: "message option"
  trCutover :: "cutover_evidence option"
  trRange :: "hash_range option"
  trScope :: string
  trHeld :: bool
  trProxies :: int
  trWaitingOn :: "string list"
  trSilent :: "string list"

definition newResult :: "string \<Rightarrow> string \<Rightarrow> string \<Rightarrow> int \<Rightarrow> string \<Rightarrow> transition_result" where
  "newResult key fr to v prim =
     \<lparr>trKey = key, trFrom = fr, trTo = to, trVersion = v, trPrimary = prim, trSource = '''', trRatio = Fin 0, trCreatedBucket = '''',
      trWarning = None, trCutover = None, trRange = None, trScope = '''', trHeld = False, trProxies = 0, trWaitingOn = [], trSilent = []\<rparr>"

datatype step_error =
    StepRefused message
  | StepMissing message
  | StepVanished message
  | StepApply apply_error
  | StepStore store_error
  | StepBackend string

definition resultOf :: "string \<Rightarrow> string \<Rightarrow> placement \<Rightarrow> int \<Rightarrow> transition_result" where
  "resultOf key fr p v =
     (let pv = moving p in
      (newResult key fr (pState p) v (ClusterOf pv (pPrimary pv)))
        \<lparr>trSource := if pSource pv \<noteq> '''' then ClusterOf pv (pSource pv) else '''',
         trRatio := (case pRamp pv of Some r \<Rightarrow> rRatio r | None \<Rightarrow> Fin 0), trCutover := pCutover pv\<rparr>)"

definition stepInForce :: "placement \<Rightarrow> transition \<Rightarrow> bool" where
  "stepInForce p t =
     (let pv = moving p in
      if Held pv then False
      else if tTo t = StateMigrating then pState pv = StateMigrating
      else if tTo t = StateRamping then
        (case pRamp pv of
           None \<Rightarrow> False
         | Some r \<Rightarrow> pState pv = StateRamping \<and> \<not> flt (rRatio r) (tRatio t) \<and> set (tPrefixes t) \<subseteq> set (rPrefixes r))
      else False)"

definition holdText :: "ramp_hold \<Rightarrow> message" where
  "holdText h =
     (if fle (Fin 1) (hRatio h) then (''every key (ratio 1)'', [])
      else if hPrefixes h = [] then (''ratio %v'', [AFloat (hRatio h)])
      else (''ratio %v, prefixes %s'', [AFloat (hRatio h), AStrs (hPrefixes h)]))"

definition sharedBucket :: "string \<Rightarrow> string \<Rightarrow> string \<Rightarrow> string \<Rightarrow> step_error" where
  "sharedBucket cluster name other what = StepRefused
     (''bucket %s on %s is client bucket %s's backend bucket, and two client buckets never share one (each would see the other's objects); %s'',
      [AStr name, AStr cluster, AStr other, AStr what])"

definition LostWriteWindow :: "string \<Rightarrow> string \<Rightarrow> message" where
  "LostWriteWindow key cluster =
     (''%s: target cluster %s has capabilities.conditional_write: false (it ignores If-None-Match: * on PUT), '' @
      ''so the mover falls back to HEAD-then-commit. A client write that lands between the mover's HEAD and its PUT '' @
      ''is overwritten with the source's older bytes, after the client was told 200, and nothing reports it '' @
      ''(one round trip per copied object; ADR-0004 race 2). '' @
      ''Quiesce writers for the mover run, or ramp to 1 and run the mover at low write volume; see docs/migrating.md'',
      [AStr key, AStr cluster])"

definition RefuseLostWriteWindow :: "string \<Rightarrow> string \<Rightarrow> message" where
  "RefuseLostWriteWindow key cluster =
     (let (fmt, as) = LostWriteWindow key cluster in (fmt @ ''. To start anyway, re-run with --accept-lost-write-window'', as))"

subsection \<open>What the backends answer\<close>

record backends =
  beKnown :: "string \<Rightarrow> bool"
  beExists :: "string \<Rightarrow> string \<Rightarrow> string + bool"
  beCreate :: "string \<Rightarrow> string \<Rightarrow> string option"
  beFirstKey :: "string \<Rightarrow> string \<Rightarrow> string + string option"
  beProbe :: "string \<Rightarrow> string \<Rightarrow> string + bool \<times> bool"
  beVersioning :: "string \<Rightarrow> string \<Rightarrow> string + string"

definition backendFor :: "backends \<Rightarrow> string \<Rightarrow> step_error option" where
  "backendFor be name =
     (if beKnown be name then None
      else Some (StepMissing (''no cluster named %q (shunt status lists the clusters)'', [AStr name])))"

definition targetEmpty :: "backends \<Rightarrow> string \<Rightarrow> string \<Rightarrow> string \<Rightarrow> step_error option" where
  "targetEmpty be cluster bucket override =
     (case beFirstKey be cluster bucket of
        Inl e \<Rightarrow> Some (StepBackend e)
      | Inr None \<Rightarrow> None
      | Inr (Some k) \<Rightarrow> Some (StepRefused
          (''bucket %s on %s already holds objects (the first is %q); a move into it would mix them into this bucket and could let one win over this bucket's own object of the same key: use an empty bucket or a new name, empty it, or, if they are this bucket's objects copied ahead, use %s'',
           [AStr bucket, AStr cluster, AStr (DecodeListingKey k), AStr override])))"

definition refuseVersioned :: "backends \<Rightarrow> string \<Rightarrow> string \<Rightarrow> string \<Rightarrow> step_error option" where
  "refuseVersioned be cluster role bucket =
     (case beVersioning be cluster bucket of
        Inl e \<Rightarrow> Some (StepRefused (''refused: cannot read versioning of %s bucket %s on %s: %v'', [AStr role, AStr bucket, AStr cluster, AStr e]))
      | Inr st \<Rightarrow>
          if st \<noteq> ''''
          then Some (StepRefused (''refused: %s bucket %s on %s has versioning %s; versioned buckets cannot be migrated (docs/DESIGN.md '' @ [CHR 0xC2, CHR 0xA7] @ ''9 item 4)'',
                      [AStr role, AStr bucket, AStr cluster, AStr st]))
          else None)"

text \<open>Measuring a cluster whose conditional-write profile is only assumed writes it to the directory.\<close>

definition measured :: "capabilities \<Rightarrow> bool \<times> bool \<Rightarrow> capabilities" where
  "measured c m = c\<lparr>capConditionalWrite := (case capConditionalWrite c of None \<Rightarrow> Some (fst m) | Some b \<Rightarrow> Some b),
                    capConditionalDelete := (case capConditionalDelete c of None \<Rightarrow> Some (snd m) | Some b \<Rightarrow> Some b)\<rparr>"

definition measureConditionals ::
  "backends \<Rightarrow> identity option \<Rightarrow> string \<Rightarrow> string \<Rightarrow> dir_file \<Rightarrow> (step_error + capabilities option) \<times> dir_file" where
  "measureConditionals be drawn cluster bucket g =
     (case fmlookup (fClusters g) cluster of
        None \<Rightarrow> (Inl (StepMissing (''cluster %s'', [AStr cluster])), g)
      | Some cl \<Rightarrow>
          if capConditionalWrite (cCapabilities cl) \<noteq> None \<and> capConditionalDelete (cCapabilities cl) \<noteq> None then (Inr None, g)
          else case beProbe be cluster bucket of
            Inl e \<Rightarrow> (Inl (StepRefused (''measuring conditional writes on %s/%s failed: %v; set --conditional-write and --conditional-delete on the cluster instead'',
                        [AStr cluster, AStr bucket, AStr e])), g)
          | Inr m \<Rightarrow>
              (let caps = measured (cCapabilities cl) m in
               case nextFile drawn (OpPutCluster cluster (cl\<lparr>cCapabilities := caps\<rparr>) '''') g of
                 Inl e \<Rightarrow> (Inl (StepStore e), g)
               | Inr g' \<Rightarrow> (Inr (Some caps), g')))"

subsection \<open>One transition\<close>

text \<open>A repeated target of a later step is dropped, a different one refused.\<close>

definition laterTarget :: "string \<Rightarrow> placement \<Rightarrow> transition \<Rightarrow> step_error + transition" where
  "laterTarget key p t =
     (let pv = moving p; cl = ClusterOf pv (pPrimary pv) in
      if pState p \<noteq> StateActive \<and> tTarget t \<noteq> '''' then
        if tTarget t \<noteq> cl
        then Inl (StepRefused (''%s is already moving to %s; a different target needs a reconcile, not a ramp step'', [AStr key, AStr cl]))
        else Inr (t\<lparr>tTarget := '''', tName := ''''\<rparr>)
      else Inr t)"

definition capsOf :: "dir_file \<Rightarrow> string \<Rightarrow> capabilities" where
  "capsOf f cluster =
     (case fmlookup (fClusters f) cluster of
        Some cl \<Rightarrow> cCapabilities cl
      | None \<Rightarrow> \<lparr>capEnforcesSHA256 = None, capUnsignedTrailer = None, capConditionalWrite = None, capConditionalDelete = None\<rparr>)"

definition judged :: "placement \<Rightarrow> placement \<Rightarrow> placement" where
  "judged p full = (if pMove full = None \<and> pMove p \<noteq> None then moving p else moving full)"

definition stepResult :: "string \<Rightarrow> placement \<Rightarrow> placement \<Rightarrow> transition_result" where
  "stepResult key p full =
     (let np = judged p full in
      (newResult key (pState p) (pState full) 0 (ClusterOf np (pPrimary np)))
        \<lparr>trSource := if pSource np \<noteq> '''' then ClusterOf np (pSource np) else '''',
         trRange := if pMove p \<noteq> None \<or> pMove full \<noteq> None then moveRange p full else None,
         trScope := if pMove p \<noteq> None \<or> pMove full \<noteq> None then (if pMove full = None then moveScope p else moveScope full) else '''',
         trRatio := (case pRamp np of Some r \<Rightarrow> rRatio r | None \<Rightarrow> Fin 0)\<rparr>)"

definition lossWindow :: "placement \<Rightarrow> placement \<Rightarrow> dir_file \<Rightarrow> string \<Rightarrow> bool" where
  "lossWindow p full f dst \<longleftrightarrow>
     pState full = StateMigrating \<and> pState p \<noteq> StateMigrating \<and> \<not> ConditionalWriteOr (capsOf f dst) True"

definition acceptedLoss :: "string \<Rightarrow> string \<Rightarrow> message" where
  "acceptedLoss key dst = (let (fmt, as) = RefuseLostWriteWindow key dst in (''accepted with accept_lost_write_window: '' @ fmt, as))"

text \<open>The checks of a first step on its destination, in the order of the source: what they create and measure.\<close>

definition prepareTarget ::
  "backends \<Rightarrow> identity option \<Rightarrow> string list \<Rightarrow> string \<Rightarrow> placement \<Rightarrow> placement \<Rightarrow> dir_file \<Rightarrow> bool \<Rightarrow> dir_file \<Rightarrow>
   (step_error + string \<times> capabilities option) \<times> dir_file" where
  "prepareTarget be drawn order key p np f create g =
     (let dst = ClusterOf np (pPrimary np); name = getStr (namesOf np) (pPrimary np); other = BucketUser order f dst name key in
      if other \<noteq> ''''
      then (Inl (sharedBucket dst name other ''name a bucket no other bucket uses (--name); the step creates it with --create''), g)
      else case backendFor be dst of
        Some e \<Rightarrow> (Inl e, g)
      | None \<Rightarrow>
          (let made =
             (case beExists be dst name of
                Inl e \<Rightarrow> Inl (StepBackend e)
              | Inr False \<Rightarrow>
                  if \<not> create
                  then Inl (StepRefused (''bucket %s does not exist on %s; create it there, or ask for it to be created (--create)'', [AStr name, AStr dst]))
                  else (case beCreate be dst name of Some e \<Rightarrow> Inl (StepBackend e) | None \<Rightarrow> Inr name)
              | Inr True \<Rightarrow>
                  if pTarget p = '''' \<and> \<not> hasLeg p (pPrimary np)
                  then (case targetEmpty be dst name ''expand, which can accept them (--accept-existing-objects), before the first step'' of
                          Some e \<Rightarrow> Inl e | None \<Rightarrow> Inr '''')
                  else Inr '''')
           in case made of
                Inl e \<Rightarrow> (Inl e, g)
              | Inr created \<Rightarrow>
                  (case measureConditionals be drawn dst name g of
                     (Inl e, g') \<Rightarrow> (Inl e, g')
                   | (Inr caps, g') \<Rightarrow> (Inr (created, caps), g'))))"

definition versionedSide :: "backends \<Rightarrow> placement \<Rightarrow> string \<times> string \<Rightarrow> step_error option" where
  "versionedSide be np side =
     (case side of (role, leg) \<Rightarrow>
        (case backendFor be (ClusterOf np leg) of
           Some e \<Rightarrow> Some e
         | None \<Rightarrow> refuseVersioned be (ClusterOf np leg) role (getStr (namesOf np) leg)))"

text \<open>The directory's own write, and what the answer reads of it.\<close>

definition writeState :: "identity option \<Rightarrow> string \<Rightarrow> string \<Rightarrow> transition \<Rightarrow> transition_result \<Rightarrow> dir_file \<Rightarrow>
  (step_error + transition_result) \<times> dir_file" where
  "writeState drawn key fr t res g =
     (case SplitKey key of (tenant, bucket, ok) \<Rightarrow>
      case nextFile drawn (OpSetState tenant bucket fr t) g of
        Inl e \<Rightarrow> (Inl (StepStore e), g)
      | Inr g' \<Rightarrow>
          (Inr (res\<lparr>trVersion := fVersion g',
                    trCutover := (case getPlacement g' (Key tenant bucket) of Some a \<Rightarrow> pCutover (moving a) | None \<Rightarrow> trCutover res)\<rparr>), g'))"

text \<open>The rest of a transition, once its target is prepared: the measured profile, the versioning of both sides, the write.\<close>

definition checkedWrite ::
  "backends \<Rightarrow> identity option \<Rightarrow> string \<Rightarrow> placement \<Rightarrow> placement \<Rightarrow> bool \<Rightarrow> transition \<Rightarrow> bool \<Rightarrow> string \<times> capabilities option \<Rightarrow>
   dir_file \<Rightarrow> (step_error + transition_result) \<times> dir_file" where
  "checkedWrite be drawn key p full loss t acceptLoss prepared g =
     (let np = judged p full; dst = ClusterOf np (pPrimary np);
          late = (case snd prepared of None \<Rightarrow> False | Some c \<Rightarrow> \<not> ConditionalWriteOr c True \<and> pState full = StateMigrating \<and> \<not> loss)
      in if late \<and> \<not> acceptLoss then (Inl (StepRefused (RefuseLostWriteWindow key dst)), g)
         else case (if pState full = StateRamping \<or> pState full = StateMigrating
                    then firstSome (versionedSide be np) [(''source'', pSource np), (''primary'', pPrimary np)] else None) of
                Some e \<Rightarrow> (Inl e, g)
              | None \<Rightarrow>
                  writeState drawn key (pState p) t
                    ((stepResult key p full)\<lparr>trWarning := if loss \<or> late then Some (acceptedLoss key dst) else None, trCreatedBucket := fst prepared\<rparr>) g)"

definition transitionStep ::
  "backends \<Rightarrow> identity option \<times> identity option \<Rightarrow> string list \<Rightarrow> string \<Rightarrow> placement \<Rightarrow> dir_file \<Rightarrow> transition \<Rightarrow> bool \<Rightarrow> bool \<Rightarrow>
   dir_file \<Rightarrow> (step_error + transition_result) \<times> dir_file" where
  "transitionStep be drawn order key p f t create acceptLoss g =
     (case laterTarget key p (withDefaultName key p t) of
        Inl e \<Rightarrow> (Inl e, g)
      | Inr t \<Rightarrow>
     (case Apply p t of
        Inl e \<Rightarrow> (Inl (StepApply e), g)
      | Inr full \<Rightarrow>
     (let np = judged p full; dst = ClusterOf np (pPrimary np); loss = lossWindow p full f dst in
      if loss \<and> \<not> acceptLoss then (Inl (StepRefused (RefuseLostWriteWindow key dst)), g)
      else case (if pState p = StateActive then prepareTarget be (fst drawn) order key p np f create g else (Inr ('''', None), g)) of
             (Inl e, g) \<Rightarrow> (Inl e, g)
           | (Inr prepared, g) \<Rightarrow> checkedWrite be (snd drawn) key p full loss t acceptLoss prepared g)))"

subsection \<open>The fenced step\<close>

text \<open>Nothing in force but the hold: the step is still one from ACTIVE.\<close>

definition stepFrom :: "placement \<Rightarrow> string" where
  "stepFrom p =
     (if Held p \<and> (case pRamp (moving p) of Some r \<Rightarrow> feq (rRatio r) (Fin 0) \<and> rPrefixes r = [] | None \<Rightarrow> False)
      then StateActive else pState p)"

definition stepMoves :: "placement \<Rightarrow> transition \<Rightarrow> bool" where
  "stepMoves p t \<longleftrightarrow>
     tTo t = StateRamping \<or>
     tTo t = StateMigrating \<and>
       (pState p \<noteq> StateRamping \<or> Held p \<or> (case pRamp (moving p) of None \<Rightarrow> True | Some r \<Rightarrow> flt (rRatio r) (Fin 1)))"

definition heldBy :: "placement \<Rightarrow> string \<Rightarrow> bool" where
  "heldBy p i \<longleftrightarrow> Held p \<and> (case pBarrier p of None \<Rightarrow> False | Some b \<Rightarrow> bID b = i)"

definition stepRefuses :: "string \<Rightarrow> string \<Rightarrow> placement \<Rightarrow> dir_file \<Rightarrow> transition \<Rightarrow> bool \<Rightarrow> step_error option" where
  "stepRefuses i key p f t acceptLoss =
     (if Held p then
        if heldBy p i then None
        else (let (fmt, as) = (case pRamp (moving p) of
                                 Some r \<Rightarrow> (case rHold r of Some h \<Rightarrow> holdText h | None \<Rightarrow> ('''', []))
                               | None \<Rightarrow> ('''', []));
                  own = (case pBarrier p of None \<Rightarrow> ''an earlier call'' | Some b \<Rightarrow> ''operation '' @ bID b)
              in Some (StepRefused (''%s has a held step to '' @ fmt @ '' left by %s; resume or cancel that operation (`shunt operation show`) before another step'',
                                    AStr key # as @ [AStr own])))
      else case Apply p (withDefaultName key p t) of
        Inl e \<Rightarrow> Some (StepApply e)
      | Inr np \<Rightarrow>
          (let nv = moving np; dst = ClusterOf nv (pPrimary nv) in
           if pState np = StateMigrating \<and> \<not> ConditionalWriteOr (capsOf f dst) True \<and> \<not> acceptLoss
           then Some (StepRefused (RefuseLostWriteWindow key dst)) else None))"

definition completeOf :: "transition \<Rightarrow> transition" where
  "completeOf t = t\<lparr>tTarget := '''', tName := '''', tComplete := True, tRange := None, tLeg := '''', tScope := ''''\<rparr>"

definition holdOf :: "string \<Rightarrow> transition \<Rightarrow> transition" where
  "holdOf i t = t\<lparr>tHold := True, tBarrier := i\<rparr>"

text \<open>What the fenced step decides from the directory it read: a refusal, a write at once, or a barrier.\<close>

datatype step_plan = PlanRefuse step_error | PlanDirect placement | PlanBarrier string

definition stepPlan :: "bool \<Rightarrow> string \<Rightarrow> string \<Rightarrow> dir_file \<Rightarrow> transition \<Rightarrow> bool \<Rightarrow> step_plan" where
  "stepPlan resumed i key f t acceptLoss =
     (case getPlacement f key of
        None \<Rightarrow> PlanRefuse (StepMissing (''no bucket %s in the directory'', [AStr key]))
      | Some p \<Rightarrow>
          if resumed then PlanBarrier (stepFrom p)
          else if \<not> stepMoves p t then PlanDirect p
          else case stepRefuses i key p f t acceptLoss of
                 Some e \<Rightarrow> PlanRefuse e
               | None \<Rightarrow> PlanBarrier (stepFrom p))"

text \<open>The two closures of its barrier. A missing placement reads as Go's zero value in the hold.\<close>

definition holdStep ::
  "backends \<Rightarrow> identity option \<times> identity option \<Rightarrow> string list \<Rightarrow> string \<Rightarrow> string \<Rightarrow> transition \<Rightarrow> bool \<Rightarrow> bool \<Rightarrow> dir_file \<Rightarrow> dir_file \<Rightarrow>
   (step_error + int \<times> string) \<times> dir_file" where
  "holdStep be drawn order i key t create acceptLoss f1 g =
     (let p1 = (case getPlacement f1 key of Some p \<Rightarrow> p | None \<Rightarrow> zeroPlacement) in
      if heldBy p1 i then (Inr (fVersion f1, ''''), g)
      else case transitionStep be drawn order key p1 f1 (holdOf i t) create acceptLoss g of
             (Inl e, g') \<Rightarrow> (Inl e, g')
           | (Inr res, g') \<Rightarrow> (Inr (trVersion res, trCreatedBucket res), g'))"

datatype commit_outcome = OutGone | OutError step_error | OutAlready transition_result | OutDone transition_result

definition commitStep ::
  "backends \<Rightarrow> identity option \<times> identity option \<Rightarrow> string list \<Rightarrow> string \<Rightarrow> string \<Rightarrow> string \<Rightarrow> transition \<Rightarrow> bool \<Rightarrow> dir_file \<Rightarrow> dir_file \<Rightarrow>
   commit_outcome \<times> dir_file" where
  "commitStep be drawn order i key fr t acceptLoss f2 g =
     (case getPlacement f2 key of
        None \<Rightarrow> (OutError (StepVanished (''%s vanished while its step was held'', [AStr key])), g)
      | Some p2 \<Rightarrow>
          if \<not> heldBy p2 i
          then (if stepInForce p2 t then (OutAlready (resultOf key fr p2 (fVersion f2)), g) else (OutGone, g))
          else case transitionStep be drawn order key p2 f2 (completeOf t) False acceptLoss g of
                 (Inl e, g') \<Rightarrow> (OutError e, g')
               | (Inr res, g') \<Rightarrow> (OutDone res, g'))"

definition stepText :: "step_error \<Rightarrow> string" where
  "stepText e =
     (case e of
        StepRefused m \<Rightarrow> fst m | StepMissing m \<Rightarrow> fst m | StepVanished m \<Rightarrow> fst m
      | StepApply _ \<Rightarrow> ''transition'' | StepStore _ \<Rightarrow> ''store'' | StepBackend e \<Rightarrow> e)"

text \<open>The files each closure meets: what its read sees, and what its write finds.\<close>

record step_files =
  sfHold :: "dir_file \<times> dir_file"
  sfCarried :: dir_file
  sfCommit :: "nat \<Rightarrow> dir_file \<times> dir_file"

definition commitResult :: "commit_outcome \<Rightarrow> commit_result" where
  "commitResult r =
     (case r of
        OutGone \<Rightarrow> CommitGone
      | OutError e \<Rightarrow> CommitFailed (stepText e)
      | OutAlready res \<Rightarrow> CommitDone (trVersion res) True
      | OutDone res \<Rightarrow> CommitDone (trVersion res) False)"

definition fencedWorld ::
  "backends \<Rightarrow> identity option \<times> identity option \<Rightarrow> string list \<Rightarrow> string \<Rightarrow> string \<Rightarrow> string \<Rightarrow> transition \<Rightarrow> bool \<Rightarrow> bool \<Rightarrow> step_files \<Rightarrow>
   int \<Rightarrow> world \<Rightarrow> world" where
  "fencedWorld be drawn order i key fr t create acceptLoss sf heldAt w =
     w\<lparr>wHold :=
         (case holdStep be drawn order i key t create acceptLoss (fst (sfHold sf)) (snd (sfHold sf)) of
            (Inl e, g) \<Rightarrow> Inl (stepText e)
          | (Inr (v, created), g) \<Rightarrow> Inr (v, Generation g (PlacementResource key), heldAt)),
       wCarried := Inr (carriesBarrier (sfCarried sf) (PlacementResource key) i),
       wCommit := (\<lambda>n. commitResult (fst (commitStep be drawn order i key fr t acceptLoss (fst (sfCommit sf n)) (snd (sfCommit sf n))))),
       wDispatched := (\<lambda>_. False)\<rparr>"

datatype step_outcome =
    StepEnded run_error
  | StepFailed step_error
  | StepWritten "(step_error + transition_result) \<times> dir_file"
  | StepBarrier "(run_error + barrier_state) \<times> event list"

text \<open>The whole step. A resumed one has a barrier on its record and goes on from there; a new one first waits for the
  version it read to be on every proxy, the loop of the world \<open>wp\<close>.\<close>

definition runPlan ::
  "backends \<Rightarrow> identity option \<times> identity option \<Rightarrow> string list \<Rightarrow> string \<Rightarrow> string \<Rightarrow> transition \<Rightarrow> bool \<Rightarrow> bool \<Rightarrow> dir_file \<Rightarrow> step_files \<Rightarrow>
   int \<Rightarrow> world \<Rightarrow> barrier_state option \<Rightarrow> step_outcome option" where
  "runPlan be drawn order i key t create acceptLoss f sf heldAt w st =
     (case stepPlan (st \<noteq> None) i key f t acceptLoss of
        PlanRefuse e \<Rightarrow> Some (StepFailed e)
      | PlanDirect p \<Rightarrow>
          (case wHoldCheck w of
             Some e \<Rightarrow> Some (StepEnded (EndedBy e))
           | None \<Rightarrow> Some (StepWritten (transitionStep be drawn order key p f t create acceptLoss (snd (sfHold sf)))))
      | PlanBarrier fr \<Rightarrow>
          map_option StepBarrier
            (runBarrier (fencedWorld be drawn order i key fr t create acceptLoss sf heldAt w) i (PlacementResource key) BarrierMutations None st))"

definition fencedStep ::
  "backends \<Rightarrow> identity option \<times> identity option \<Rightarrow> string list \<Rightarrow> string \<Rightarrow> string \<Rightarrow> transition \<Rightarrow> bool \<Rightarrow> bool \<Rightarrow> dir_file \<Rightarrow> step_files \<Rightarrow>
   int \<Rightarrow> world \<Rightarrow> world \<Rightarrow> barrier_state option \<Rightarrow> step_outcome option" where
  "fencedStep be drawn order i key t create acceptLoss f sf heldAt wp w st =
     (if st \<noteq> None \<or> getPlacement f key = None then runPlan be drawn order i key t create acceptLoss f sf heldAt w st
      else case blockUntil wp 0 [EvPhase PhasePrecondition] of
             None \<Rightarrow> None
           | Some (Some e, evs) \<Rightarrow> Some (StepEnded e)
           | Some (None, evs) \<Rightarrow> runPlan be drawn order i key t create acceptLoss f sf heldAt w st)"

subsection \<open>A step from a full ramp\<close>

lemma applyPlain_full_writes:
  assumes step: "applyPlain v t = Inr nv" "\<not> tHold t" "tTo t = StateMigrating"
    and v: "pState v = StateRamping" "pSource v \<noteq> ''''"
    and r: "pRamp v = Some r" "rHash r = RampHash" "fle (Fin 1) (rRatio r)"
    and key: "in_limits (rRange r) key" and acc: "acceptsWrite v key = Some b"
  shows "pState nv = StateMigrating" "acceptsWrite nv key = Some b"
proof -
  have m: "pState nv = StateMigrating" "same_roles v nv"
    by (rule applyPlain_ramping [OF step(1,2) v(1)]; use step(3) in simp)+
  show "pState nv = StateMigrating" by (rule m(1))
  have "by_ratio (rRange r) (rRatio r) key" using r(3) by (cases "rRatio r") (auto simp: by_ratio_def fle_def)
  then have "in_ramp (rRange r) (rRatio r) (rPrefixes r) key" using key by (simp add: in_ramp_def)
  then have "b = sideBucket v Primary" using acceptsWrite_ramping [OF v r(1,2)] acc by simp
  then show "acceptsWrite nv key = Some b" using acceptsWrite_settled [of nv key] m same_roles_bucket [OF m(2)] by simp
qed

lemma full_move:
  assumes p: "spread_ok p" "pMove p = Some m" "pState p = StateRamping" "mRamp m = Some r" "fle (Fin 1) (rRatio r)"
    and step: "applyPlain (MoveView p m) t = Inr nv" "\<not> tHold t" "tTo t = StateMigrating" and acc: "placeWrite p key = Some b"
  shows "placeWrite (moveDone p m t nv) key = Some b"
proof -
  let ?r = "r\<lparr>rRange := Some (mRange m)\<rparr>"
  have r: "pRamp (MoveView p m) = Some ?r" "rHash ?r = RampHash" "fle (Fin 1) (rRatio ?r)"
    using p by (simp_all add: limitRamp_def spread_ok_def ramp_ok_def)
  have src: "pSource (MoveView p m) \<noteq> ''''"
    using p(1,2) spread_ok_leg [OF p(1)] by (auto simp: spread_ok_def checkV2_None move_ok_def simp del: hasKey_iff)
  have st: "pState nv \<noteq> StateActive" "same_roles (MoveView p m) nv"
    by (rule applyPlain_ramping [OF step(1,2)]; use p(3) in simp)+
  note eq = moveDone_step [OF p(1,2) st, of t key]
  show ?thesis
  proof (cases "InMove p key")
    case True
    then have k: "in_limits (rRange ?r) key" using p(2) by (auto simp: InMove_def InRangeHash_def in_limits_def Let_def)
    have "acceptsWrite (MoveView p m) key = Some b" using placeWrite_spread [OF p(1,2), of key] True acc by simp
    note w = applyPlain_full_writes [OF step _ src r k this, simplified, OF p(3)]
    then show ?thesis using True acceptsWrite_settled [of nv key] acceptsWrite_settled [of "limitTo (Some (mRange m)) nv" key] by (simp add: eq)
  qed (use acc placeWrite_spread [OF p(1,2)] in \<open>simp add: eq\<close>)
qed

lemma Apply_full:
  assumes ok: "placement_ok p" "pState p = StateRamping" "pRamp (moving p) = Some r" "fle (Fin 1) (rRatio r)"
    and step: "Apply p t = Inr np" "\<not> tHold t" "\<not> tRelease t" "tTo t = StateMigrating" and acc: "placeWrite p key = Some b"
  shows "placeWrite np key = Some b"
  using step(1)
proof (cases rule: Apply_cases)
  case (release t')
  then show ?thesis using readTransition_same [OF release(1)] step(3) by (simp add: same_step_def)
next
  case (plain t')
  have t': "\<not> tHold t'" "tTo t' = StateMigrating" using readTransition_same [OF plain(1)] step by (simp_all add: same_step_def)
  have pl: "plain_ok p" using ok plain(2) by (simp add: placement_ok_def moves_def)
  then have m: "pRamp p = Some r" "rHash r = RampHash" "rRange r = None" "pSource p \<noteq> ''''"
    using ok(2,3) by (auto simp: plain_ok_def moving_def Spread_def ramp_ok_def)
  have "acceptsWrite p key = Some b" using acc by (simp add: placeWrite_plain [OF pl])
  from applyPlain_full_writes(2) [OF plain(4) t' ok(2) m(4,1,2) ok(4) _ this] m(3)
  show ?thesis by (simp add: in_limits_def placeWrite_applyPlain [OF pl plain(4)])
next
  case (move t' m t'' nv)
  have "same_step t t''"
    using readTransition_same [OF move(1)] moveChecks_same [OF move(3)] by (rule same_step_trans)
  then have t': "\<not> tHold t''" "\<not> tRelease t''" "tTo t'' = StateMigrating" using step by (simp_all add: same_step_def)
  have sp: "spread_ok p" using ok move(2) by (simp add: placement_ok_def Spread_def)
  obtain r0 where "mRamp m = Some r0" "fle (Fin 1) (rRatio r0)"
    using ok(3,4) move(2) by (auto simp: moving_def limitRamp_def split: option.splits)
  from full_move [OF sp move(2) ok(2) this _ t'(1,3) acc] move(4,5) t'(2) show ?thesis by simp
next
  case (start t' np' rg src dst t'' nv)
  from start(4) obtain "startChecks p t' = None" by (rule startPrep_Inr)
  then show ?thesis using ok(2) by (simp add: startChecks_def)
qed

subsection \<open>Every write of a fenced step keeps the accepted writes\<close>

text \<open>A completed step found a hold when it was written.\<close>

lemma Apply_Held:
  assumes "placement_ok p" "Apply p t = Inr np" "tComplete t" "\<not> tRelease t" "tTo t = StateRamping \<or> tTo t = StateMigrating"
  shows "Held p" "pState p = StateRamping"
proof -
  from assms(2) have "Held p \<and> pState p \<noteq> StateActive \<and> legal (pState p) (tTo t)"
  proof (cases rule: Apply_cases)
    case (release t')
    then show ?thesis using readTransition_same [OF release(1)] assms(4) by (simp add: same_step_def)
  next
    case (plain t')
    obtain t1 n1 where a: "applyGuards p t' = Inr t1" using plain(4) by (rule applyPlain_Inr)
    have s: "tComplete t'" "tTo t' = tTo t" using readTransition_same [OF plain(1)] assms(3) by (simp_all add: same_step_def)
    have "plain_ok p" using assms(1) plain(2) by (simp add: placement_ok_def moves_def)
    then show ?thesis using applyGuards_Inr(2,5) [OF a] s by (auto simp: plain_ok_def Held_def Spread_def split: option.splits)
  next
    case (move t' m t'' nv)
    have s: "same_step t t''"
      using readTransition_same [OF move(1)] moveChecks_same [OF move(3)] by (rule same_step_trans)
    have "applyPlain (MoveView p m) t'' = Inr nv" using move(4) s assms(4) by (simp add: same_step_def)
    then obtain t1 n1 where a: "applyGuards (MoveView p m) t'' = Inr t1" by (rule applyPlain_Inr)
    have "pState p \<noteq> StateActive" using assms(1) move(2) checkSpread_move(1) by (auto simp: placement_ok_def Spread_def spread_ok_def)
    moreover have "Held p" using applyGuards_Inr(5) [OF a] s assms(3) move(2)
      by (auto simp: Held_def same_step_def limitRamp_def split: option.splits)
    ultimately show ?thesis using applyGuards_Inr(2) [OF a] s by (simp add: same_step_def)
  next
    case (start t' np' rg src dst t'' nv)
    have s: "same_step t (startStep np' t'' dst)"
      using readTransition_same [OF start(1)] startPrep_same [OF start(4)] startStep_same(1) same_step_trans by blast
    obtain t1 n1 where a: "applyGuards (startView np' src) (startStep np' t'' dst) = Inr t1" using start(6) by (rule applyPlain_Inr)
    have "Held (startView np' src)" using applyGuards_Inr(5) [OF a] s assms(3) by (simp add: same_step_def)
    then show ?thesis by (simp add: Held_def)
  qed
  then show "Held p" "pState p = StateRamping" using assms(5) by (auto elim!: legal_cases)
qed

lemma withDefaultName_same: "same_step t (withDefaultName key p t)"
  by (simp add: withDefaultName_def same_step_def Let_def split: prod.split)

lemma laterTarget_same: "laterTarget key p t = Inr t' \<Longrightarrow> same_step t t'"
  by (auto simp: laterTarget_def same_step_def Let_def split: if_splits)

lemma measureConditionals_file:
  assumes "validate g = []" "measureConditionals be drawn cluster bucket g = (r, g')"
  shows "validate g' = []" "fPlacements g' = fPlacements g"
  using assms by (auto simp: measureConditionals_def runOp_def PutCluster_def Let_def elim!: nextFile_Inr
      split: option.splits sum.splits if_splits)

lemma prepareTarget_file:
  assumes "validate g = []" "prepareTarget be drawn order key p np f create g = (r, g')"
  shows "validate g' = []" "fPlacements g' = fPlacements g"
  using assms measureConditionals_file [OF assms(1)]
  by (auto simp: prepareTarget_def Let_def split: option.splits sum.splits if_splits prod.splits bool.splits)

text \<open>A transition writes at most a measured profile and then one state change, of the step it was given.\<close>

lemma transitionStep_cases:
  assumes "validate g = []" "transitionStep be drawn order key p f t create acceptLoss g = (r, g')"
  obtains (none) "fPlacements g' = fPlacements g"
  | (set) g1 tenant bucket ok t' where "validate g1 = []" "fPlacements g1 = fPlacements g" "SplitKey key = (tenant, bucket, ok)"
      "nextFile (snd drawn) (OpSetState tenant bucket (pState p) t') g1 = Inr g'" "same_step t t'"
proof (cases "laterTarget key p (withDefaultName key p t)")
  case (Inl e)
  then show thesis using assms none by (simp add: transitionStep_def)
next
  case (Inr t')
  have same: "same_step t t'" using withDefaultName_same laterTarget_same [OF Inr] same_step_trans by blast
  have w: thesis if c: "checkedWrite be (snd drawn) key p full loss t' acceptLoss pr g1 = (r, g')" and g1: "validate g1 = []" "fPlacements g1 = fPlacements g"
    for full loss pr g1
  proof -
    obtain tenant bucket ok where k: "SplitKey key = (tenant, bucket, ok)" by (cases "SplitKey key")
    from c consider "g' = g1" | "nextFile (snd drawn) (OpSetState tenant bucket (pState p) t') g1 = Inr g'"
      by (auto simp: checkedWrite_def writeState_def Let_def k split: if_splits option.splits sum.splits)
    then show thesis using none set [OF g1 k _ same] g1(2) by cases simp_all
  qed
  show thesis
  proof (cases "Apply p t'")
    case (Inl e)
    then show thesis using assms none Inr by (simp add: transitionStep_def)
  next
    case (Inr full)
    let ?np = "judged p full"
    obtain q g1 where q: "(if pState p = StateActive then prepareTarget be (fst drawn) order key p ?np f create g else (Inr ('''', None), g)) = (q, g1)"
      by (cases "if pState p = StateActive then prepareTarget be (fst drawn) order key p ?np f create g else (Inr ('''', None), g)") auto
    have g1: "validate g1 = []" "fPlacements g1 = fPlacements g"
      using q assms(1) prepareTarget_file [OF assms(1)] by (cases "pState p = StateActive"; fastforce)+
    have e: "transitionStep be drawn order key p f t create acceptLoss g =
      (if lossWindow p full f (ClusterOf ?np (pPrimary ?np)) \<and> \<not> acceptLoss
       then (Inl (StepRefused (RefuseLostWriteWindow key (ClusterOf ?np (pPrimary ?np)))), g)
       else case q of Inl e \<Rightarrow> (Inl e, g1)
            | Inr pr \<Rightarrow> checkedWrite be (snd drawn) key p full (lossWindow p full f (ClusterOf ?np (pPrimary ?np))) t' acceptLoss pr g1)"
      unfolding transitionStep_def \<open>laterTarget key p (withDefaultName key p t) = Inr t'\<close> sum.case Inr Let_def q
      by (cases q) simp_all
    show thesis
    proof (cases "lossWindow p full f (ClusterOf ?np (pPrimary ?np)) \<and> \<not> acceptLoss")
      case True
      then show thesis using assms(2) [unfolded e] none by simp
    next
      case False
      then show thesis using assms(2) [unfolded e if_not_P [OF False]] none g1(2) w [OF _ g1] by (cases q) simp_all
    qed
  qed
qed

lemma nextFile_SetState:
  assumes "validate g = []" "nextFile drawn (OpSetState tenant bucket st t) g = Inr g'"
    and "getPlacement g k = Some q" "getPlacement g' k = Some q'" "routable q"
  shows "placement_ok q" "if k = Key tenant bucket then Apply q t = Inr q' else q' = q"
proof -
  obtain f1 where f1: "runOp (OpSetState tenant bucket st t) g = Inr f1" "fPlacements g' = fPlacements f1" by (rule nextFile_Inr [OF assms(2)])
  then have "getPlacement f1 k = Some q'" using assms(4) by (simp add: getPlacement_def)
  then show "if k = Key tenant bucket then Apply q t = Inr q' else q' = q"
    using SetState_placement [of g tenant bucket st t f1 k q q'] f1(1) assms(3) by (simp add: runOp_def opError_Inr)
  show "placement_ok q" using placement_valid_ok validate_placements(1) [OF assms(1,3)] assms(5) by blast
qed

text \<open>The writes of one operation's step: at once, as a hold, as its completion, and the release its cancellation sends.\<close>

inductive step_write ::
  "backends \<Rightarrow> identity option \<times> identity option \<Rightarrow> string list \<Rightarrow> string \<Rightarrow> string \<Rightarrow> transition \<Rightarrow> bool \<Rightarrow> bool \<Rightarrow> dir_file \<Rightarrow> dir_file \<Rightarrow> bool"
  for be drawn order i key t create acceptLoss where
  direct: "stepPlan False i key f t acceptLoss = PlanDirect p \<Longrightarrow> getPlacement g key = Some p \<Longrightarrow>
    transitionStep be drawn order key p f t create acceptLoss g = (r, g') \<Longrightarrow> step_write be drawn order i key t create acceptLoss g g'"
| hold: "holdStep be drawn order i key t create acceptLoss f g = (hr, g') \<Longrightarrow> step_write be drawn order i key t create acceptLoss g g'"
| commit: "commitStep be drawn order i key fr t acceptLoss f g = (cr, g') \<Longrightarrow> step_write be drawn order i key t create acceptLoss g g'"
| release: "SplitKey key = (tenant, bucket, ok) \<Longrightarrow> nextFile (snd drawn) (OpSetState tenant bucket StateRamping (releaseTransition i)) g = Inr g' \<Longrightarrow>
    step_write be drawn order i key t create acceptLoss g g'"


text \<open>Every state change among them is fenced where it lands, or leaves a ramp that already has every key.\<close>

definition full_step :: "placement \<Rightarrow> transition \<Rightarrow> bool" where
  "full_step p t \<longleftrightarrow> pState p = StateRamping \<and> tTo t = StateMigrating \<and> \<not> tHold t \<and> \<not> tRelease t \<and>
     (case pRamp (moving p) of None \<Rightarrow> False | Some r \<Rightarrow> fle (Fin 1) (rRatio r))"

lemma full_stepI:
  assumes "placement_ok p" "\<not> stepMoves p t" "tTo t = StateRamping \<or> tTo t = StateMigrating" "\<not> tHold t" "\<not> tRelease t"
  shows "full_step p t"
proof -
  obtain r where r: "pState p = StateRamping" "tTo t = StateMigrating" "pRamp (moving p) = Some r" "\<not> flt (rRatio r) (Fin 1)"
    using assms(2,3) by (auto simp: stepMoves_def split: option.splits)
  have "ratio_ok (rRatio r)"
    using assms(1) r(1,3) by (auto simp: placement_ok_def plain_ok_def spread_ok_def ramp_ok_def ratios_ok_def moving_def limitRamp_def
        checkSpread_def Spread_def split: if_splits option.splits)
  then have "fle (Fin 1) (rRatio r)" using r(4) by (auto simp: fle_def elim!: ratio_ok_cases)
  then show ?thesis using r assms(4,5) by (simp add: full_step_def)
qed

lemma Apply_full_or_fenced:
  assumes "placement_ok q" "ratio_ok (tRatio t)" "fenced q t \<or> full_step q t" "Apply q t = Inr q'"
    and "placeWrite q key = Some b" "placeWrite q' key = Some b'"
  shows "b' = b"
proof (cases "full_step q t")
  case True
  then obtain r where "pRamp (moving q) = Some r" "fle (Fin 1) (rRatio r)" by (auto simp: full_step_def split: option.splits)
  then show ?thesis using Apply_full [OF assms(1) _ _ _ assms(4)] True assms(5,6) by (simp add: full_step_def)
qed (use assms Apply_fenced in blast)

lemma same_step_full: "same_step t t' \<Longrightarrow> full_step p t' = full_step p t"
  by (simp add: full_step_def same_step_def)

definition step_request :: "transition \<Rightarrow> bool" where
  "step_request t \<longleftrightarrow> (tTo t = StateRamping \<or> tTo t = StateMigrating) \<and> \<not> tHold t \<and> \<not> tRelease t \<and> ratio_ok (tRatio t)"

lemma step_write_set:
  assumes "step_write be drawn order i key t create acceptLoss g g'" "validate g = []" "step_request t" "SplitKey key = (tenant, bucket, ok)"
    and q: "getPlacement g k = Some q" "getPlacement g' k = Some q'" "routable q" "key = Key tenant bucket"
  shows "q' = q \<or> (\<exists>t'. placement_ok q \<and> ratio_ok (tRatio t') \<and> Apply q t' = Inr q' \<and> (fenced q t' \<or> full_step q t'))"
proof -
  have step: ?thesis
    if ts: "transitionStep be drawn order key p f u c l g = (r, g')" and ru: "ratio_ok (tRatio u)"
      and fu: "\<And>u'. placement_ok q \<Longrightarrow> same_step u u' \<Longrightarrow> k = key \<Longrightarrow> Apply q u' = Inr q' \<Longrightarrow> fenced q u' \<or> full_step q u'" for p f u c l r
    using assms(2) ts
  proof (cases rule: transitionStep_cases)
    case none
    then show ?thesis using q by (simp add: getPlacement_def)
  next
    case (set g1 tn bu ok' u')
    have "getPlacement g1 k = Some q" using set(2) q(1) by (simp add: getPlacement_def)
    note s = nextFile_SetState [OF set(1,4) this q(2,3)]
    have "Key tn bu = key" "ratio_ok (tRatio u')" using set(3,5) assms(4) q(4) ru by (auto simp: same_step_def)
    then show ?thesis using s fu [OF s(1) set(5)] by (metis (full_types))
  qed
  note req = assms(3) [unfolded step_request_def]
  from assms(1) show ?thesis
  proof (cases rule: step_write.cases)
    case (direct f p r)
    have "\<not> stepMoves p t" using direct(1) by (auto simp: stepPlan_def split: option.splits if_splits)
    then show ?thesis
      using step [OF direct(3)] full_stepI req same_step_full direct(2) q(1) by (metis option.inject)
  next
    case (hold f hr)
    then show ?thesis
    proof (cases "heldBy (case getPlacement f key of Some p \<Rightarrow> p | None \<Rightarrow> zeroPlacement) i")
      case True
      then show ?thesis using hold q by (simp add: holdStep_def)
    next
      case False
      then obtain p r where "transitionStep be drawn order key p f (holdOf i t) create acceptLoss g = (r, g')"
        using hold by (auto simp: holdStep_def Let_def split: prod.splits sum.splits)
      from step [OF this] show ?thesis using req by (auto simp: holdOf_def fenced_def same_step_def)
    qed
  next
    case (commit fr f cr)
    then consider "g' = g" | p r where "transitionStep be drawn order key p f (completeOf t) False acceptLoss g = (r, g')"
      by (auto simp: commitStep_def split: option.splits if_splits prod.splits sum.splits)
    then show ?thesis
    proof cases
      case 1 then show ?thesis using q by simp
    next
      case 2
      show ?thesis
      proof (rule step [OF 2])
        show "ratio_ok (tRatio (completeOf t))" using req by (simp add: completeOf_def)
      next
        fix u' assume ok: "placement_ok q" "same_step (completeOf t) u'" "Apply q u' = Inr q'"
        then have "tComplete u'" "\<not> tRelease u'" "tTo u' = StateRamping \<or> tTo u' = StateMigrating"
          using req by (auto simp: completeOf_def same_step_def)
        from Apply_Held [OF ok(1,3) this] show "fenced q u' \<or> full_step q u'" by (simp add: fenced_def)
      qed
    qed
  next
    case (release tn bu ok')
    note s = nextFile_SetState [OF assms(2) release(2) q(1-3)]
    have "ratio_ok (tRatio (releaseTransition i))" "fenced q (releaseTransition i)"
      by (simp add: releaseTransition_def) (code_simp, simp add: fenced_def releaseTransition_def)
    then show ?thesis using s by (metis (full_types))
  qed
qed

lemma step_write_keeps:
  assumes "step_write be drawn order i key t create acceptLoss g g'" "validate g = []" "step_request t" "key = Key tenant bucket" "SplitKey key = (tenant, bucket, ok)"
    and "getPlacement g k = Some q" "getPlacement g' k = Some q'" "routable q"
    and "placeWrite q obj = Some b" "placeWrite q' obj = Some b'"
  shows "b' = b"
  using step_write_set [OF assms(1-3,5-8,4)] assms(9,10) Apply_full_or_fenced [of q _ q' obj b b'] by auto

subsection \<open>A held step can be completed\<close>

text \<open>What a hold leaves on the placement: the ramp in force, and the step as its hold.\<close>

lemma applyPlain_holdOf [consumes 2, case_names first ramp migrate]:
  assumes "applyPlain v (holdOf i t) = Inr nv" "pState v = StateActive \<longrightarrow> pRamp v = None"
  obtains (first) "pState v = StateActive" "tTo t = StateRamping" "\<not> (feq (tRatio t) (Fin 0) \<and> tPrefixes t = [])"
      "pRamp nv = Some (zeroRamp\<lparr>rHash := RampHash, rHold := Some \<lparr>hRatio = tRatio t, hPrefixes = tPrefixes t\<rparr>\<rparr>)"
  | (ramp) r0 r where "pState v = StateRamping" "tTo t = StateRamping" "pRamp v = Some r0" "rHold r0 = None" "rampStep v (holdOf i t) = Inr r"
      "pRamp nv = Some (r0\<lparr>rHold := Some \<lparr>hRatio = rRatio r, hPrefixes = rPrefixes r\<rparr>\<rparr>)"
  | (migrate) r0 where "tTo t = StateMigrating" "pRamp nv = Some r0" "rHold r0 = Some \<lparr>hRatio = Fin 1, hPrefixes = []\<rparr>"
proof -
  obtain t' np where a: "applyGuards v (holdOf i t) = Inr t'" "applyStep v t' = Inr np" "nv = applyFinish v t' np"
    using assms(1) by (rule applyPlain_Inr)
  have s: "same_step (holdOf i t) t'" by (rule applyGuards_same [OF a(1)])
  then have t': "tHold t'" "tTo t' = tTo t" "tRatio t' = tRatio t" "tPrefixes t' = tPrefixes t" by (simp_all add: holdOf_def same_step_def)
  have to: "tTo t = StateRamping \<or> tTo t = StateMigrating" "legal (pState v) (tTo t)"
    using applyGuards_Inr(2,3) [OF a(1)] by (simp_all add: holdOf_def)
  have none: "\<And>r. pRamp v = Some r \<Longrightarrow> rHold r = None" using applyGuards_Inr(6) [OF a(1)] by (simp add: holdOf_def)
  consider "pState v = StateActive" "tTo t = StateRamping" | "pState v = StateRamping" "tTo t = StateRamping" | "tTo t = StateMigrating"
    using to by (auto elim!: legal_cases)
  then show thesis
  proof cases
    case 1
    then show thesis using first a(2,3) t' assms(2)
      by (auto simp: applyStep_def leaveActive_def applyFinish_def Let_def split: if_splits)
  next
    case 2
    have "t' = holdOf i t" using inheritTarget_Inr [OF applyGuards_Inr(1) [OF a(1)]] 2 by simp
    then obtain r where r: "rampStep v (holdOf i t) = Inr r" "np = v\<lparr>pState := tTo t', pRamp := Some r\<rparr>"
      using a(2) 2 t' by (auto simp: applyStep_def Let_def split: sum.splits)
    obtain r0 where r0: "pRamp v = Some r0"
      using r(1) by (cases "pRamp v") (auto simp: rampStep_def zeroRamp_def RampHash_nonempty [symmetric] split: if_splits)
    show thesis using ramp [OF 2 r0 none [OF r0] r(1)] 2 r r0 t' by (simp add: a(3) applyFinish_def Let_def)
  next
    case 3
    have "pRamp np = None" using a(2) t' 3 assms(2) to
      by (auto simp: applyStep_def leaveActive_def Let_def split: if_splits elim!: legal_cases)
    then show thesis using migrate [OF 3] t' by (simp add: a(3) applyFinish_def Let_def)
  qed
qed

lemma addPrefixes_Nil: "length (addPrefixes [] ps) = 0 \<longleftrightarrow> ps = []"
  using addPrefixes_set [of "[]" ps] by (cases ps) auto

lemma flt_irrefl: "\<not> flt x x"
  by (cases x) simp_all

lemma heldCheck_held:
  assumes "rHold old = Some h" "set (rPrefixes r) \<subseteq> set (rPrefixes old) \<union> set (hPrefixes h)" "\<not> flt (hRatio h) (rRatio r)"
  shows "heldCheck p t old r = Inr r"
proof -
  have "find (\<lambda>pre. pre \<notin> set (rPrefixes old) \<and> pre \<notin> set (hPrefixes h)) (rPrefixes r) = None"
    using assms(2) by (auto simp: find_None_iff)
  then show ?thesis using assms(1,3) by (simp add: heldCheck_def)
qed

lemma complete_accepted:
  assumes hold: "applyPlain v (holdOf i t) = Inr nv" "pState v = StateActive \<longrightarrow> pRamp v = None"
    and t: "step_request t" "tBarrier t = ''''"
    and v': "pState v' = StateRamping" "pMove v' = None" "pRamp nv = Some r" "pRamp v' = Some r'"
      "rHash r' = rHash r" "rRatio r' = rRatio r" "rPrefixes r' = rPrefixes r" "rHold r' = rHold r"
  shows "\<exists>n. applyPlain v' (completeOf t) = Inr n"
proof -
  obtain t' np where a: "applyGuards v (holdOf i t) = Inr t'" using hold(1) by (rule applyPlain_Inr)
  note req = t(1) [unfolded step_request_def]
  have g: "rampGuards (completeOf t) = None"
    using a by (auto simp: applyGuards_def rampGuards_def holdOf_def completeOf_def inheritTarget_def Let_def split: option.splits sum.splits if_splits)
  have held: "rHold r' \<noteq> None" using hold by (rule applyPlain_holdOf) (use v' in auto)
  have "stepGuards v' (completeOf t) = None"
    using req t(2) v' held by (auto simp: stepGuards_def completeOf_def Held_def legal_def States_def)
  then have ag: "applyGuards v' (completeOf t) = Inr (completeOf t)"
    using v'(1) g by (simp add: applyGuards_def inheritTarget_def)
  have "\<exists>n. applyStep v' (completeOf t) = Inr n"
    using hold
  proof (cases rule: applyPlain_holdOf)
    case first
    have r': "rHash r' = RampHash" "rRatio r' = Fin 0" "rPrefixes r' = []" "rHold r' = Some \<lparr>hRatio = tRatio t, hPrefixes = tPrefixes t\<rparr>"
      using first(4) v' by (auto simp: zeroRamp_def)
    have "\<not> flt (tRatio t) (Fin 0)" "\<not> flt (tRatio t) (tRatio t)" using req by (auto elim!: ratio_ok_cases)
    then have "\<exists>x. rampStep v' (completeOf t) = Inr x"
      using first(3) r' v'(4) addPrefixes_Nil [of "tPrefixes t"] addPrefixes_set [of "[]" "tPrefixes t"]
      by (auto simp: rampStep_def completeOf_def heldCheck_held Let_def)
    then show ?thesis using first(2) v'(1) by (auto simp: applyStep_def completeOf_def Let_def)
  next
    case (ramp r0 rs)
    have r': "rHash r' = rHash r0" "rRatio r' = rRatio r0" "rPrefixes r' = rPrefixes r0" "rHold r' = Some \<lparr>hRatio = rRatio rs, hPrefixes = rPrefixes rs\<rparr>"
      using ramp(6) v' by auto
    have rs: "rRatio rs = (if feq (tRatio t) (Fin 0) then rRatio r0 else tRatio t)" "rPrefixes rs = addPrefixes (rPrefixes r0) (tPrefixes t)"
      using ramp(3,4,5) by (auto simp: rampStep_def heldCheck_def holdOf_def Let_def split: if_splits)
    have "\<exists>x. rampStep v' (completeOf t) = Inr x"
      using ramp(3,5) r' v'(4) rs flt_irrefl
      by (auto simp: rampStep_def completeOf_def holdOf_def heldCheck_held Let_def split: if_splits)
    then show ?thesis using ramp(2) v'(1) by (auto simp: applyStep_def completeOf_def Let_def)
  next
    case (migrate r0)
    have "\<not> heldBelowOne v'" using migrate v' by (auto simp: heldBelowOne_def)
    then show ?thesis using migrate(1) v'(1) by (simp add: applyStep_def completeOf_def)
  qed
  then show ?thesis using ag by (auto simp: applyPlain_def)
qed

lemma move_completes:
  assumes hold: "applyPlain v (holdOf i t) = Inr nv" "pState v = StateActive \<longrightarrow> pRamp v = None" "step_request t" "tBarrier t = ''''" "tShare t = Fin 0"
    and np: "pMove np = Some m" "pState np = StateRamping" "mRamp m = limitRamp rg (pRamp nv)" "mScope m \<noteq> '''' \<longrightarrow> tPrefixes t = []"
  shows "\<exists>n. Apply np (completeOf t) = Inr n"
proof -
  let ?c = "completeOf t"
  have c: "tTarget ?c = ''''" "tName ?c = ''''" "tRange ?c = None" "tLeg ?c = ''''" "tScope ?c = ''''" "tShare ?c = Fin 0"
      "tPrefixes ?c = tPrefixes t" "tRelease ?c = tRelease t"
    using hold(5) by (simp_all add: completeOf_def)
  have sp: "Spread np" using np(1) by (simp add: Spread_def)
  have rd: "readTransition np ?c = Inr ?c" "moves np ?c"
    using c sp by (simp_all add: readTransition_def resolveShare_def sameClusterRange_def dropFullRange_def resolveLeg_def moves_def)
  have "moveRefuses np m ?c = None" using c np(4) by (auto simp: moveRefuses_def Let_def)
  then have ch: "moveChecks np m ?c = Inr ?c" using c by (simp add: moveChecks_def)
  obtain r where r: "pRamp nv = Some r" using hold(1,2) by (rule applyPlain_holdOf) auto
  obtain n where "applyPlain (MoveView np m) ?c = Inr n"
    using complete_accepted [OF hold(1-4), of "MoveView np m" r "r\<lparr>rRange := Some (mRange m)\<rparr>"] np r
    by (auto simp: limitRamp_def)
  then have "Apply (MoveView np m) ?c = Inr n"
    using Apply_view [OF moveChecks_step [OF ch]] hold(3) c(8) by (simp add: step_request_def)
  then show ?thesis using rd np(1) ch by (simp add: Apply.simps [of np] applyMove.simps)
qed

lemma hold_inverse:
  assumes "same_step (holdOf i t) t'" "step_request t" "tBarrier t = ''''" "tShare t = Fin 0" "tShare t' = Fin 0"
  obtains u where "t' = holdOf i u" "step_request u" "tBarrier u = ''''" "tShare u = Fin 0" "completeOf u = completeOf t" "tPrefixes u = tPrefixes t"
proof
  let ?u = "t'\<lparr>tHold := False, tBarrier := ''''\<rparr>"
  show "t' = holdOf i ?u" "step_request ?u" "tBarrier ?u = ''''" "tShare ?u = Fin 0" "completeOf ?u = completeOf t" "tPrefixes ?u = tPrefixes t"
    using assms by (simp_all add: holdOf_def same_step_def step_request_def completeOf_def)
qed

lemma readTransition_share: "readTransition p t = Inr t' \<Longrightarrow> tShare t = Fin 0 \<Longrightarrow> tShare t' = Fin 0"
  by (auto simp: readTransition_def resolveShare_def resolveLeg_def dropFullRange_def sameClusterRange_def split: if_splits)

text \<open>A hold is completed by the step it was for: the completion of a step without a share is never refused.\<close>

lemma hold_completes:
  assumes ok: "placement_ok p" and hold: "Apply p (holdOf i t) = Inr np"
    and t: "step_request t" "tBarrier t = ''''" "tShare t = Fin 0"
  shows "\<exists>n. Apply np (completeOf t) = Inr n"
proof -
  have sh: "tShare (holdOf i t) = Fin 0" using t(3) by (simp add: holdOf_def)
  from hold show ?thesis
  proof (cases rule: Apply_cases)
    case (release t')
    then show ?thesis using readTransition_same [OF release(1)] t(1) by (simp add: same_step_def holdOf_def step_request_def)
  next
    case (plain t')
    have "plain_ok p" using ok plain(2) by (simp add: placement_ok_def moves_def)
    then have p: "\<not> Spread p" "pMove p = None" "pState p = StateActive \<longrightarrow> pRamp p = None" by (auto simp: plain_ok_def Spread_def)
    obtain u where u: "t' = holdOf i u" "step_request u" "tBarrier u = ''''" "completeOf u = completeOf t"
      using hold_inverse [OF readTransition_same [OF plain(1)] t readTransition_share [OF plain(1) sh]] by blast
    have ap: "applyPlain p (holdOf i u) = Inr np" using plain(4) u(1) by simp
    obtain r where r: "pRamp np = Some r" using ap p(3) by (rule applyPlain_holdOf) auto
    have "pState np = StateRamping" using applyPlain_state(2) [OF ap] by (simp add: holdOf_def)
    moreover have m: "pMove np = None" "\<not> Spread np" using applyPlain_tables [OF ap] p(1,2) by (auto simp: Spread_def)
    ultimately obtain n where n: "applyPlain np (completeOf t) = Inr n"
      using complete_accepted [OF ap p(3) u(2,3), of np r r] r u(4) by auto
    have c: "tTarget (completeOf t) = ''''" "tRange (completeOf t) = None" "tLeg (completeOf t) = ''''" "tScope (completeOf t) = ''''"
        "tShare (completeOf t) = Fin 0" "\<not> tRelease (completeOf t)"
      using t by (simp_all add: completeOf_def step_request_def)
    show ?thesis using n Apply_view [OF readTransition_view [OF m(2) c(2-5)]] c(1,6) by simp
  next
    case (move t' m t'' nv)
    have s: "same_step (holdOf i t) t''"
      using readTransition_same [OF move(1)] moveChecks_same [OF move(3)] by (rule same_step_trans)
    have "tShare t'' = Fin 0" using moveChecks_Inr [OF move(3)] by simp
    then obtain u where u: "t'' = holdOf i u" "step_request u" "tBarrier u = ''''" "tShare u = Fin 0" "completeOf u = completeOf t" "tPrefixes u = tPrefixes t"
      using hold_inverse [OF s t] by blast
    have ap: "applyPlain (MoveView p m) (holdOf i u) = Inr nv"
      using move(4) u(1,2) by (simp add: step_request_def holdOf_def)
    have nv: "pState nv = StateRamping" using applyPlain_state(2) [OF ap] by (simp add: holdOf_def)
    have act: "pState (MoveView p m) = StateActive \<longrightarrow> pRamp (MoveView p m) = None"
      using ok move(2) checkSpread_move(1) by (auto simp: placement_ok_def Spread_def spread_ok_def)
    have "mScope m \<noteq> '''' \<longrightarrow> tPrefixes t = []"
      using move(3) readTransition_same [OF move(1)]
      by (auto simp: moveChecks_def moveRefuses_def Let_def same_step_def holdOf_def split: option.splits if_splits)
    then show ?thesis
      using move_completes [OF ap act u(2-4), of np "m\<lparr>mRamp := limitRamp (mRange m) (pRamp nv), mCutover := pCutover nv\<rparr>" "mRange m"] u(5,6) move(5) nv
      by (simp add: moveDone_def Let_def)
  next
    case (start t' np' rg src dst t'' nv)
    have s: "same_step (holdOf i t) (startStep np' t'' dst)"
      using readTransition_same [OF start(1)] startPrep_same [OF start(4)] startStep_same(1) same_step_trans by blast
    have "tShare (startStep np' t'' dst) = Fin 0" using startPrep_view(2) [OF start(4)] by (simp add: startStep_def)
    then obtain u where u: "startStep np' t'' dst = holdOf i u" "step_request u" "tBarrier u = ''''" "tShare u = Fin 0"
        "completeOf u = completeOf t" "tPrefixes u = tPrefixes t"
      using hold_inverse [OF s t] by blast
    have ap: "applyPlain (startView np' src) (holdOf i u) = Inr nv" using start(6) u(1) by simp
    have nv: "pState nv = StateRamping" using applyPlain_state(2) [OF ap] by (simp add: holdOf_def)
    obtain "startChecks p t' = None" using start(4) by (rule startPrep_Inr)
    then have "tScope t'' \<noteq> '''' \<longrightarrow> tPrefixes t = []"
      using startPrep_same [OF start(4)] readTransition_same [OF start(1)] by (auto simp: startChecks_def same_step_def holdOf_def split: if_splits)
    then show ?thesis
      using move_completes [OF ap _ u(2-4), of np _ rg] u(5,6) start(7) nv by (simp add: startDone_def)
  qed
qed

text \<open>The completion keeps the share of its step. Where the whole bucket moves to another cluster, the held placement is
  plain and no longer ACTIVE, and a share is refused there.\<close>

lemma share_refused:
  assumes "\<not> Spread p" "pState p \<noteq> StateActive" "\<not> feq (tShare t) (Fin 0)"
  shows "\<exists>r. Apply p (completeOf t) = Inl (TransitionError (pState p) (tTo t) r)"
  using assms by (simp add: Apply.simps readTransition_def resolveShare_def completeOf_def)

lemma share_hold_plain:
  assumes p: "plain_ok p" "pState p = StateActive" and t: "tShare t = Fin 1" "tScope t = ''''" "tTarget t \<noteq> pPrimary p" "step_request t"
    and hold: "Apply p (holdOf i t) = Inr np" "i \<noteq> ''''"
  shows "\<not> Spread np" "pState np = StateRamping" "heldBy np i"
proof -
  have full: "LeadingShare FullRange (Fin 1) = Some FullRange" by code_simp
  have sp: "\<not> Spread p" using p(1) by (simp add: plain_ok_def)
  from hold(1) have ap: "\<exists>t'. applyPlain p t' = Inr np \<and> tHold t' \<and> tBarrier t' = i"
  proof (cases rule: Apply_cases)
    case (release t')
    then show ?thesis using readTransition_same [OF release(1)] t(4) by (simp add: same_step_def holdOf_def step_request_def)
  next
    case (plain t')
    then show ?thesis using readTransition_same [OF plain(1)] by (auto simp: same_step_def holdOf_def)
  next
    case (move t' m t'' nv)
    then show ?thesis using sp by (simp add: Spread_def)
  next
    case (start t' np' rg src dst t'' nv)
    have "\<not> moves p t'"
      using start(1) t sp full
      by (auto simp: readTransition_def resolveShare_def holdOf_def sameClusterRange_def dropFullRange_def resolveLeg_def moves_def Spread_def split: if_splits)
    then show ?thesis using start(2) by simp
  qed
  then obtain t' where t': "applyPlain p t' = Inr np" "tHold t'" "tBarrier t' = i" by blast
  obtain t1 n1 where a: "applyGuards p t' = Inr t1" "np = applyFinish p t1 n1" using t'(1) by (rule applyPlain_Inr)
  have h: "tHold t1" "tBarrier t1 = i" using applyGuards_same [OF a(1)] t' by (simp_all add: same_step_def)
  have m: "pMove np = None" "\<not> Spread np" using applyPlain_tables [OF t'(1)] sp by (auto simp: Spread_def)
  show "\<not> Spread np" by (rule m(2))
  show "pState np = StateRamping" using applyPlain_state(2) [OF t'(1)] t'(2) by simp
  have "Held np" using m(1) h by (simp add: a(2) applyFinish_def Let_def Held_def)
  then show "heldBy np i" using h hold(2) by (simp add: heldBy_def a(2) applyFinish_def Let_def)
qed

lemma commitStep_share:
  assumes "\<not> Spread p" "heldBy p i" "pState p \<noteq> StateActive" "\<not> feq (tShare t) (Fin 0)" "getPlacement f key = Some p"
  shows "\<exists>e. commitStep be drawn order i key fr t acceptLoss f g = (OutError (StepApply e), g)"
proof -
  have "withDefaultName key p (completeOf t) = completeOf t" "laterTarget key p (completeOf t) = Inr (completeOf t)"
    using assms(3) by (simp_all add: withDefaultName_def laterTarget_def completeOf_def)
  then show ?thesis using share_refused [OF assms(1,3,4)] assms(2,5) by (auto simp: commitStep_def transitionStep_def)
qed

end
