(* ===== verification/Serving.thy ===== *)
theory Serving
  imports File_Store Sha256 S3_Ops
begin

text \<open>
  The part of the request path that decides whether a proxy serves an object request and from which bucket
  (\<^verbatim>\<open>proxy/resign.go\<close>, \<^verbatim>\<open>prepareResign\<close>): the narrowing of a spread placement, the maintenance switches and drain
  barriers of the placement and of its clusters, the routing table, the refusals of a held key and of a proxy
  that has lost its control node, and the upload ids that pin a request to a cluster. The gates a request
  enters after these checks are those of \<^verbatim>\<open>Admission\<close>. The lemmas give the conditions under which a write is
  admitted, and follow the operations of the store through them.
\<close>

subsection \<open>The checks in order\<close>

datatype refusal =
    Unroutable route_error
  | PlacementReadOnly bool
  | PlacementBarrier
  | HeldKey
  | StaleProxy
  | NoSuchUpload
  | ClusterReadOnly string bool
  | ClusterBarrier string

definition narrowed :: "placement \<Rightarrow> string \<Rightarrow> route_error + placement" where
  "narrowed p key = (if Spread p then Narrow p key else Inr p)"

definition pausesMutations :: "barrier option \<Rightarrow> bool" where
  "pausesMutations b = (case b of None \<Rightarrow> False | Some b \<Rightarrow> bKind b = BarrierMutations)"

definition placementRefuses :: "placement \<Rightarrow> bool \<Rightarrow> refusal option" where
  "placementRefuses p mutating = refuse
     [(pReadOnly p \<and> mutating, PlacementReadOnly (pRejectWrites p)),
      (mutating \<and> pausesMutations (pBarrier p), PlacementBarrier)]"

text \<open>\<open>lost\<close> is \<^verbatim>\<open>h.Stale()\<close>: the proxy has not heard from its control node.\<close>

definition staleFor :: "bool \<Rightarrow> placement \<Rightarrow> bool" where
  "staleFor lost p \<longleftrightarrow> pState p \<noteq> StateActive \<and> lost"

definition staleRead :: "bool \<Rightarrow> op_class \<Rightarrow> route \<Rightarrow> route" where
  "staleRead stale class rt =
     (if stale \<and> class = ClassRead \<and> rtCluster rt = Source \<and> \<not> rtFallback rt
      then toPrimary\<lparr>rtFallback := True\<rparr> else rt)"

definition routeRefuses :: "bool \<Rightarrow> op_class \<Rightarrow> route \<Rightarrow> refusal option" where
  "routeRefuses stale class rt = refuse
     [(rtHeld rt, HeldKey),
      (stale \<and> (class = ClassWrite \<or> class = ClassDelete), StaleProxy)]"

definition routeRole :: "placement \<Rightarrow> route \<Rightarrow> string" where
  "routeRole p rt = (if rtCluster rt = Source then pSource p else pPrimary p)"

definition BucketTag :: "string \<Rightarrow> string" where
  "BucketTag bucket = hexEncode (take 3 (sha256 bucket))"

text \<open>\<open>byID\<close> stands for the set of configured backends: the name of the cluster with an opaque id.\<close>

definition uploadRole :: "(string \<Rightarrow> string option) \<Rightarrow> placement \<Rightarrow> string \<Rightarrow> string option" where
  "uploadRole byID p pre =
     (case SplitUploadPrefix pre of (i, tag) \<Rightarrow>
        case byID i of
          None \<Rightarrow> None
        | Some cl \<Rightarrow>
            (let roles = filter (\<lambda>r. r \<noteq> '''' \<and> ClusterOf p r = cl \<and> getStr (namesOf p) r \<noteq> '''') [pPrimary p, pSource p] in
             if roles = [] then None
             else if tag \<noteq> '''' then find (\<lambda>r. BucketTag (getStr (namesOf p) r) = tag) roles
             else if length roles = 1 then Some (hd roles)
             else Some (pSource p)))"

definition pinned :: "(string \<Rightarrow> string option) \<Rightarrow> placement \<Rightarrow> string \<Rightarrow> route \<Rightarrow> (string \<times> route) option" where
  "pinned byID p pre rt =
     (if pre = '''' then Some (routeRole p rt, rt)
      else map_option (\<lambda>r. (r, toPrimary)) (uploadRole byID p pre))"

fun clustersRefuse :: "dir_file \<Rightarrow> string list \<Rightarrow> refusal option" where
  "clustersRefuse f [] = None"
| "clustersRefuse f (n # ns) =
     (case fmlookup (fClusters f) n of
        None \<Rightarrow> clustersRefuse f ns
      | Some c \<Rightarrow>
          if cReadOnly c then Some (ClusterReadOnly n (cRejectWrites c))
          else if cBarrier c \<noteq> None then Some (ClusterBarrier n)
          else clustersRefuse f ns)"

definition clusterChecks :: "placement \<Rightarrow> string \<Rightarrow> route \<Rightarrow> string list" where
  "clusterChecks p role rt = ClusterOf p role # (if rtBoth rt then [ClusterOf p (pSource p)] else [])"

text \<open>An object request with its operation, method and key, and the prefix of the upload ids in its query, empty when
  it has none. A query whose ids name two clusters is answered NoSuchUpload before the prefix is looked at; it has
  no prefix to pass here. The result is a refusal, or the placement narrowed to the key, the role the request goes
  to and its route.\<close>

definition admitRequest ::
  "(string \<Rightarrow> string option) \<Rightarrow> dir_file \<Rightarrow> bool \<Rightarrow> placement \<Rightarrow> op \<Rightarrow> string \<Rightarrow> string \<Rightarrow> string
     \<Rightarrow> refusal + placement \<times> string \<times> route" where
  "admitRequest byID f lost p0 o' method key pre =
     (case narrowed p0 key of
        Inl e \<Rightarrow> Inl (Unroutable e)
      | Inr p \<Rightarrow>
          (let class = Class o'; mutating = Mutates o' method in
           case placementRefuses p mutating of
             Some r \<Rightarrow> Inl r
           | None \<Rightarrow>
               (case Decide p class key of
                  Inl e \<Rightarrow> Inl (Unroutable e)
                | Inr rt0 \<Rightarrow>
                    (let stale = staleFor lost p; rt1 = staleRead stale class rt0 in
                     case routeRefuses stale class rt1 of
                       Some r \<Rightarrow> Inl r
                     | None \<Rightarrow>
                         (case pinned byID p pre rt1 of
                            None \<Rightarrow> Inl NoSuchUpload
                          | Some (role, rt) \<Rightarrow>
                              (case (if mutating then clustersRefuse f (clusterChecks p role rt) else None) of
                                 Some r \<Rightarrow> Inl r
                               | None \<Rightarrow> Inr (p, role, rt)))))))"

text \<open>The bucket a request that carries no upload id is served from: the cluster and the name of its role.\<close>

definition serveRequest ::
  "dir_file \<Rightarrow> bool \<Rightarrow> placement \<Rightarrow> op \<Rightarrow> string \<Rightarrow> string \<Rightarrow> refusal + string \<times> string" where
  "serveRequest f lost p o' method key =
     map_sum id (\<lambda>(v, role, rt). roleBucket v role) (admitRequest (\<lambda>_. None) f lost p o' method key '''')"

subsection \<open>When a write is admitted\<close>

text \<open>A key whose part of the placement is moving.\<close>

definition keyMoving :: "placement \<Rightarrow> string \<Rightarrow> bool" where
  "keyMoving p key = (case narrowed p key of Inl _ \<Rightarrow> False | Inr v \<Rightarrow> pState v \<noteq> StateActive)"

definition frozen :: "dir_file \<Rightarrow> placement \<Rightarrow> string \<Rightarrow> bool" where
  "frozen f p c \<longleftrightarrow> pReadOnly p \<or> pausesMutations (pBarrier p) \<or>
     (\<exists>cl. fmlookup (fClusters f) c = Some cl \<and> (cReadOnly cl \<or> cBarrier cl \<noteq> None))"

lemma narrowed_flags:
  assumes "narrowed p key = Inr v"
  shows "pReadOnly v = pReadOnly p" "pRejectWrites v = pRejectWrites p" "pBarrier v = pBarrier p"
proof -
  have l: "map_sum id (onLeg p) r = Inr v \<Longrightarrow> \<exists>i. v = onLeg p i" for r :: "route_error + string" by (cases r) auto
  have "v = p \<or> (\<exists>i. v = onLeg p i) \<or> (\<exists>m. v = MoveView p m)"
    using assms l by (auto simp: narrowed_def Narrow_def split: if_split_asm option.splits)
  then show "pReadOnly v = pReadOnly p" "pRejectWrites v = pRejectWrites p" "pBarrier v = pBarrier p"
    by (auto simp: onLeg_def MoveView_def Let_def)
qed

lemma placeWrite_narrowed:
  "placeWrite p key = (case narrowed p key of Inl _ \<Rightarrow> None | Inr v \<Rightarrow> acceptsWrite v key)"
  by (simp add: placeWrite_def narrowed_def)

lemma Decide_write_single: "Decide p ClassWrite key = Inr rt \<Longrightarrow> \<not> rtBoth rt"
  by (auto simp: Decide_def toPrimary_def Let_def split: if_split_asm sum.splits bool.splits)

lemma clustersRefuse_single:
  "clustersRefuse f [c] = None \<longleftrightarrow> \<not> (\<exists>cl. fmlookup (fClusters f) c = Some cl \<and> (cReadOnly cl \<or> cBarrier cl \<noteq> None))"
  by (auto split: option.splits)

lemma placementRefuses_None:
  "placementRefuses p True = None \<longleftrightarrow> \<not> pReadOnly p \<and> \<not> pausesMutations (pBarrier p)"
  by (simp add: placementRefuses_def refuse.simps)

lemma serveRequest_Inr:
  assumes "Class o' = ClassWrite"
  shows "serveRequest f lost p o' method key = Inr b \<longleftrightarrow>
    placeWrite p key = Some b \<and> \<not> frozen f p (fst b) \<and> \<not> (lost \<and> keyMoving p key)"
proof (cases "narrowed p key")
  case (Inl e)
  then show ?thesis by (simp add: serveRequest_def admitRequest_def placeWrite_narrowed)
next
  case (Inr v)
  note fl = narrowed_flags [OF Inr]
  have mu: "Mutates o' method" using assms by (simp add: Mutates_def)
  show ?thesis
  proof (cases "Decide v ClassWrite key")
    case (Inl e)
    then show ?thesis using Inr assms mu
      by (auto simp: serveRequest_def admitRequest_def placeWrite_narrowed acceptsWrite_def Let_def split: option.splits)
  next
    case (Inr rt)
    have sb: "sideBucket v (rtCluster rt) = roleBucket v (routeRole v rt)"
      by (cases "rtCluster rt") (simp_all add: sideBucket_def routeRole_def)
    have w: "placeWrite p key = (if rtHeld rt then None else Some (roleBucket v (routeRole v rt)))"
      using \<open>narrowed p key = Inr v\<close> Inr sb by (simp add: placeWrite_narrowed acceptsWrite_def)
    have c: "clusterChecks v (routeRole v rt) rt = [fst (roleBucket v (routeRole v rt))]"
      using Decide_write_single [OF Inr] by (simp add: clusterChecks_def roleBucket_def)
    have r: "routeRefuses (staleFor lost v) ClassWrite rt = None \<longleftrightarrow> \<not> rtHeld rt \<and> \<not> (lost \<and> keyMoving p key)"
      using \<open>narrowed p key = Inr v\<close> by (auto simp: routeRefuses_def refuse.simps staleFor_def keyMoving_def)
    have "serveRequest f lost p o' method key = Inr b \<longleftrightarrow>
        placementRefuses v True = None \<and> routeRefuses (staleFor lost v) ClassWrite rt = None \<and>
        clustersRefuse f [fst (roleBucket v (routeRole v rt))] = None \<and> b = roleBucket v (routeRole v rt)"
      using \<open>narrowed p key = Inr v\<close> Inr assms mu c
      by (auto simp: serveRequest_def admitRequest_def staleRead_def pinned_def Let_def simp del: clustersRefuse.simps split: option.splits)
    then show ?thesis
      using w r fl unfolding placementRefuses_None clustersRefuse_single frozen_def by auto
  qed
qed

subsection \<open>What the operations of the store do to it\<close>

definition clusterFlags :: "cluster \<Rightarrow> bool \<times> bool \<times> barrier option" where
  "clusterFlags c = (cReadOnly c, cRejectWrites c, cBarrier c)"

definition placementFlags :: "placement \<Rightarrow> bool \<times> bool \<times> barrier option" where
  "placementFlags p = (pReadOnly p, pRejectWrites p, pBarrier p)"

text \<open>The operations that write a maintenance switch or a barrier.\<close>

definition switches :: "dir_file \<Rightarrow> store_op \<Rightarrow> bool" where
  "switches f op =
     (case op of
        OpSetPlacementReadOnly _ _ _ _ _ \<Rightarrow> True
      | OpSetClusterReadOnly _ _ _ _ \<Rightarrow> True
      | OpSetBarrier _ _ _ \<Rightarrow> True
      | OpClearBarrier _ _ \<Rightarrow> True
      | OpReleaseReadOnly _ _ _ _ \<Rightarrow> True
      | OpPutCluster n c _ \<Rightarrow>
          (case fmlookup (fClusters f) n of None \<Rightarrow> False | Some old \<Rightarrow> clusterFlags c \<noteq> clusterFlags old)
      | _ \<Rightarrow> False)"

lemma active_not_moving: "pState p = StateActive \<Longrightarrow> \<not> keyMoving p key"
proof -
  assume a: "pState p = StateActive"
  have "pState v = StateActive" if v: "narrowed p key = Inr v" for v
  proof -
    have l: "map_sum id (onLeg p) r = Inr v \<Longrightarrow> \<exists>i. v = onLeg p i" for r :: "route_error + string" by (cases r) auto
    have "v = p \<or> (\<exists>i. v = onLeg p i) \<or> (\<exists>m. v = MoveView p m)"
      using v l by (auto simp: narrowed_def Narrow_def split: if_split_asm option.splits)
    then show ?thesis using a by (auto simp: onLeg_def MoveView_def Let_def)
  qed
  then show ?thesis by (simp add: keyMoving_def split: sum.split)
qed

lemma settleLegs_state:
  "pState (foldl (settleLeg p) v is) = pState v" "placementFlags (foldl (settleLeg p) v is) = placementFlags v"
  by (induction "is" arbitrary: v) (simp_all add: settleLeg_def placementFlags_def Let_def)

lemma settle_switches: "pState (settle p) = pState p" "placementFlags (settle p) = placementFlags p"
  using settleLegs_state by (simp_all add: settle_def Let_def placementFlags_def split: list.split)

lemma carved_state: "pState (carved p pre) = pState p" "placementFlags (carved p pre) = placementFlags p"
  by (simp_all add: carved_def carveLegs_def placementFlags_def Let_def)

lemma merged_state: "pState (merged p pre) = pState p" "placementFlags (merged p pre) = placementFlags p"
  using settle_switches by (simp_all add: merged_def placementFlags_def Let_def)

text \<open>What is left as it was: the switches of the placements, the keys that move, the switches of the clusters.\<close>

definition keeps_switches :: "dir_file \<Rightarrow> dir_file \<Rightarrow> bool" where
  "keeps_switches f f' \<longleftrightarrow>
     (\<forall>k p p'. getPlacement f k = Some p \<longrightarrow> getPlacement f' k = Some p' \<longrightarrow>
        placementFlags p' = placementFlags p \<and> (\<forall>key. keyMoving p' key = keyMoving p key)) \<and>
     (\<forall>n c c'. fmlookup (fClusters f) n = Some c \<longrightarrow> fmlookup (fClusters f') n = Some c' \<longrightarrow> clusterFlags c' = clusterFlags c) \<and>
     (fPlacements f' = fPlacements f \<or> fmdom (fClusters f) |\<subseteq>| fmdom (fClusters f'))"

lemma keeps_switches_put:
  assumes "fPlacements f' = fmupd k q (fPlacements f)" "fClusters f' = fClusters f"
    and "\<And>p. getPlacement f k = Some p \<Longrightarrow> placementFlags q = placementFlags p \<and> (\<forall>key. keyMoving q key = keyMoving p key)"
  shows "keeps_switches f f'"
  using assms by (auto simp: keeps_switches_def getPlacement_def)

lemma keeps_switches_same:
  assumes "fPlacements f' = fPlacements f"
    and "\<And>n c c'. fmlookup (fClusters f) n = Some c \<Longrightarrow> fmlookup (fClusters f') n = Some c' \<Longrightarrow> clusterFlags c' = clusterFlags c"
  shows "keeps_switches f f'"
  using assms by (auto simp: keeps_switches_def getPlacement_def)

lemma rest_switches:
  assumes "getPlacement f k = Some p" "f' = putPlacement f k q"
    and "pState p = StateActive" "pState q = StateActive" "placementFlags q = placementFlags p"
  shows "keeps_switches f f'"
  by (rule keeps_switches_put [of f' k q f]) (use assms active_not_moving in simp_all)

lemma new_switches:
  assumes "\<not> hasKey (fPlacements f) k" "fPlacements f' = fmupd k q (fPlacements f)" "fClusters f' = fClusters f"
  shows "keeps_switches f f'"
  by (rule keeps_switches_put [OF assms(2,3)]) (use assms(1) in \<open>auto simp: getPlacement_def fmdomI\<close>)

lemma ClearTarget_switches: "ClearTarget f t b = Inr f' \<Longrightarrow> keeps_switches f f'"
  using settle_switches unfolding placementFlags_def
  by (auto simp: ClearTarget_def placementFlags_def Let_def split: option.splits if_split_asm intro!: rest_switches [of f "Key t b"])

lemma SetTarget_switches: "SetTarget f t b c n = Inr f' \<Longrightarrow> keeps_switches f f'"
  by (auto simp: SetTarget_def placementFlags_def Let_def split: option.splits if_split_asm intro!: rest_switches [of f "Key t b"])

lemma Carve_switches: "Carve f t b pre = Inr f' \<Longrightarrow> keeps_switches f f'"
  using carved_state
  by (auto simp: Carve_def carveRefuses_def refuse.simps Let_def split: option.splits if_split_asm intro!: rest_switches [of f "Key t b"])

lemma Merge_switches: "Merge f t b pre = Inr f' \<Longrightarrow> keeps_switches f f'"
  using merged_state
  by (auto simp: Merge_def mergeRefuses_def refuse.simps Let_def split: option.splits if_split_asm intro!: rest_switches [of f "Key t b"])

lemma creates_switches:
  "Create f t b c n now = Inr f' \<Longrightarrow> keeps_switches f f'" "Adopt f t b c n now = Inr f' \<Longrightarrow> keeps_switches f f'"
  "CreateSpread f t b ls now = Inr f' \<Longrightarrow> keeps_switches f f'"
  by (auto simp: Create_def Adopt_def CreateSpread_def ensureTenant_def Let_def simp del: hasKey_iff
      intro!: new_switches [of f "Key t b"] split: if_split_asm sum.splits)

lemma clusters_switches:
  "SetTenantDefault f t c = Inr f' \<Longrightarrow> keeps_switches f f'" "RemoveCluster f n = Inr f' \<Longrightarrow> keeps_switches f f'"
  by (auto simp: SetTenantDefault_def RemoveCluster_def intro!: keeps_switches_same split: option.splits if_split_asm)

lemma keyMoving_watch: "keyMoving (p\<lparr>pWatch := w\<rparr>) key = keyMoving p key"
proof -
  let ?q = "p\<lparr>pWatch := w\<rparr>"
  have sc: "Scope ?q = Scope p" by (rule tables_cong) simp_all
  have l: "onLeg ?q = onLeg p" "MoveView ?q = MoveView p" by (simp_all add: fun_eq_iff onLeg_def MoveView_def Let_def)
  have o: "OwnerOf ?q key = OwnerOf p key" "InMove ?q key = InMove p key"
    unfolding OwnerOf_def InMove_def sc by simp_all
  have n: "Narrow ?q key = Narrow p key" unfolding Narrow_def l o by (simp split: option.split)
  have "narrowed ?q key = (if Spread p then Narrow p key else Inr ?q)" unfolding narrowed_def n by (simp add: Spread_def)
  then show ?thesis by (cases "Spread p") (simp_all add: keyMoving_def narrowed_def)
qed

lemma watch_switches:
  assumes "SetPlacementWatch f t b w = Inr f'"
  shows "keeps_switches f f'"
proof -
  obtain p where p: "getPlacement f (Key t b) = Some p" "f' = putPlacement f (Key t b) (p\<lparr>pWatch := w\<rparr>)"
    using assms by (auto simp: SetPlacementWatch_def Let_def split: option.splits if_split_asm)
  show ?thesis
    by (rule keeps_switches_put [of f' "Key t b" "p\<lparr>pWatch := w\<rparr>" f])
       (use p keyMoving_watch in \<open>simp_all add: placementFlags_def\<close>)
qed

lemma PutCluster_switches: "\<not> switches f (OpPutCluster n c s) \<Longrightarrow> keeps_switches f (PutCluster f n c)"
  by (rule keeps_switches_same)
     (auto simp: PutCluster_def ApplyClusterDefaults_def switches_def clusterFlags_def split: if_split_asm option.splits)

lemma runOp_switches:
  assumes "quiet op" "\<not> switches f op" "runOp op f = Inr f'"
  shows "keeps_switches f f'"
proof -
  note keep = ClearTarget_switches SetTarget_switches Carve_switches Merge_switches creates_switches clusters_switches watch_switches
  have inr: "opError r = Inr f' \<Longrightarrow> r = Inr f'" for r by (cases r) (simp_all add: opError_def)
  show ?thesis
  proof (cases op)
    case (OpPutCluster n c s)
    then show ?thesis using assms PutCluster_switches [of f n c s] by (auto simp: runOp_def split: if_split_asm)
  qed (use assms keep inr in \<open>auto simp: runOp_def quiet_def switches_def\<close>)
qed

subsection \<open>The clusters writes go to\<close>

lemma plain_written:
  assumes "plain_valid f k p" "plain_ok p" "placeWrite p key = Some b"
  shows "hasKey (fClusters f) (fst b)"
proof -
  have s: "\<not> Spread p" "pLegClusters p = fmempty" using assms(2) by (simp_all add: plain_ok_def)
  then have w: "acceptsWrite p key = Some b" using assms(3) by (simp add: placeWrite_def)
  then obtain rt where d: "Decide p ClassWrite key = Inr rt" "b = sideBucket p (rtCluster rt)"
    by (auto simp: acceptsWrite_def split: sum.splits if_split_asm)
  have "rtCluster rt = Source \<Longrightarrow> pSource p \<noteq> ''''"
    using d(1) by (auto simp: Decide_def toPrimary_def split: if_split_asm)
  then have "fst b = pPrimary p \<or> fst b = pSource p \<and> pSource p \<noteq> ''''"
    using d(2) s(2) by (cases "rtCluster rt") (auto simp: sideBucket_def roleBucket_def ClusterOf_def)
  moreover have "hasKey (fClusters f) (pPrimary p)" "pSource p \<noteq> '''' \<Longrightarrow> hasKey (fClusters f) (pSource p)"
    using assms(1) by (auto simp: plain_valid_def validateRoles_def dirRef_def Let_def split: if_split_asm)
  ultimately show ?thesis by auto
qed

lemma spread_written:
  assumes "spread_valid f k p" "spread_ok p" "placeWrite p key = Some b"
  shows "hasKey (fClusters f) (fst b)"
proof -
  have v: "checkV2 p = None" using assms(1) by (simp add: spread_valid_def)
  have "\<exists>i. hasKey (legsOf p) i \<and> b = legBucket p i"
  proof (cases "InMove p key")
    case True
    then obtain m where m: "pMove p = Some m" by (auto simp: InMove_def split: option.splits)
    have l: "hasKey (legsOf p) (mFrom m)" "hasKey (legsOf p) (mTo m)" "mFrom m \<noteq> mTo m"
      using v m by (auto simp: checkV2_def checkMoveLegs_def split: if_split_asm option.splits)
    obtain s where "b = sideBucket (MoveView p m) s"
      using assms(3) placeWrite_moving [OF spread_ok_routes [OF assms(2)] m True]
      by (auto simp: acceptsWrite_def split: sum.splits if_split_asm)
    then show ?thesis using MoveView_buckets [OF l(3), of p s] l(1,2) by (cases s) auto
  next
    case False
    have "ownsKeys p (ownerFor p key)" using ownerAt_ownsKeys [of p key] spread_ok_routes [OF assms(2)] by (simp add: routes_def)
    then show ?thesis
      using known_ownsKeys(1) [OF v] placeWrite_rest [OF spread_ok_routes [OF assms(2)] _ False] assms(2,3)
      by (auto simp: spread_ok_def)
  qed
  then show ?thesis using assms(1) by (auto simp: spread_valid_def legBucket_def simp del: hasKey_iff)
qed

lemma written_cluster:
  assumes "placement_valid f k p" "routable p" "placeWrite p key = Some b"
  shows "hasKey (fClusters f) (fst b)"
proof (cases "Spread p")
  case True
  then have "spread_valid f (''placements.'' @ k) p" "spread_ok p"
    using assms(1) placement_valid_ok [OF assms(1,2)] by (simp_all add: placement_valid_def placement_ok_def)
  then show ?thesis using assms(3) by (rule spread_written)
next
  case False
  then have "plain_valid f (''placements.'' @ k) p" "plain_ok p"
    using assms(1) placement_valid_ok [OF assms(1,2)] by (simp_all add: placement_valid_def placement_ok_def)
  then show ?thesis using assms(3) by (rule plain_written)
qed

lemma quiet_serves:
  assumes f: "validate f = []" and q: "quiet op" "\<not> switches f op" and n: "nextFile drawn op f = Inr f'"
    and p: "getPlacement f k = Some p" "routable p" "getPlacement f' k = Some p'" and c: "Class o' = ClassWrite"
  shows "serveRequest f' lost p' o' method key = Inr b \<longleftrightarrow> serveRequest f lost p o' method key = Inr b"
proof -
  from n obtain f1 where f1: "runOp op f = Inr f1" "validate f' = []" "fPlacements f' = fPlacements f1" "fClusters f' = fClusters f1"
    by (rule nextFile_Inr)
  have k: "keeps_switches f f'"
    using runOp_switches [OF q f1(1)] f1(3,4) by (simp add: keeps_switches_def getPlacement_def)
  have w: "placeWrite p' key = placeWrite p key"
    using nextFile_keeps [OF f q(1) n] p unfolding keeps_writes_def by (metis option.inject)
  have fl: "placementFlags p' = placementFlags p" "keyMoving p' key = keyMoving p key"
    using k p(1,3) unfolding keeps_switches_def by blast+
  have "frozen f' p' (fst b) = frozen f p (fst b)" if b: "placeWrite p key = Some b"
  proof -
    obtain cl where cl: "fmlookup (fClusters f) (fst b) = Some cl"
      using written_cluster [OF validate_placements(1) [OF f p(1)] p(2) b] by (auto dest: fmdom_notI)
    have "hasKey (fClusters f') (fst b)"
    proof (cases "fPlacements f' = fPlacements f")
      case True
      then have "p' = p" using p by (simp add: getPlacement_def)
      then have "placement_valid f' k p" using validate_placements(1) [OF f1(2) p(3)] by simp
      then show ?thesis using p(2) b by (rule written_cluster)
    next
      case False
      then show ?thesis using k cl by (auto simp: keeps_switches_def fmdomI)
    qed
    then obtain cl' where cl': "fmlookup (fClusters f') (fst b) = Some cl'" by (auto dest: fmdom_notI)
    then have "clusterFlags cl' = clusterFlags cl" using k cl unfolding keeps_switches_def by blast
    then show ?thesis using fl(1) cl cl' by (auto simp: frozen_def clusterFlags_def placementFlags_def)
  qed
  then show ?thesis unfolding serveRequest_Inr [OF c] w fl(2) by auto
qed

subsection \<open>Switches and barriers refuse\<close>

text \<open>The operations that stop the mutations of the placement \<open>k\<close>, or those that reach the cluster \<open>c\<close>.\<close>

definition stops :: "store_op \<Rightarrow> string \<Rightarrow> string \<Rightarrow> bool" where
  "stops op k c =
     (case op of
        OpSetPlacementReadOnly t b ro rj i \<Rightarrow> ro \<and> k = Key t b
      | OpSetBarrier t b br \<Rightarrow> bKind br = BarrierMutations \<and> k = Key t b
      | OpSetClusterReadOnly n ro rj i \<Rightarrow> ro \<and> c = n
      | _ \<Rightarrow> False)"

lemma stops_frozen:
  assumes "runOp op f = Inr f'" "stops op k c" "getPlacement f' k = Some p"
  shows "frozen f' p c"
proof -
  have inr: "opError r = Inr f' \<Longrightarrow> r = Inr f'" for r by (cases r) (simp_all add: opError_def)
  show ?thesis
  proof (cases op)
    case (OpSetPlacementReadOnly t b ro rj i)
    then have "SetPlacementReadOnly f t b True rj i = Inr f'" "k = Key t b" using assms inr by (simp_all add: runOp_def stops_def)
    then obtain q where "f' = putPlacement f k (q\<lparr>pReadOnly := True, pRejectWrites := rj, pBarrier := mutationsBarrier True i\<rparr>)"
      by (auto simp: SetPlacementReadOnly_def Let_def split: option.splits if_split_asm)
    then show ?thesis using assms(3) by (auto simp: getPlacement_def frozen_def)
  next
    case (OpSetBarrier t b br)
    then have "SetBarrier f t b br = Inr f'" "k = Key t b" "bKind br = BarrierMutations"
      using assms inr by (simp_all add: runOp_def stops_def)
    then obtain q where "f' = putPlacement f k q" "pausesMutations (pBarrier q)"
      by (auto simp: SetBarrier_def Let_def pausesMutations_def split: option.splits if_split_asm)
    then show ?thesis using assms(3) by (simp add: getPlacement_def frozen_def)
  next
    case (OpSetClusterReadOnly n ro rj i)
    then have "SetClusterReadOnly f c True rj i = Inr f'" using assms inr by (simp add: runOp_def stops_def)
    then show ?thesis by (auto simp: SetClusterReadOnly_def putCluster_def frozen_def split: option.splits if_split_asm)
  qed (use assms(2) in \<open>simp_all add: stops_def\<close>)
qed

lemma clustersRefuse_None:
  "clustersRefuse f cs = None \<Longrightarrow> c \<in> set cs \<Longrightarrow> fmlookup (fClusters f) c = Some cl \<Longrightarrow> \<not> cReadOnly cl \<and> cBarrier cl = None"
  by (induction cs) (auto split: option.splits if_split_asm)

lemma admitted_not_frozen:
  assumes "admitRequest byID f lost p o' method key pre = Inr (v, role, rt)" "Mutates o' method" "c \<in> set (clusterChecks v role rt)"
  shows "\<not> frozen f p c"
proof -
  have n: "narrowed p key = Inr v" and r: "placementRefuses v True = None" and c: "clustersRefuse f (clusterChecks v role rt) = None"
    using assms(1,2) by (auto simp: admitRequest_def Let_def split: sum.splits option.splits)
  show ?thesis
    using r clustersRefuse_None [OF c assms(3)] narrowed_flags [OF n] unfolding placementRefuses_None frozen_def by auto
qed

lemma stops_refuses:
  assumes "nextFile drawn op f = Inr f'" "stops op k c" "getPlacement f' k = Some p" "Mutates o' method"
    and "admitRequest byID f' lost p o' method key pre = Inr (v, role, rt)"
  shows "c \<notin> set (clusterChecks v role rt)"
proof
  assume c: "c \<in> set (clusterChecks v role rt)"
  from assms(1) obtain f1 where f1: "runOp op f = Inr f1" "fPlacements f' = fPlacements f1" "fClusters f' = fClusters f1"
    by (rule nextFile_Inr)
  have "frozen f1 p c" using stops_frozen [OF f1(1) assms(2)] assms(3) f1(2) by (simp add: getPlacement_def)
  then show False using admitted_not_frozen [OF assms(5,4) c] f1(3) by (simp add: frozen_def)
qed

end
