(* ===== verification/Examples.thy ===== *)
theory Examples
  imports Admission S3_Ops Config Routing
begin

text \<open>
  Concrete placements, transitions and a directory, evaluated in the logic: the inputs at which the properties
  of the development are witnessed.
\<close>

subsection \<open>Placements\<close>

definition ex_leg_a :: leg where "ex_leg_a = \<lparr>lCluster = ''east'', lBucket = ''wide-east''\<rparr>"

definition ex_leg_b :: leg where "ex_leg_b = \<lparr>lCluster = ''west'', lBucket = ''wide-west''\<rparr>"

text \<open>One bucket on one cluster.\<close>

definition ex_plain :: placement where
  "ex_plain = zeroPlacement\<lparr>pState := StateActive, pPrimary := ''east'', pNames := Some (fmap_of_list [(''east'', ''data-east'')])\<rparr>"

text \<open>One client bucket over two legs, at rest.\<close>

definition ex_spread :: placement where
  "ex_spread = zeroPlacement\<lparr>pState := StateActive, pKeyHash := RampHash,
     pLegs := Some (fmap_of_list [(''east'', ex_leg_a), (''west'', ex_leg_b)]),
     pOwners := Some [\<lparr>oFrom = 0, oTo = 0x7fffffffffffffff, oLeg = ''east''\<rparr>, \<lparr>oFrom = 0x8000000000000000, oTo = -1, oLeg = ''west''\<rparr>]\<rparr>"

subsection \<open>Transitions\<close>

definition ex_step :: "string \<Rightarrow> transition" where
  "ex_step to = \<lparr>tTo = to, tTarget = '''', tName = '''', tRatio = Fin 0, tPrefixes = [], tCutover = None,
     tHold = False, tRelease = False, tComplete = False, tBarrier = '''', tRange = None, tLeg = '''', tScope = '''', tShare = Fin 0\<rparr>"

text \<open>The first step of a move of \<open>ex_plain\<close>: writes under \<^verbatim>\<open>logs/\<close> are held.\<close>

definition ex_hold :: transition where
  "ex_hold = (ex_step StateRamping)\<lparr>tTarget := ''west'', tName := ''data-west'', tPrefixes := [''logs/''], tHold := True, tBarrier := ''op-1''\<rparr>"

definition ex_complete :: transition where
  "ex_complete = (ex_step StateRamping)\<lparr>tPrefixes := [''logs/''], tComplete := True, tBarrier := ''op-1''\<rparr>"

definition ex_release :: transition where
  "ex_release = (ex_step StateRamping)\<lparr>tRelease := True, tBarrier := ''op-1''\<rparr>"

text \<open>The first step of a move of half of the eastern range of \<open>ex_spread\<close> to the west.\<close>

definition ex_move :: transition where
  "ex_move = (ex_step StateRamping)\<lparr>tTarget := ''west'', tLeg := ''east'', tShare := Fin (1/2), tHold := True,
     tBarrier := ''op-2'', tRatio := Fin 1\<rparr>"

definition ex_move_complete :: transition where
  "ex_move_complete = (ex_step StateRamping)\<lparr>tRatio := Fin 1, tComplete := True, tBarrier := ''op-2''\<rparr>"

definition applied_to :: "placement \<Rightarrow> transition \<Rightarrow> placement" where
  "applied_to p t = (case Apply p t of Inr np \<Rightarrow> np | Inl _ \<Rightarrow> p)"

definition ex_held :: placement where
  "ex_held = ex_plain\<lparr>pState := StateRamping, pPrimary := ''west'', pSource := ''east'',
     pNames := Some (fmap_of_list [(''east'', ''data-east''), (''west'', ''data-west'')]),
     pBarrier := Some \<lparr>bID = ''op-1'', bKind = BarrierMutations\<rparr>,
     pRamp := Some \<lparr>rHash = RampHash, rRatio = Fin 0, rPrefixes = [], rRange = None,
       rHold = Some \<lparr>hRatio = Fin 0, hPrefixes = [''logs/'']\<rparr>\<rparr>\<rparr>"

definition ex_ramping :: placement where
  "ex_ramping = ex_plain\<lparr>pState := StateRamping, pPrimary := ''west'', pSource := ''east'',
     pNames := Some (fmap_of_list [(''east'', ''data-east''), (''west'', ''data-west'')]),
     pRamp := Some \<lparr>rHash = RampHash, rRatio = Fin 0, rPrefixes = [''logs/''], rRange = None, rHold = None\<rparr>\<rparr>"

definition ex_migrating :: placement where "ex_migrating = applied_to ex_ramping (ex_step StateMigrating)"

definition ex_moving :: placement where
  "ex_moving = ex_spread\<lparr>pState := StateRamping, pBarrier := Some \<lparr>bID = ''op-2'', bKind = BarrierMutations\<rparr>,
     pMove := Some \<lparr>mScope = [], mRange = \<lparr>rgFrom = 0, rgTo = 0x3fffffffffffffff\<rparr>, mFrom = ''east'', mTo = ''west'',
       mRamp = Some \<lparr>rHash = RampHash, rRatio = Fin 0, rPrefixes = [], rRange = Some \<lparr>rgFrom = 0, rgTo = 0x3fffffffffffffff\<rparr>,
         rHold = Some \<lparr>hRatio = Fin 1, hPrefixes = []\<rparr>\<rparr>, mCutover = None\<rparr>\<rparr>"

definition ex_moved :: placement where "ex_moved = applied_to ex_moving ex_move_complete"

subsection \<open>A directory\<close>

definition ex_cluster :: "string \<Rightarrow> cluster" where
  "ex_cluster host = \<lparr>cType = ''minio'', cScheme = ''https'', cRegion = ''us-east-1'', cEndpointMode = ''static'',
     cEndpoints = [host], cEndpoint = '''', cTLS = \<lparr>tlsCA = '''', tlsInsecureSkipVerify = False\<rparr>,
     cCredentials = \<lparr>crAccessKey = ''AK'', crSecretRef = ''env:SECRET''\<rparr>, cStorageClasses = '''', cStorageClass = '''', cAccess = '''',
     cCapabilities = \<lparr>capEnforcesSHA256 = None, capUnsignedTrailer = None, capConditionalWrite = None, capConditionalDelete = None\<rparr>,
     cReadOnly = False, cRejectWrites = False, cBarrier = None\<rparr>"

definition ex_identity :: identity where
  "ex_identity = \<lparr>idClusterID = ''00112233445566778899aabbccddeeff'', idEpoch = ''ffeeddccbbaa99887766554433221100''\<rparr>"

definition ex_file :: dir_file where
  "ex_file = \<lparr>fVersion = 4, fSchema = SchemaVersion, fIdentity = ex_identity, fGenerations = fmempty,
     fClusters = fmap_of_list [(''east'', ex_cluster ''10.0.0.1:9000''), (''west'', ex_cluster ''10.0.0.2:9000'')],
     fTenants = fmap_of_list [(''t'', \<lparr>tnDefaultCluster = ''east''\<rparr>)],
     fPlacements = fmap_of_list [(''t/data'', ex_plain), (''t/wide'', ex_spread)]\<rparr>"

definition ex_set :: store_op where "ex_set = OpSetState ''t'' ''data'' StateActive ex_hold"

definition after :: "store_op \<Rightarrow> dir_file \<Rightarrow> dir_file" where
  "after op f = (case nextFile None op f of Inr f' \<Rightarrow> f' | Inl _ \<Rightarrow> f)"

definition ex_file_held :: dir_file where
  "ex_file_held = ex_file\<lparr>fVersion := 5, fGenerations := fmap_of_list [(''placement:t/data'', 5)],
     fPlacements := fmap_of_list [(''t/data'', ex_held), (''t/wide'', ex_spread)]\<rparr>"

definition ex_file_ramping :: dir_file where
  "ex_file_ramping = ex_file\<lparr>fVersion := 6, fGenerations := fmap_of_list [(''placement:t/data'', 6)],
     fPlacements := fmap_of_list [(''t/data'', ex_ramping), (''t/wide'', ex_spread)]\<rparr>"

definition ex_file_spare :: dir_file where
  "ex_file_spare = ex_file\<lparr>fClusters := fmap_of_list [(''east'', ex_cluster ''10.0.0.1:9000''), (''old'', ex_cluster ''10.0.0.3:9000''),
     (''west'', ex_cluster ''10.0.0.2:9000'')]\<rparr>"

definition ex_iteration :: iteration where
  "ex_iteration = \<lparr>itPlacements = [''t/wide'', ''t/data''], itClusters = [''east'', ''west''],
     itNames = (\<lambda>k. if k = ''t/data'' then [''west'', ''east''] else []),
     itLegs = (\<lambda>k. if k = ''t/wide'' then [''east'', ''west''] else [])\<rparr>"

subsection \<open>Their values\<close>

lemma ex_file_valid: "validate ex_file = []" "validate ex_file_held = []"
  by code_simp+

lemma ex_next:
  "nextFile None ex_set ex_file = Inr ex_file_held"
  "nextFile None (OpSetState ''t'' ''data'' StateRamping ex_complete) ex_file_held = Inr ex_file_ramping"
  by code_simp+

lemma ex_placements:
  "getPlacement ex_file ''t/data'' = Some ex_plain" "getPlacement ex_file_held ''t/data'' = Some ex_held"
  "getPlacement ex_file ''t/wide'' = Some ex_spread"
  by code_simp+

lemma ex_steps:
  "Apply ex_plain ex_hold = Inr ex_held" "Apply ex_held ex_complete = Inr ex_ramping"
  "Apply ex_ramping (ex_step StateMigrating) = Inr ex_migrating"
  "Apply ex_spread ex_move = Inr ex_moving" "Apply ex_moving ex_move_complete = Inr ex_moved"
  by code_simp+

lemma ex_writes:
  "placeWrite ex_plain ''a'' = Some (''east'', ''data-east'')" "placeWrite ex_held ''a'' = Some (''east'', ''data-east'')"
  "placeWrite ex_plain ''logs/a'' = Some (''east'', ''data-east'')" "placeWrite ex_held ''logs/a'' = None"
  "placeWrite ex_ramping ''logs/a'' = Some (''west'', ''data-west'')"
  "placeWrite ex_migrating ''a'' = Some (''west'', ''data-west'')"
  by code_simp+

lemma ex_ratio: "isDouble (Fin 0)" "ratio_ok (Fin 0)" "isDouble (Fin 1)" "ratio_ok (Fin 1)"
  by code_simp+

lemma ex_routable: "routable ex_plain" "routable ex_held"
  using ex_ratio(1) by (simp_all add: routable_def ex_held_def ex_plain_def zeroPlacement_def Spread_def ramp_known_def)

lemma ex_moving_ok: "spread_ok ex_moving"
proof -
  have "Spread ex_moving" "checkV2 ex_moving = None" "checkSpread ex_moving = None" by code_simp+
  then show ?thesis
    using ex_ratio by (simp add: spread_ok_def ramp_ok_def ratios_ok_def ex_moving_def ex_spread_def zeroPlacement_def)
qed

lemma ex_ok: "placement_ok ex_plain" "placement_ok ex_held"
  using placement_valid_ok validate_placements(1) [OF ex_file_valid(1)] validate_placements(1) [OF ex_file_valid(2)]
    ex_placements ex_routable by blast+

subsection \<open>A proxy that drains a barrier\<close>

text \<open>An order of the maps is checked against the directory key by key.\<close>

definition iter_check :: "iteration \<Rightarrow> dir_file \<Rightarrow> bool" where
  "iter_check it f \<longleftrightarrow>
     set (itPlacements it) = set (sortedKeys (fPlacements f)) \<and> set (itClusters it) = set (sortedKeys (fClusters f)) \<and>
     list_all (\<lambda>key. case getPlacement f key of
         None \<Rightarrow> True
       | Some p \<Rightarrow> set (itNames it key) = set (sortedKeys (namesOf p)) \<and> set (itLegs it key) = set (sortedKeys (legsOf p)))
       (sortedKeys (fPlacements f))"

lemma iter_check:
  assumes "iter_check it f"
  shows "iter_ok it f"
proof -
  have "set (itNames it key) = fset (fmdom (namesOf p)) \<and> set (itLegs it key) = fset (fmdom (legsOf p))"
    if p: "getPlacement f key = Some p" for key p
  proof -
    have "key \<in> set (sortedKeys (fPlacements f))" using getPlacement_dom [OF p] by simp
    from bspec [OF assms [unfolded iter_check_def list_all_iff, THEN conjunct2, THEN conjunct2] this] show ?thesis
      by (simp add: p)
  qed
  then show ?thesis using assms by (simp add: iter_ok_def iter_check_def)
qed

definition ex_keeper :: gate_keeper where
  "ex_keeper = Served ex_iteration ex_iteration ex_file_held (Installed ex_iteration ex_iteration ex_file_held newKeeper)"

definition ex_keeper_later :: gate_keeper where
  "ex_keeper_later = Served ex_iteration ex_iteration ex_file_ramping (Installed ex_iteration ex_iteration ex_file_ramping ex_keeper)"

definition ex_keeper_busy :: gate_keeper where
  "ex_keeper_busy = ex_keeper_later\<lparr>gkGates := fst (Enter (gkGates ex_keeper_later) ''t/data'' KMutations 6)\<rparr>"

definition ex_ack :: ack where "ex_ack = hd (Acks ex_iteration (gkGates ex_keeper) ex_file_held)"

lemma ex_iteration_ok: "iter_ok ex_iteration ex_file_held"
  by (rule iter_check) code_simp

lemma ex_ack_facts: "ex_ack \<in> set (Acks ex_iteration (gkGates ex_keeper) ex_file_held)" "akClosed ex_ack" "akInflight ex_ack = 0"
  "akScope ex_ack = PlacementResource ''t/data''" "ownBarrier ex_file_held ''t/data'' = Some (\<lparr>bID = ''op-1'', bKind = BarrierMutations\<rparr>, KMutations)"
  by code_simp+

lemma ex_versions: "fVersion ex_file_held = 5" "fVersion ex_file_ramping = 6" "keeperVersion ex_keeper = 5"
  by code_simp+

lemma ex_entered: "snd (snd (snd (Enter (gkGates ex_keeper_later) ''t/data'' KMutations 6)))"
  "snd (snd (Enter (gkGates ex_keeper_later) ''t/data'' KMutations 4)) = (Superseded, False)"
  by code_simp+

lemma ex_fields:
  "gkInstalled ex_keeper = Some ex_file_held" "gkServed ex_keeper = Some ex_file_held" "gkServed newKeeper = None" "gkInstalled newKeeper = None"
  by (simp_all add: ex_keeper_def Served_def Installed_def newKeeper_def)

lemma ex_run:
  "kstep\<^sup>*\<^sup>* (newKeeper, {#}) (ex_keeper, {#})"
  "kstep\<^sup>*\<^sup>* (ex_keeper, {#}) (ex_keeper_busy, {#(''t/data'', KMutations, 6)#})"
proof -
  let ?i = "Installed ex_iteration ex_iteration ex_file_held newKeeper"
  have "kstep (newKeeper, {#}) (?i, {#})"
    by (rule kstep.kInstalled) (simp add: notOlder_def ex_fields)
  moreover have "kstep (?i, {#}) (ex_keeper, {#})"
    unfolding ex_keeper_def by (rule kstep.kServed) (simp add: notOlder_def Installed_def newKeeper_def)
  ultimately show "kstep\<^sup>*\<^sup>* (newKeeper, {#}) (ex_keeper, {#})"
    by (meson converse_rtranclp_into_rtranclp rtranclp.rtrancl_refl)
  let ?j = "Installed ex_iteration ex_iteration ex_file_ramping ex_keeper"
  have "kstep (ex_keeper, {#}) (?j, {#})"
    by (rule kstep.kInstalled) (simp add: notOlder_def ex_fields ex_versions)
  moreover have "kstep (?j, {#}) (ex_keeper_later, {#})"
    unfolding ex_keeper_later_def by (rule kstep.kServed) (simp add: notOlder_def Installed_def ex_fields ex_versions)
  moreover have "kstep (ex_keeper_later, {#}) (ex_keeper_busy, {#(''t/data'', KMutations, 6)#})"
    unfolding ex_keeper_busy_def using ex_entered(1) by (intro kstep.kEnter) (auto simp: prod_eq_iff)
  ultimately show "kstep\<^sup>*\<^sup>* (ex_keeper, {#}) (ex_keeper_busy, {#(''t/data'', KMutations, 6)#})"
    by (meson converse_rtranclp_into_rtranclp rtranclp.rtrancl_refl)
qed

end
