(* ===== verification/Control_Examples.thy ===== *)
theory Control_Examples
  imports Examples Fenced_Step
begin

text \<open>
  Concrete inputs for the control plane, evaluated in the logic: a fleet with one proxy that acknowledges a hold, a run of
  a barrier over it, the writes of a step, and an operation record that is begun and canceled.
\<close>

subsection \<open>A step and its writes\<close>

definition ex_backends :: backends where
  "ex_backends = \<lparr>beKnown = (\<lambda>_. True), beExists = (\<lambda>_ _. Inr True), beCreate = (\<lambda>_ _. None), beFirstKey = (\<lambda>_ _. Inr None),
     beProbe = (\<lambda>_ _. Inr (True, True)), beVersioning = (\<lambda>_ _. Inr '''')\<rparr>"

definition ex_ramp :: transition where
  "ex_ramp = (ex_step StateRamping)\<lparr>tTarget := ''west'', tName := ''data-west'', tPrefixes := [''logs/'']\<rparr>"

definition ex_share :: transition where
  "ex_share = (ex_step StateRamping)\<lparr>tTarget := ''west'', tName := ''data-west'', tRatio := Fin 1, tShare := Fin 1\<rparr>"

definition ex_share_held :: placement where "ex_share_held = applied_to ex_plain (holdOf ''op-1'' ex_share)"

lemma ex_commit: "snd (commitStep ex_backends (None, None) [] ''op-1'' ''t/data'' StateActive ex_ramp False ex_file_held ex_file_held) = ex_file_ramping"
  by code_simp

lemma ex_share_steps:
  "Apply ex_plain (holdOf ''op-1'' ex_share) = Inr ex_share_held" "Apply ex_plain ex_share \<noteq> Inl e"
  by code_simp+

subsection \<open>A fleet that drains\<close>

definition ex_incarnation :: string where "ex_incarnation = ''0123456789abcdef0123456789abcdef''"

definition ex_acknowledged :: ack where
  "ex_acknowledged = \<lparr>akID = ''op-1'', akScope = ''placement:t/data'', akGeneration = 5, akKind = ''mutations'', akClosed = True, akInflight = 0, akUncertain = 0\<rparr>"

definition ex_beat :: "ack list \<Rightarrow> heartbeat" where
  "ex_beat acks = \<lparr>hbProtocol = 2, hbIdentity = ex_identity, hbStarted = 10, hbIncarnation = ex_incarnation, hbPrevious = [], hbUncertain = 0, hbSeq = 1,
     hbApplied = 5, hbDurable = 5, hbInstalled = 5, hbSecretsHeld = fmempty, hbBarriers = acks\<rparr>"

definition beaten :: "heartbeat \<Rightarrow> fleet \<Rightarrow> fleet" where
  "beaten hb fl = (case Heartbeat 30 100 ''n1'' ''p1'' [] hb fl of Inr (fl', g) \<Rightarrow> fl' | Inl _ \<Rightarrow> fl)"

text \<open>The proxy first reports without the hold, then with it closed and drained.\<close>

definition ex_fleet :: "nat \<Rightarrow> fleet" where
  "ex_fleet n = (if n = 0 then beaten (ex_beat []) newFleet else beaten (ex_beat [ex_acknowledged]) (beaten (ex_beat []) newFleet))"

definition ex_history :: "nat \<Rightarrow> history" where
  "ex_history n = (if n = 0 then beat ''p1'' (ex_beat []) newHistory else beat ''p1'' (ex_beat [ex_acknowledged]) (beat ''p1'' (ex_beat []) newHistory))"

lemma ex_heartbeats:
  "\<exists>g. Heartbeat 30 100 ''n1'' ''p1'' [] (ex_beat []) newFleet = Inr (beaten (ex_beat []) newFleet, g)"
  "\<exists>g. Heartbeat 30 100 ''n1'' ''p1'' [] (ex_beat [ex_acknowledged]) (beaten (ex_beat []) newFleet) =
     Inr (beaten (ex_beat [ex_acknowledged]) (beaten (ex_beat []) newFleet), g)"
  "heartbeatRefuses ex_file_held ''p1'' (ex_beat []) = None" "heartbeatRefuses ex_file_held ''p1'' (ex_beat [ex_acknowledged]) = None"
proof -
  have "case Heartbeat 30 100 ''n1'' ''p1'' [] (ex_beat []) newFleet of Inr _ \<Rightarrow> True | Inl _ \<Rightarrow> False" by code_simp
  then show "\<exists>g. Heartbeat 30 100 ''n1'' ''p1'' [] (ex_beat []) newFleet = Inr (beaten (ex_beat []) newFleet, g)"
    by (auto simp: beaten_def split: sum.splits)
  have "case Heartbeat 30 100 ''n1'' ''p1'' [] (ex_beat [ex_acknowledged]) (beaten (ex_beat []) newFleet) of Inr _ \<Rightarrow> True | Inl _ \<Rightarrow> False" by code_simp
  then show "\<exists>g. Heartbeat 30 100 ''n1'' ''p1'' [] (ex_beat [ex_acknowledged]) (beaten (ex_beat []) newFleet) =
     Inr (beaten (ex_beat [ex_acknowledged]) (beaten (ex_beat []) newFleet), g)"
    by (auto simp: beaten_def [of "ex_beat [ex_acknowledged]"] split: sum.splits)
  show "heartbeatRefuses ex_file_held ''p1'' (ex_beat []) = None" "heartbeatRefuses ex_file_held ''p1'' (ex_beat [ex_acknowledged]) = None"
    by code_simp+
qed

lemma ex_fleet_run: "fleet_step\<^sup>*\<^sup>* (newFleet, newHistory) (ex_fleet n, ex_history n)"
proof -
  obtain g1 g2 where g: "Heartbeat 30 100 ''n1'' ''p1'' [] (ex_beat []) newFleet = Inr (beaten (ex_beat []) newFleet, g1)"
    "Heartbeat 30 100 ''n1'' ''p1'' [] (ex_beat [ex_acknowledged]) (beaten (ex_beat []) newFleet) =
       Inr (beaten (ex_beat [ex_acknowledged]) (beaten (ex_beat []) newFleet), g2)"
    using ex_heartbeats(1,2) by blast
  have 1: "fleet_step (newFleet, newHistory) (beaten (ex_beat []) newFleet, beat ''p1'' (ex_beat []) newHistory)"
    by (rule fleet_step.heartbeat [OF ex_heartbeats(3) _ g(1)]) simp
  have 2: "fleet_step (beaten (ex_beat []) newFleet, beat ''p1'' (ex_beat []) newHistory)
    (beaten (ex_beat [ex_acknowledged]) (beaten (ex_beat []) newFleet), beat ''p1'' (ex_beat [ex_acknowledged]) (beat ''p1'' (ex_beat []) newHistory))"
    by (rule fleet_step.heartbeat [OF ex_heartbeats(4) _ g(2)]) simp
  have a: "fleet_step\<^sup>*\<^sup>* (newFleet, newHistory) (beaten (ex_beat []) newFleet, beat ''p1'' (ex_beat []) newHistory)"
    using 1 by (rule r_into_rtranclp)
  have b: "fleet_step\<^sup>*\<^sup>* (newFleet, newHistory)
    (beaten (ex_beat [ex_acknowledged]) (beaten (ex_beat []) newFleet), beat ''p1'' (ex_beat [ex_acknowledged]) (beat ''p1'' (ex_beat []) newHistory))"
    using a 2 by (rule rtranclp.rtrancl_into_rtrancl)
  show ?thesis
  proof (cases "n = 0")
    case True
    show ?thesis unfolding ex_fleet_def ex_history_def if_P [OF True] by (rule a)
  next
    case False
    show ?thesis unfolding ex_fleet_def ex_history_def if_not_P [OF False] by (rule b)
  qed
qed

lemma ex_process: "(''p1'', ex_incarnation) \<in> hyStarted (ex_history n)" "(''p1'', ex_incarnation) \<notin> hyEnded (ex_history n)"
  by (simp_all add: ex_history_def beat_def ex_beat_def newHistory_def)

subsection \<open>A run of a barrier\<close>

definition ex_barrier :: barrier_state where
  "ex_barrier = (newBarrier ''op-1'' ''placement:t/data'' ''mutations'' None)\<lparr>bsHoldVersion := 5, bsGeneration := 5, bsHeldAt := 100\<rparr>"

definition ex_world :: world where
  "ex_world = \<lparr>wHoldCheck = None, wHold = Inr (5, 5, 100), wCarried = Inr True, wCheck = (\<lambda>_. None),
     wEval = (\<lambda>n. drainBlockers (Members 100 (ex_fleet n)) ex_identity None ex_barrier None), wSleep = (\<lambda>_. True), wDrainedAt = 101,
     wCommitCheck = (\<lambda>_. None), wCommit = (\<lambda>_. CommitDone 6 False), wDispatched = (\<lambda>_. False), wCommitSleep = (\<lambda>_. True), wCommittedAt = 102\<rparr>"

lemma ex_eval: "evalBlockers ex_world 0 \<noteq> []" "evalBlockers ex_world (Suc 0) = []"
  by code_simp+

lemma ex_world_sel [simp]:
  "wHoldCheck ex_world = None" "wHold ex_world = Inr (5, 5, 100)" "wCarried ex_world = Inr True" "wCheck ex_world n = None" "wSleep ex_world n"
  "wCommitCheck ex_world n = None" "wCommit ex_world n = CommitDone 6 False" "wDrainedAt ex_world = 101" "wCommittedAt ex_world = 102"
  "wEval ex_world n = drainBlockers (Members 100 (ex_fleet n)) ex_identity None ex_barrier None"
  by (simp_all add: ex_world_def)

definition ex_events :: "event list" where
  "ex_events = [EvBarrier (newBarrier ''op-1'' ''placement:t/data'' ''mutations'' None) [], EvPhase PhaseHold, EvHold, EvBarrier ex_barrier [ActionCancel],
     EvPhase PhaseDrain, EvBlocked (evalBlockers ex_world 0), EvBlocked [], EvDrained (Suc 0), EvPhase PhaseCommit]"

lemma ex_drained:
  "blockUntil ex_world 0 evs = Some (None, evs @ [EvBlocked (evalBlockers ex_world 0), EvBlocked [], EvDrained (Suc 0)])"
proof -
  have "blockUntil ex_world (Suc 0) evs' = Some (None, evs' @ [EvBlocked [], EvDrained (Suc 0)])" for evs'
    by (subst blockUntil.simps) (simp only: ex_world_sel option.case ex_eval(2) if_True HOL.simp_thms)
  then show ?thesis
    by (subst blockUntil.simps) (simp only: ex_world_sel option.case ex_eval(1) if_False not_True_eq_False append.assoc append.simps)
qed

lemma ex_barrier_run:
  "\<exists>st' post. runBarrier ex_world ''op-1'' ''placement:t/data'' ''mutations'' None None = Some (Inr st', ex_events @ EvCommit 0 # post)"
proof -
  let ?st = "ex_barrier\<lparr>bsDrainedAt := 101\<rparr>" and ?b = "newBarrier ''op-1'' ''placement:t/data'' ''mutations'' None"
  have c: "\<exists>st' post. commitPhase ex_world ?st evs = Some (Inr st', evs @ EvPhase PhaseCommit # EvCommit 0 # post)" for evs
    by (simp add: commitPhase_def Let_def commitLoop.simps [of ex_world 0])
  have "\<not> bsCommitted ?b" "bsHoldVersion ?b = 0" by (simp_all add: ex_barrier_def newBarrier_def)
  then have "runBarrier ex_world ''op-1'' ''placement:t/data'' ''mutations'' None None =
    commitPhase ex_world ?st [EvBarrier ?b [], EvPhase PhaseHold, EvHold, EvBarrier ex_barrier [ActionCancel], EvPhase PhaseDrain,
      EvBlocked (evalBlockers ex_world 0), EvBlocked [], EvDrained (Suc 0)]"
    by (simp add: runBarrier_def holdPhase_def drainPhase_def ex_drained Let_def ex_barrier_def [symmetric])
  then show ?thesis using c unfolding ex_events_def by (metis append.simps)
qed

subsection \<open>Two operations\<close>

definition ex_operation :: "string \<Rightarrow> string list \<Rightarrow> operation" where
  "ex_operation key clusters =
     \<lparr>opID = '''', opKind = OpRamp, opPlacement = key, opCluster = '''', opActor = '''', opNode = '''', opIdentity = ex_identity,
      opScope = Some \<lparr>scResource = ''placement:'' @ key, scGeneration = 0, scClusters = clusters\<rparr>, opRequestID = '''', opIntentDigest = '''',
      opSequence = 0, opOwnerTerm = 0, opCreated = 0, opUpdated = 0, opStatus = '''', opEffectState = '''', opAllowedActions = [], opBlockers = [],
      opBlockerCount = 0, opBarrier = None, opWorker = None, opCancelRequest = None, opPhase = '''', opWaitingOn = [], opVersion = 0,
      opMover = None, opError = None\<rparr>"

definition begun :: "string \<Rightarrow> operation \<Rightarrow> mem_operations \<Rightarrow> mem_operations \<times> tracker" where
  "begun i op m =
     (case beginTracker 100 i ''ops'' ''lab'' ex_file (sortedKeys (moByID m)) None op m of
        Inr r \<Rightarrow> r
      | Inl _ \<Rightarrow> (m, \<lparr>trOp = op, trLost = True, trStartVersion = 0\<rparr>))"

definition ex_first :: "mem_operations \<times> tracker" where
  "ex_first = begun ''op-1'' (ex_operation ''t/data'' [''east'', ''west'']) (newOperations 10 10 ''lab'')"

definition ex_second :: "mem_operations \<times> tracker" where
  "ex_second = begun ''op-2'' (ex_operation ''t/wide'' [''east'', ''west'']) (fst ex_first)"

lemma ex_begun:
  "beginTracker 100 ''op-1'' ''ops'' ''lab'' ex_file (sortedKeys (moByID (newOperations 10 10 ''lab''))) None (ex_operation ''t/data'' [''east'', ''west''])
     (newOperations 10 10 ''lab'') = Inr ex_first"
  "beginTracker 100 ''op-2'' ''ops'' ''lab'' ex_file (sortedKeys (moByID (fst ex_first))) None (ex_operation ''t/wide'' [''east'', ''west''])
     (fst ex_first) = Inr ex_second"
  "opID (trOp (snd ex_first)) = ''op-1''" "\<not> trLost (snd ex_first)"
proof -
  have "case beginTracker 100 ''op-1'' ''ops'' ''lab'' ex_file (sortedKeys (moByID (newOperations 10 10 ''lab''))) None
      (ex_operation ''t/data'' [''east'', ''west'']) (newOperations 10 10 ''lab'') of Inr _ \<Rightarrow> True | Inl _ \<Rightarrow> False"
    by code_simp
  then show "beginTracker 100 ''op-1'' ''ops'' ''lab'' ex_file (sortedKeys (moByID (newOperations 10 10 ''lab''))) None (ex_operation ''t/data'' [''east'', ''west''])
     (newOperations 10 10 ''lab'') = Inr ex_first"
    unfolding ex_first_def begun_def by (auto split: sum.splits)
  have "case beginTracker 100 ''op-2'' ''ops'' ''lab'' ex_file (sortedKeys (moByID (fst ex_first))) None (ex_operation ''t/wide'' [''east'', ''west''])
     (fst ex_first) of Inr _ \<Rightarrow> True | Inl _ \<Rightarrow> False"
    by code_simp
  then show "beginTracker 100 ''op-2'' ''ops'' ''lab'' ex_file (sortedKeys (moByID (fst ex_first))) None (ex_operation ''t/wide'' [''east'', ''west''])
     (fst ex_first) = Inr ex_second"
    unfolding ex_second_def begun_def by (auto split: sum.splits)
  show "opID (trOp (snd ex_first)) = ''op-1''" "\<not> trLost (snd ex_first)" by code_simp+
qed

lemma ex_operations_run:
  "op_step\<^sup>*\<^sup>* (newOperations 10 10 ''lab'', []) (fst ex_first, [snd ex_first])"
  "op_step\<^sup>*\<^sup>* (newOperations 10 10 ''lab'', []) (fst ex_second, [snd ex_second, snd ex_first])"
proof -
  have "op_step (newOperations 10 10 ''lab'', [] @ []) (fst ex_first, [] @ snd ex_first # [])"
    by (rule op_step.started [of 100 "''op-1''" "''ops''" "''lab''" ex_file "sortedKeys (moByID (newOperations 10 10 ''lab''))" None
          "ex_operation ''t/data'' [''east'', ''west'']"]) (simp_all only: ex_begun(1) set_sortedKeys prod.collapse, simp)
  then show a: "op_step\<^sup>*\<^sup>* (newOperations 10 10 ''lab'', []) (fst ex_first, [snd ex_first])" by (simp add: r_into_rtranclp)
  have "op_step (fst ex_first, [] @ [snd ex_first]) (fst ex_second, [] @ snd ex_second # [snd ex_first])"
    by (rule op_step.started [of 100 "''op-2''" "''ops''" "''lab''" ex_file "sortedKeys (moByID (fst ex_first))" None
          "ex_operation ''t/wide'' [''east'', ''west'']"]) (simp_all only: ex_begun(2) set_sortedKeys prod.collapse, simp add: ex_begun(3))
  then show "op_step\<^sup>*\<^sup>* (newOperations 10 10 ''lab'', []) (fst ex_second, [snd ex_second, snd ex_first])"
    using a rtranclp.rtrancl_into_rtrancl by fastforce
qed

lemma ex_records:
  "fmlookup (moByID (fst ex_second)) ''op-1'' = Some (trOp (snd ex_first))" "fmlookup (moByID (fst ex_second)) ''op-2'' = Some (trOp (snd ex_second))"
  "\<not> Terminal (trOp (snd ex_first))" "\<not> Terminal (trOp (snd ex_second))"
  "opScope (trOp (snd ex_first)) = Some \<lparr>scResource = ''placement:t/data'', scGeneration = 0, scClusters = [''east'', ''west'']\<rparr>"
  "opScope (trOp (snd ex_second)) = Some \<lparr>scResource = ''placement:t/wide'', scGeneration = 0, scClusters = [''east'', ''west'']\<rparr>"
  by code_simp+

definition ex_canceled :: "mem_operations \<times> operation" where
  "ex_canceled = (case updateRecord 200 ''op-1'' (cancelEnd ''bob'' ''lab'' 0 False) (fst ex_first) of
     Inr (m, op, b) \<Rightarrow> (m, op) | Inl _ \<Rightarrow> (fst ex_first, trOp (snd ex_first)))"

lemma ex_cancel:
  "updateRecord 200 ''op-1'' (cancelEnd ''bob'' ''lab'' 0 False) (fst ex_first) = Inr (fst ex_canceled, snd ex_canceled, True)"
  "Get (fst ex_canceled) ''op-1'' = Some (snd ex_canceled)" "opKind (snd ex_canceled) \<noteq> OpControlJoin"
proof -
  have "case updateRecord 200 ''op-1'' (cancelEnd ''bob'' ''lab'' 0 False) (fst ex_first) of Inr (_, _, b) \<Rightarrow> b | Inl _ \<Rightarrow> False" by code_simp
  then show "updateRecord 200 ''op-1'' (cancelEnd ''bob'' ''lab'' 0 False) (fst ex_first) = Inr (fst ex_canceled, snd ex_canceled, True)"
    unfolding ex_canceled_def by (auto split: sum.splits prod.splits)
  show "Get (fst ex_canceled) ''op-1'' = Some (snd ex_canceled)" "opKind (snd ex_canceled) \<noteq> OpControlJoin" by code_simp+
qed

end
