(* ===== verification/Spec2Isabelle.thy ===== *)
theory Spec2Isabelle
  imports Config S3_Ops Routing Composition Names Fenced_Step Serving Control_Examples
begin

text \<open>
  A verification development of shunt, an S3 front end that moves buckets between storage clusters while clients
  keep reading and writing them.

  \<^bold>\<open>The program.\<close> A \<^emph>\<open>directory\<close> says for every client bucket (a placement) on which clusters its objects are and in which
  state of a migration it is. Proxies install versions of the directory and route each request by one of them. The
  control plane changes the directory: one write at a time, each a new version. Since proxies install a version at
  different moments, two of them may route by different versions at once. A step that moves writes is therefore
  \<^emph>\<open>fenced\<close>: it is written as a hold, which refuses the writes it is about to move; it is completed only once every
  proxy has closed its gates on the hold and drained the requests in flight. The central question is whether a
  write can be accepted by two proxies into two different buckets.

  \<^bold>\<open>The theories\<close>, from the bottom up, and the files under \<^verbatim>\<open>src/internal\<close> they model.

  \<^item> \<^verbatim>\<open>Prelude\<close>: Go maps as finite maps with sorted keys, nil-able values as options, messages as a format and its
    arguments, guard lists (\<^verbatim>\<open>refuse\<close>). \<^verbatim>\<open>Float64\<close>: Go's \<^verbatim>\<open>float64\<close> as rationals that are doubles, the infinities and NaN,
    with rounding written out. \<^verbatim>\<open>Sha256\<close>: the hash of backend names, bucket tags and idempotency keys.
  \<^item> \<^verbatim>\<open>Config\<close> (\<^verbatim>\<open>config/barrier.go\<close>, \<^verbatim>\<open>config.go\<close>, \<^verbatim>\<open>validate.go\<close>), \<^verbatim>\<open>S3_Ops\<close> (\<^verbatim>\<open>s3/op.go\<close>, \<^verbatim>\<open>classify.go\<close>, \<^verbatim>\<open>request.go\<close>,
    \<^verbatim>\<open>bucketname.go\<close>, \<^verbatim>\<open>listingkey.go\<close>, \<^verbatim>\<open>credential.go\<close>): clusters and barriers; the operations, the rule table and the
    classifier, as a first-match search over the table.
  \<^item> \<^verbatim>\<open>Hash_Ranges\<close>, \<^verbatim>\<open>Placement\<close>, \<^verbatim>\<open>Legs\<close>, \<^verbatim>\<open>Transition\<close>, \<^verbatim>\<open>Lifecycle\<close> (\<^verbatim>\<open>directory/directory.go\<close>, \<^verbatim>\<open>scopes.go\<close>, \<^verbatim>\<open>legs.go\<close>,
    \<^verbatim>\<open>moves.go\<close>, \<^verbatim>\<open>transition.go\<close>): ranges of the 64-bit hash space as words, owner tables and their binary search, the
    placement record, its two schemas, and \<^verbatim>\<open>Apply\<close>, the function behind every state change.
  \<^item> \<^verbatim>\<open>Routing\<close> (\<^verbatim>\<open>migrate/route.go\<close>, \<^verbatim>\<open>uploadid.go\<close>): \<^verbatim>\<open>Decide\<close>, ramps and holds, \<^verbatim>\<open>Narrow\<close> for a bucket spread over legs.
  \<^item> \<^verbatim>\<open>Fencing\<close>, \<^verbatim>\<open>Handover\<close>: where a placement accepts a write (\<^verbatim>\<open>placeWrite\<close>: the route and its bucket, apart from the
    switches and barriers that pause writes), and what \<^verbatim>\<open>Apply\<close> does to it.
  \<^item> \<^verbatim>\<open>Directory\<close>, \<^verbatim>\<open>Validate\<close>, \<^verbatim>\<open>File_Store\<close>, \<^verbatim>\<open>Names\<close> (\<^verbatim>\<open>directory/mutations.go\<close>, \<^verbatim>\<open>validate.go\<close>, \<^verbatim>\<open>file.go\<close>, \<^verbatim>\<open>identity.go\<close>,
    \<^verbatim>\<open>names.go\<close>): the directory file, every mutation of it (\<^verbatim>\<open>store_op\<close>), validation, and the write path as one function
    \<^verbatim>\<open>nextFile\<close>, which applies an operation, stamps versions, generations and identity, and validates; reloading.
  \<^item> \<^verbatim>\<open>Admission\<close> (\<^verbatim>\<open>admission/admission.go\<close>, \<^verbatim>\<open>proxy/gates.go\<close>): gates, tokens, closures, and the keeper that follows the
    installed and the published directory, with a step relation \<^verbatim>\<open>kstep\<close> for a proxy's interleavings.
  \<^item> \<^verbatim>\<open>Serving\<close> (\<^verbatim>\<open>proxy/resign.go\<close>, \<^verbatim>\<open>buckets.go\<close>): which object requests a proxy admits and to which bucket: maintenance
    switches and barriers of the bucket and of its clusters, held keys, a proxy without its control node, upload ids.
  \<^item> \<^verbatim>\<open>Composition\<close>: one write of the directory, seen by a proxy on the old and one on the new version.
  \<^item> \<^verbatim>\<open>Fleet\<close> (\<^verbatim>\<open>control/fleet.go\<close>, \<^verbatim>\<open>cp/fleet.go\<close>): the records of member proxies and their processes, with the step
    relation \<^verbatim>\<open>fleet_step\<close> beside a history of what the processes did.
  \<^item> \<^verbatim>\<open>Operations\<close>, \<^verbatim>\<open>Operation_Store\<close> (\<^verbatim>\<open>control/operation.go\<close>, \<^verbatim>\<open>scope.go\<close>, \<^verbatim>\<open>worker.go\<close>): operation records, the scopes they
    reserve, their owners' writes, cancellation and resumption, with the step relation \<^verbatim>\<open>op_step\<close>.
  \<^item> \<^verbatim>\<open>Drain\<close> (\<^verbatim>\<open>control/barrier.go\<close>): what blocks a barrier and the run of one: hold, drain, commit.
  \<^item> \<^verbatim>\<open>Fenced_Step\<close> (\<^verbatim>\<open>control/ops.go\<close>, parts of \<^verbatim>\<open>server.go\<close> and \<^verbatim>\<open>backend.go\<close>): a ramp or migrate step, its checks, its
    hold and its completion as the closures of a barrier.
  \<^item> \<^verbatim>\<open>Examples\<close>, \<^verbatim>\<open>Control_Examples\<close>: concrete directories, proxies, fleets and operations for the witnesses below.

  \<^bold>\<open>Interfaces\<close> are locales, each interpreted on the model's own definitions: the owner table and its search
  (\<^verbatim>\<open>owner_table\<close>, \<^verbatim>\<open>Hash_Ranges\<close>), the gates under barriers (\<^verbatim>\<open>barrier_gates\<close>, \<^verbatim>\<open>Admission\<close>), and the seam between the
  request path and the directory (\<^verbatim>\<open>directory_seam\<close>, \<^verbatim>\<open>File_Store\<close>).

  \<^bold>\<open>What is shown.\<close>

  \<^item> \<^emph>\<open>Where writes go\<close> (C1 to C6): one write of the directory never moves a write that the old and the new version
    both accept, for every operation and every fenced state change; holds, completions, releases and moves keep the
    writes they should; operations that change no state move nothing, and those that write no switch and no barrier
    leave the admitted writes exactly as they were.
  \<^item> \<^emph>\<open>Barriers and admission\<close> (C7 to C9): an acknowledged barrier is final; gates follow the directories; counts are tokens.
  \<^item> \<^emph>\<open>The directory\<close> (C10 to C15): generations, lineage, disjoint backend buckets, reloads, removal of clusters, the seam.
  \<^item> \<^emph>\<open>Owner tables, legs, transitions, routing, names and requests\<close> (C16 to C33): the search and the reassignment of
    ranges against their specifications, bounds of shares, the schema round trip, listings, the transition table,
    totality and the one divergence of \<^verbatim>\<open>newLegID\<close>, ramps, reads after writes, the upload id codec, generated names, the
    classifier.
  \<^item> \<^emph>\<open>Maintenance, fenced steps and the control plane\<close> (C34 to C40): switches and barriers refuse mutations; no write of a
    fenced step moves an accepted write; a barrier attempts its commit only after the fleet has drained, and commits
    when it can; unfinished operations never overlap; a cancellation stops the owner; the fleet keeps every process
    that may still write on record.

  \<^bold>\<open>Parameters, bounds and idealisations.\<close> What backends answer, the YAML decoder, the order of Go's map iteration, drawn
  identities, clocks and the configured set of clusters are arguments of the definitions that use them. The
  loops that may not end (\<^verbatim>\<open>blockUntil\<close>, \<^verbatim>\<open>commitLoop\<close>, \<^verbatim>\<open>newLegID\<close>) are \<^verbatim>\<open>partial_function (option)\<close>, so that not returning
  is \<^verbatim>\<open>None\<close>; every other recursion terminates, and no fuel is used. Hashes and range ends are 64-bit words; versions,
  generations and counts are unbounded integers where Go has \<^verbatim>\<open>int64\<close>, so a wrap-around after \<open>2\<^sup>6\<^sup>3\<close> writes is out of scope.
  Error values keep the text and the kind a caller tells apart: a reload reports parse and validation errors alike.
  The hook that a reload calls after installing is not represented. Strings are bytes: two stored texts are compared byte by
  byte, where Go's JSON would first replace invalid UTF-8, and lower-casing is that of ASCII, which is all that
  tenant, bucket and host names may contain. A heartbeat's list of forgotten processes is an argument, since it is
  read before the transaction. Locked sections are single steps, and a retried transaction is its successful round.
  Two files stand for the directory where a call reads a snapshot and writes later. In \<^verbatim>\<open>Serving\<close> the upload
  ids of a query are given as their common prefix, and the gates entered after its checks are those of \<^verbatim>\<open>Admission\<close>.

  \<^bold>\<open>Not modelled.\<close> Bytes on the wire and on disk: HTTP, TLS, YAML, JSON and XML, request signing and chunked bodies; the
  etcd store and its watches; the streaming of objects, conditional writes, copies, merged listings and multi-object
  deletes of the proxy; the mover and the verifier, which copy and compare objects; the wait for the fleet after a
  commit, and the operator verbs other than ramp and migrate steps (cutover, purge, expand, adopt), except for the
  directory writes they make; the proxy's own side of the heartbeat protocol; telemetry, views, the command line.
  These are input and output around the decisions above, or third-party services.
\<close>

section \<open>Where writes go\<close>

text \<open>C1. One write of the directory never moves an accepted write: when a valid directory is changed by any operation of
  the store, and the state changes among them are fenced (they hold the keys they move, complete a hold, undo it, or
  leave a state in which all writes already go to the new side), a proxy on the old version and a proxy on the new
  one that both accept a write of a key put it in the same backend bucket.\<close>

theorem directory_step_one_bucket:
  assumes "validate f = []" "nextFile drawn op f = Inr f'"
    and "getPlacement f k = Some p" "getPlacement f' k = Some p'" "routable p"
    and "\<And>t b st tr. op = OpSetState t b st tr \<Longrightarrow> Key t b = k \<Longrightarrow> ratio_ok (tRatio tr) \<and> fenced p tr"
    and "placeWrite p key = Some b" "placeWrite p' key = Some b'"
  shows "b' = b"
  using nextFile_fenced [OF assms(1-5) _ assms(7,8)] assms(6) by blast

theorem directory_step_one_bucket_witness:
  "placeWrite ex_plain ''a'' = placeWrite ex_held ''a'' \<and> placeWrite ex_held ''a'' \<noteq> None"
proof -
  have "ratio_ok (tRatio tr) \<and> fenced ex_plain tr" if "ex_set = OpSetState t b st tr" for t b st tr
    using that ex_ratio by (auto simp: ex_set_def ex_hold_def ex_step_def fenced_def)
  then show ?thesis
    using directory_step_one_bucket [OF ex_file_valid(1) ex_next(1) ex_placements(1,2) ex_routable(1) _ ex_writes(1,2)] ex_writes by simp
qed

text \<open>C2. Holding the keys a step moves refuses writes and moves none: a write accepted under the hold was accepted
  before it, in the same bucket.\<close>

theorem hold_moves_no_write:
  assumes "placement_ok p" "Apply p t = Inr np" "tHold t" "\<not> tRelease t" "placeWrite np key = Some b"
  shows "placeWrite p key = Some b"
  using assms by (rule Apply_hold)

theorem hold_moves_no_write_witness:
  "placeWrite ex_held ''a'' = Some (''east'', ''data-east'') \<and> placeWrite ex_plain ''a'' = Some (''east'', ''data-east'')"
  using hold_moves_no_write [OF ex_ok(1) ex_steps(1) _ _ ex_writes(2)] ex_writes(2) by (simp add: ex_hold_def ex_step_def)

text \<open>C3. Completing a held step keeps every write that was accepted under the hold in its bucket; the held keys, which
  were refused, are the only ones whose writes start going to the new side.\<close>

theorem complete_moves_held_keys_only:
  assumes "placement_ok p" "pState p = StateRamping" "Held p" "Apply p t = Inr np" "\<not> tHold t" "\<not> tRelease t" "ratio_ok (tRatio t)"
    and "placeWrite p key = Some b"
  shows "placeWrite np key = Some b"
  using assms by (rule Apply_complete)

theorem complete_moves_held_keys_only_witness:
  "placeWrite ex_ramping ''a'' = Some (''east'', ''data-east'') \<and> placeWrite ex_ramping ''logs/a'' = Some (''west'', ''data-west'')"
proof -
  have "Held ex_held" "pState ex_held = StateRamping" by code_simp+
  then show ?thesis
    using complete_moves_held_keys_only [OF ex_ok(2) _ _ ex_steps(2) _ _ _ ex_writes(2)] ex_ratio ex_writes
    by (simp add: ex_complete_def ex_step_def)
qed

text \<open>C4. Releasing a hold gives every write that was accepted under it back unchanged.\<close>

theorem release_restores_writes:
  assumes "placement_ok p" "Apply p t = Inr np" "tRelease t" "placeWrite p key = Some b"
  shows "placeWrite np key = Some b"
  using assms by (rule Apply_release)

theorem release_restores_writes_witness:
  "\<exists>np. Apply ex_held ex_release = Inr np \<and> placeWrite np ''a'' = Some (''east'', ''data-east'')"
proof -
  have "isl (Apply ex_held ex_release) = False" by code_simp
  then obtain np where "Apply ex_held ex_release = Inr np" by (cases "Apply ex_held ex_release") simp_all
  then show ?thesis
    using release_restores_writes [OF ex_ok(2) _ _ ex_writes(2)] by (auto simp: ex_release_def)
qed

text \<open>C5. In a spread placement a move touches only its own keys: whatever step of the move is applied, the writes of a key
  outside it go where they went.\<close>

theorem move_touches_its_keys_only:
  assumes "spread_ok p" "pMove p = Some m" "Apply p t = Inr np" "\<not> InMove p key"
  shows "placeWrite np key = placeWrite p key"
  using assms by (rule Apply_outside)

theorem move_touches_its_keys_only_witness:
  "\<not> InMove ex_moving ''a'' \<and> placeWrite ex_moved ''a'' = placeWrite ex_moving ''a'' \<and> placeWrite ex_moving ''a'' = Some (''west'', ''wide-west'')"
proof -
  have "\<not> InMove ex_moving ''a''" "placeWrite ex_moving ''a'' = Some (''west'', ''wide-west'')" by code_simp+
  then show ?thesis
    using move_touches_its_keys_only [OF ex_moving_ok _ ex_steps(5)] by (simp add: ex_moving_def)
qed



section \<open>Barriers and admission\<close>

text \<open>C7. An acknowledged barrier is final on the proxy that acknowledged it: when a proxy reports a barrier closed with
  nothing in flight, then from that moment on, whatever directories are installed and published and however
  requests interleave, no request routed by a directory older than the proxy's newest at that moment ever holds a
  token of a gate the barrier covers.\<close>

theorem acknowledged_barrier_holds:
  assumes "kstep\<^sup>*\<^sup>* (newKeeper, {#}) (k, T)" "validate f = []" "iter_ok it f"
    and "a \<in> set (Acks it (gkGates k) f)" "akClosed a" "akInflight a = 0" "covers f a key kind"
    and "kstep\<^sup>*\<^sup>* (k, T) (k', T')" "(key, kind, w) \<in># T'"
  shows "keeperVersion k \<le> w"
proof -
  have "drainedAt (keeperVersion k) key kind (k, T)"
    using Acks_drained [OF assms(3) validate_barrier_ids [OF assms(2)] assms(4-7) run_counted [OF assms(1)]] .
  then have "drainedAt (keeperVersion k) key kind (k', T')" by (rule run_drained [OF assms(8)])
  then show ?thesis using assms(9) by (simp add: drainedAt_def)
qed

theorem acknowledged_barrier_holds_witness:
  "(''t/data'', KMutations, 6) \<in># {#(''t/data'', KMutations, 6 :: int)#} \<and> keeperVersion ex_keeper \<le> 6 \<and> keeperVersion ex_keeper = 5"
proof -
  have c: "covers ex_file_held ex_ack ''t/data'' KMutations" using ex_ack_facts(4,5) by (auto simp: covers_def)
  have "keeperVersion ex_keeper \<le> 6"
    by (rule acknowledged_barrier_holds [OF ex_run(1) ex_file_valid(2) ex_iteration_ok ex_ack_facts(1-3) c ex_run(2)]) simp
  then show ?thesis using ex_versions(3) by simp
qed

text \<open>C8. The keeper's gates follow the directories: after an install or a publish, a gate is closed exactly when the
  installed directory or the one requests route by carries a barrier for it (its placement's own, or the barrier of
  a cluster the placement has a bucket on), or it was closed and requests still route by an older version.\<close>

theorem gates_follow_directories:
  assumes "gkGates k = Some g" "gkGates (applyLocked it1 it2 k) = Some g'"
    and "\<And>f. gkInstalled k = Some f \<Longrightarrow> iter_ok it1 f \<and> validate f = []"
    and "\<And>f. gkServed k = Some f \<Longrightarrow> iter_ok it2 f \<and> validate f = []"
  shows "gtClosed (gateOf g' key) kind \<noteq> '''' \<longleftrightarrow>
    (\<exists>f. (gkInstalled k = Some f \<or> gkServed k = Some f) \<and> closes f key kind) \<or>
    (keeperSticky k \<and> gtClosed (gateOf g key) kind \<noteq> '''')"
  using applyLocked_closed [OF assms(1,2)] assms(3,4) validate_barrier_ids by blast

theorem gates_follow_directories_witness:
  "\<exists>g. gkGates ex_keeper = Some g \<and> (gtClosed (gateOf g ''t/data'') KMutations \<noteq> '''' \<longleftrightarrow> closes ex_file_held ''t/data'' KMutations)"
proof -
  let ?k = "(Installed ex_iteration ex_iteration ex_file_held newKeeper)\<lparr>gkServed := Some ex_file_held\<rparr>"
  obtain g1 where g1: "gkGates (Installed ex_iteration ex_iteration ex_file_held newKeeper) = Some g1"
    using applyLocked_gates [of "newKeeper\<lparr>gkInstalled := Some ex_file_held\<rparr>"] by (auto simp: Installed_def newKeeper_def)
  obtain g2 where g2: "gkGates ex_keeper = Some g2" using run_counted [OF ex_run(1)] by (auto simp: counted_def)
  have i: "gkInstalled ?k = Some ex_file_held" "\<not> keeperSticky ?k" by (simp_all add: Installed_def keeperSticky_def)
  have "gtClosed (gateOf g2 ''t/data'') KMutations \<noteq> '''' \<longleftrightarrow>
    (\<exists>f. (gkInstalled ?k = Some f \<or> gkServed ?k = Some f) \<and> closes f ''t/data'' KMutations) \<or>
    (keeperSticky ?k \<and> gtClosed (gateOf g1 ''t/data'') KMutations \<noteq> '''')"
    by (rule gates_follow_directories [of ?k g1 ex_iteration ex_iteration g2])
      (use g1 g2 i ex_iteration_ok ex_file_valid(2) in \<open>auto simp: ex_keeper_def Served_def\<close>)
  then show ?thesis using g2 i by auto
qed

text \<open>C9. A gate counts the tokens that are out: in every run of a proxy, the in-flight count of each gate and kind is the
  number of requests that entered through it and have not given their token back.\<close>

theorem gates_count_tokens:
  assumes "kstep\<^sup>*\<^sup>* (newKeeper, {#}) (k, T)"
  shows "\<exists>g. gkGates k = Some g \<and> (\<forall>key kind. gtInflight (gateOf g key) kind = int (tokensOut T key kind))"
  using run_counted [OF assms] by (simp add: counted_def)

theorem gates_count_tokens_witness:
  "\<exists>g. gkGates ex_keeper_busy = Some g \<and> gtInflight (gateOf g ''t/data'') KMutations = 1"
proof -
  have "kstep\<^sup>*\<^sup>* (newKeeper, {#}) (ex_keeper_busy, {#(''t/data'', KMutations, 6)#})" using ex_run by simp
  from gates_count_tokens [OF this] show ?thesis by (auto simp: tokensOut_def)
qed

section \<open>The directory\<close>

text \<open>C10. A resource's generation names its content: along any sequence of writes of the directory, a placement that is
  there has a generation newer than the version the sequence began with, or it kept its generation and its stored
  content. So an acknowledgement for one generation never speaks of another content.\<close>

theorem generation_names_content:
  assumes "wrote\<^sup>*\<^sup>* f0 f" "getPlacement f k = Some p"
  shows "Generation f (PlacementResource k) > fVersion f0 \<or>
    (Generation f (PlacementResource k) = Generation f0 (PlacementResource k) \<and>
     (\<exists>p0. getPlacement f0 k = Some p0 \<and> stored p = stored p0))"
  by (rule generation_run(1) [OF assms])

theorem generation_names_content_witness:
  "Generation ex_file_held (PlacementResource ''t/data'') > fVersion ex_file \<or>
    (Generation ex_file_held (PlacementResource ''t/data'') = Generation ex_file (PlacementResource ''t/data'') \<and>
     (\<exists>p0. getPlacement ex_file ''t/data'' = Some p0 \<and> stored ex_held = stored p0))"
  by (rule generation_names_content [OF r_into_rtranclp ex_placements(2)], rule wrote.wrote, rule ex_file_valid(1), rule ex_next(1))

text \<open>C11. A write of the directory gives a valid file with the next version and the identity of the file it replaced.\<close>

theorem write_keeps_lineage:
  assumes "nextFile drawn op f = Inr f'"
  shows "validate f' = [] \<and> fVersion f' = fVersion f + 1 \<and> fSchema f' = SchemaVersion \<and>
    (\<not> IsZero (fIdentity f) \<longrightarrow> fIdentity f' = fIdentity f)"
proof -
  obtain f1 where f1: "runOp op f = Inr f1" "Stamp drawn f (f1\<lparr>fVersion := fVersion f + 1\<rparr>) [] = Some f'" "validate f' = []"
    "fVersion f' = fVersion f + 1"
    by (rule nextFile_Inr [OF assms]) blast
  then show ?thesis using Stamp_Some(5,6) [OF f1(2)] by simp
qed

theorem write_keeps_lineage_witness:
  "fVersion ex_file_held = fVersion ex_file + 1 \<and> fIdentity ex_file_held = fIdentity ex_file"
proof -
  have "\<not> IsZero (fIdentity ex_file)" by code_simp
  then show ?thesis using write_keeps_lineage [OF ex_next(1)] by blast
qed

text \<open>C12. No two client buckets share a backend bucket in a valid directory: the buckets a placement writes to, by name or
  by leg, are used by no other placement.\<close>

theorem backend_buckets_disjoint:
  assumes "validate f = []" "getPlacement f k = Some p" "getPlacement f k' = Some p'" "k \<noteq> k'"
  shows "set (backendBuckets p) \<inter> set (backendBuckets p') = {}"
  using assms by (rule validate_placements(2))

theorem backend_buckets_disjoint_witness:
  "set (backendBuckets ex_plain) \<inter> set (backendBuckets ex_spread) = {} \<and> backendBuckets ex_spread \<noteq> []"
proof -
  have "backendBuckets ex_spread \<noteq> []" by code_simp
  then show ?thesis
    using backend_buckets_disjoint [OF ex_file_valid(1) ex_placements(1,3)] by simp
qed

text \<open>C13. A reload either keeps the snapshot it had, or installs one of a file that parsed, passed validation and
  preparation, and has a higher version: a rejected, stale or unreadable file never replaces a good directory.\<close>

theorem reload_never_regresses:
  "case Reload decode prepare stat contents d of (d', r) \<Rightarrow>
     (fdSnap d' = fdSnap d \<and> r \<noteq> Inr True) \<or>
     (\<exists>f data st. contents = Inr (data, st) \<and> parseFile decode data = Inr f \<and> validate f = [] \<and> prepare f = None \<and>
        snVersion (fdSnap d) < fVersion f \<and> fdSnap d' = newSnapshot f \<and> r = Inr True)"
proof -
  obtain d' r where r: "Reload decode prepare stat contents d = (d', r)" by fastforce
  show ?thesis unfolding r prod.case by (rule Reload_cases [OF r]) blast+
qed

text \<open>C14. Removing a cluster that the directory lets go keeps the directory valid: no tenant and no placement is left
  naming it.\<close>

theorem remove_cluster_keeps_valid:
  assumes "validate f = []" "RemoveCluster f name = Inr f'"
  shows "validate f' = []"
  using assms by (rule RemoveCluster_valid)

theorem remove_cluster_keeps_valid_witness:
  "\<exists>f'. RemoveCluster ex_file_spare ''old'' = Inr f' \<and> validate f' = [] \<and> isl (RemoveCluster ex_file_spare ''west'')"
proof -
  have v: "validate ex_file_spare = []" and r: "\<not> isl (RemoveCluster ex_file_spare ''old'')" "isl (RemoveCluster ex_file_spare ''west'')"
    by code_simp+
  obtain f' where f': "RemoveCluster ex_file_spare ''old'' = Inr f'" using r(1) by (cases "RemoveCluster ex_file_spare ''old''") auto
  from remove_cluster_keeps_valid [OF v f'] show ?thesis using f' r(2) by blast
qed

text \<open>C15. The file backend keeps the contract of the directory seam: a bucket created and deleted again leaves every
  lookup as it was.\<close>

theorem create_delete_restores:
  assumes "seamKey k" "seamKey k'" "seamCreate drawn k c n now f = Some f1" "seamDelete drawn k f1 = Some f2"
  shows "seamLookup f2 k' = seamLookup f k'"
  using assms by (rule seam.create_then_delete)

theorem create_delete_restores_witness:
  "\<exists>f1 f2. seamCreate None (''t'', ''new'') ''east'' ''new-east'' 0 ex_file = Some f1 \<and> seamDelete None (''t'', ''new'') f1 = Some f2 \<and>
     seamLookup f2 (''t'', ''data'') = seamLookup ex_file (''t'', ''data'')"
proof -
  have "Option.bind (seamCreate None (''t'', ''new'') ''east'' ''new-east'' 0 ex_file) (seamDelete None (''t'', ''new'')) \<noteq> None"
    by code_simp
  then obtain f1 f2 where f: "seamCreate None (''t'', ''new'') ''east'' ''new-east'' 0 ex_file = Some f1" "seamDelete None (''t'', ''new'') f1 = Some f2"
    unfolding not_None_eq Option.bind_eq_Some_conv by blast
  have k: "seamKey (''t'', ''new'')" "seamKey (''t'', ''data'')" by (simp_all add: seamKey_def)
  from create_delete_restores [OF k f] show ?thesis using f by blast
qed

section \<open>Owner tables and legs\<close>

text \<open>C16. A table of owners that \<^verbatim>\<open>checkOwners\<close> accepts holds every hash in exactly one of its ranges, and
  the binary search of \<^verbatim>\<open>OwnerIn\<close> returns the leg of that range, which is a leg of the placement.\<close>

theorem owner_search_correct:
  assumes "checkOwners os legs = None"
  shows "\<exists>ow. filter (\<lambda>ow. oFrom ow \<le> h \<and> h \<le> oTo ow) os = [ow] \<and> OwnerIn os h = oLeg ow \<and> hasKey legs (oLeg ow)"
proof -
  have os: "partition_table os" "\<forall>ow \<in> set os. hasKey legs (oLeg ow)" using assms by (auto simp: checkOwners_iff)
  obtain ow where ow: "filter (\<lambda>ow. oFrom ow \<le> h \<and> h \<le> oTo ow) os = [ow]"
    using partition_filter [OF os(1)] by blast
  then have "ow \<in> set (filter (\<lambda>ow. oFrom ow \<le> h \<and> h \<le> oTo ow) os)" by simp
  then have "ow \<in> set os" "oFrom ow \<le> h" "h \<le> oTo ow" by auto
  then show ?thesis using ow os(2) partition_owner [OF os(1)] by (intro exI [of _ ow]) (simp del: hasKey_iff)
qed

theorem owner_search_correct_witness:
  "OwnerIn [\<lparr>oFrom = 0, oTo = 9, oLeg = ''a''\<rparr>, \<lparr>oFrom = 10, oTo = -1, oLeg = ''b''\<rparr>] 10 = ''b''"
proof -
  have "checkOwners [\<lparr>oFrom = 0, oTo = 9, oLeg = ''a''\<rparr>, \<lparr>oFrom = 10, oTo = -1, oLeg = ''b''\<rparr>]
      (fmupd ''a'' \<lparr>lCluster = ''c1'', lBucket = ''x''\<rparr> (fmupd ''b'' \<lparr>lCluster = ''c2'', lBucket = ''y''\<rparr> fmempty)) = None"
    by (simp add: checkOwners_def)
  from owner_search_correct [OF this, of 10] show ?thesis by auto
qed

text \<open>C17. Reassigning a range changes the owner of its hashes and of no other, and gives a table that
  \<^verbatim>\<open>checkOwners\<close> accepts again.\<close>

theorem reassign_exact:
  assumes "checkOwners os legs = None" "rgFrom rg \<le> rgTo rg" "hasKey legs leg"
  shows "checkOwners (reassign os rg leg) legs = None \<and>
    OwnerIn (reassign os rg leg) h = (if rgFrom rg \<le> h \<and> h \<le> rgTo rg then leg else OwnerIn os h)"
proof -
  have os: "partition_table os" "\<forall>ow \<in> set os. hasKey legs (oLeg ow)" using assms(1) by (auto simp: checkOwners_iff)
  note r = reassign_partition [OF assms(2) os(1), of leg]
  have known: "hasKey legs (OwnerIn os x)" for x
  proof -
    obtain ow where "filter (\<lambda>ow. oFrom ow \<le> x \<and> x \<le> oTo ow) os = [ow]" using partition_filter [OF os(1)] by blast
    then have "ow \<in> set (filter (\<lambda>ow. oFrom ow \<le> x \<and> x \<le> oTo ow) os)" by simp
    then show ?thesis using partition_owner [OF os(1), of ow x] os(2) by (auto simp del: hasKey_iff)
  qed
  have "hasKey legs (oLeg ow)" if ow: "ow \<in> set (reassign os rg leg)" for ow
  proof -
    have "OwnerIn (reassign os rg leg) (oFrom ow) = oLeg ow"
      using partition_owner [OF r(1) ow] tile_from_to [OF r(1) [unfolded partition_table_def] ow] by simp
    then show ?thesis using r(2) [of "oFrom ow"] known [of "oFrom ow"] assms(3) by (simp split: if_splits del: hasKey_iff)
  qed
  then show ?thesis using r by (simp add: checkOwners_iff inRg_def del: hasKey_iff)
qed

theorem reassign_exact_witness:
  "OwnerIn (reassign [\<lparr>oFrom = 0, oTo = -1, oLeg = ''a''\<rparr>] \<lparr>rgFrom = 10, rgTo = 19\<rparr> ''b'') 15 = ''b''"
proof -
  let ?legs = "fmap_of_list [(''a'', ex_leg_a), (''b'', ex_leg_b)]"
  have "checkOwners [\<lparr>oFrom = 0, oTo = -1, oLeg = ''a''\<rparr>] ?legs = None" "hasKey ?legs ''b''" by code_simp+
  from reassign_exact [OF this(1) _ this(2), of "\<lparr>rgFrom = 10, rgTo = 19\<rparr>" 15] show ?thesis by simp
qed

text \<open>C18. A new spread placement gives every leg a share: \<^verbatim>\<open>EvenOwners\<close> covers the hash space with one range per leg, in
  order, whose sizes differ by at most the number of legs.\<close>

theorem even_owners:
  assumes "legs \<noteq> []" "length legs < 2 ^ 64"
  shows "\<exists>os. EvenOwners legs = Some os \<and> partition_table os \<and> map oLeg os = legs \<and>
    (\<forall>ow \<in> set os. evenWidth legs \<le> width ow \<and> width ow \<le> evenWidth legs + length legs)"
proof -
  have n: "length legs < hash_space" using assms(2) by (simp add: hash_space_def)
  obtain os where os: "EvenOwners legs = Some os" using EvenOwners_eq [OF assms(1)] by blast
  then show ?thesis using EvenOwners_shape [OF assms(1) n os] by blast
qed

theorem even_owners_witness:
  "\<exists>os. EvenOwners [''a'', ''b'', ''c''] = Some os \<and> partition_table os \<and> map oLeg os = [''a'', ''b'', ''c'']"
  using even_owners [of "[''a'', ''b'', ''c'']"] by auto

text \<open>C19. A leading share of a range is a range again: it starts where the range starts and stays inside it, for every
  share, NaN and infinities included.\<close>

theorem leading_share_inside:
  assumes "rgFrom r \<le> rgTo r"
  shows "\<exists>rg. LeadingShare r share = Some rg \<and> rgFrom rg = rgFrom r \<and> rgFrom rg \<le> rgTo rg \<and> rgTo rg \<le> rgTo r"
  using LeadingShare_total [of r share] LeadingShare_bounds [OF assms] by blast

theorem leading_share_inside_witness:
  "LeadingShare \<lparr>rgFrom = 0, rgTo = 99\<rparr> (Fin (1/2)) = Some \<lparr>rgFrom = 0, rgTo = 49\<rparr> \<and>
    (\<exists>rg. LeadingShare \<lparr>rgFrom = 5, rgTo = 99\<rparr> NaN = Some rg \<and> rgFrom rg = 5)"
proof -
  have "LeadingShare \<lparr>rgFrom = 0, rgTo = 99\<rparr> (Fin (1/2)) = Some \<lparr>rgFrom = 0, rgTo = 49\<rparr>" by code_simp
  then show ?thesis using leading_share_inside [of "\<lparr>rgFrom = 5, rgTo = 99\<rparr>" NaN] by auto
qed

text \<open>C20. Converting a placement with named clusters to legs and back gives the placement, and the converted form
  passes the checks of the new format.\<close>

theorem leg_format_roundtrip:
  assumes "plain_v1 p"
  shows "fromV2 (ToV2 p) = Inr p \<and> checkV2 (ToV2 p) = None"
  using ToV2_fromV2 [OF assms] ToV2_checkV2 [OF assms] by blast

theorem leg_format_roundtrip_witness: "fromV2 (ToV2 ex_plain) = Inr ex_plain \<and> pLegs (ToV2 ex_plain) \<noteq> None"
proof -
  have "plain_v1 ex_plain"
    unfolding plain_v1_def
    by (simp add: ex_plain_def zeroPlacement_def mapLen_def MaxLegs_def fcard_finsert_if fcard_fempty)
      (simp add: legIDOK_def isLower_def isDigit_def less_eq_char_def)
  moreover have "pLegs (ToV2 ex_plain) \<noteq> None" by code_simp
  ultimately show ?thesis using leg_format_roundtrip [of ex_plain] by blast
qed

text \<open>C21. A listing asks every leg that can hold a key under its prefix: the owner of each such key, at any hash, is among
  the legs listed.\<close>

theorem listing_legs_complete:
  assumes "checkV2 p = None" "prefix pre key"
  shows "ownerAt p key h \<in> set (ListingLegs p pre)"
  using checkV2_tables [OF assms(1)] assms(2) by (rule ListingLegs_owner)

theorem listing_legs_complete_witness:
  "ownerAt ex_moving ''logs/a'' 7 \<in> set (ListingLegs ex_moving ''logs/'') \<and> ownerAt ex_moving ''logs/a'' 7 = ''east''"
proof -
  have "checkV2 ex_moving = None" "ownerAt ex_moving ''logs/a'' 7 = ''east''" by code_simp+
  then show ?thesis using listing_legs_complete [of ex_moving "''logs/''" "''logs/a''" 7] by simp
qed

text \<open>C22. A leg is retired only when it is empty: a leg that \<^verbatim>\<open>OwnsBeyond\<close> clears for a scope and range owns no key
  outside them.\<close>

theorem owns_beyond_sound:
  assumes "checkV2 p = None" "\<not> OwnsBeyond p leg scope rg" "ownerAt p key h = leg"
  shows "fst (Scope p key) = scope \<and> inRg rg h"
  using checkV2_tables [OF assms(1)] assms(2,3) by (rule OwnsBeyond_owner)

theorem owns_beyond_sound_witness:
  "fst (Scope ex_spread ''k'') = '''' \<and> inRg \<lparr>rgFrom = 0, rgTo = 0x7fffffffffffffff\<rparr> 7"
proof -
  have "checkV2 ex_spread = None" "\<not> OwnsBeyond ex_spread ''east'' '''' \<lparr>rgFrom = 0, rgTo = 0x7fffffffffffffff\<rparr>"
    "ownerAt ex_spread ''k'' 7 = ''east''" by code_simp+
  then show ?thesis by (rule owns_beyond_sound)
qed

section \<open>The lifecycle\<close>

text \<open>C23. A transition goes only where the lifecycle allows: an applied step leads to a legal next state (a held one stays in
  RAMPING), and a release leads back from RAMPING to ACTIVE or RAMPING.\<close>

theorem transitions_legal:
  assumes "Apply p t = Inr np"
  shows "if tRelease t then pState p = StateRamping \<and> (pState np = StateActive \<or> pState np = StateRamping)
         else legal (pState p) (tTo t) \<and> pState np = (if tHold t then StateRamping else tTo t)"
  using assms by (rule Apply_state)

theorem transitions_legal_witness: "legal StateRamping StateMigrating \<and> pState ex_migrating = StateMigrating"
proof -
  have "pState ex_ramping = StateRamping" by (simp add: ex_ramping_def)
  then show ?thesis using transitions_legal [OF ex_steps(3)] by (simp add: ex_step_def)
qed

text \<open>C24. A transition is applied or refused with a reason: on a placement within the leg limit, and with a target whose name
  can be a leg id, \<^verbatim>\<open>Apply\<close> never panics and its search for a leg id always ends.\<close>

theorem transitions_total:
  assumes "nameable p" "tTarget t = '''' \<or> legIDOK (tTarget t)"
  shows "(\<exists>np. Apply p t = Inr np) \<or> (\<exists>a b r. Apply p t = Inl (TransitionError a b r))"
proof (cases "Apply p t")
  case (Inl e)
  then show ?thesis using Apply_refusal [OF assms Inl] by (auto simp: refusal_def split: apply_error.splits)
qed blast

theorem transitions_total_witness:
  "nameable ex_plain \<and> ((\<exists>np. Apply ex_plain ex_release = Inr np) \<or> (\<exists>a b r. Apply ex_plain ex_release = Inl (TransitionError a b r)))"
proof -
  have "nameable ex_plain" by (simp add: nameable_def ex_plain_def zeroPlacement_def Spread_def)
  then show ?thesis using transitions_total [of ex_plain ex_release] by (simp add: ex_release_def ex_step_def)
qed

text \<open>C25. Naming a leg ends: for a cluster whose name can start a leg id, and a placement within the leg limit,
  \<^verbatim>\<open>newLegID\<close> returns.\<close>

theorem new_leg_id_returns:
  assumes "legIDOK cluster" "mapLen ls \<le> MaxLegs"
  shows "\<exists>j. newLegID ls cluster = Some j"
  using assms by (rule newLegID_returns)

theorem new_leg_id_returns_witness: "\<exists>j. newLegID (fmap_of_list [(''east'', ex_leg_a)]) ''east'' = Some j \<and> j \<noteq> ''east''"
proof -
  let ?ls = "fmap_of_list [(''east'', ex_leg_a)]"
  have c: "legIDOK ''east''" "mapLen ?ls \<le> MaxLegs" "newLegID ?ls ''east'' \<noteq> Some ''east''" by code_simp+
  from new_leg_id_returns [OF c(1,2)] c(3) show ?thesis by auto
qed

text \<open>C26. Naming a leg after a cluster whose name does not start with a lower-case letter or a digit never ends: no candidate
  is ever a leg id, so the loop of \<^verbatim>\<open>newLegID\<close> runs forever.\<close>

theorem new_leg_id_diverges:
  assumes "cluster = '''' \<or> \<not> (isLower (hd cluster) \<or> isDigit (hd cluster))"
  shows "newLegID ls cluster = None"
  using assms by (rule newLegID_diverges)

theorem new_leg_id_diverges_witness: "newLegID fmempty ''East'' = None"
  by (rule new_leg_id_diverges) (simp add: isLower_def isDigit_def less_eq_char_def)

section \<open>Routing\<close>

text \<open>C27. A ramp only grows: raising its ratio and adding prefixes never takes a key back to the source.\<close>

theorem ramp_monotone:
  assumes "rHash r = RampHash" "rHash r' = RampHash" "rRange r' = rRange r" "ratio_ok (rRatio r)" "ratio_ok (rRatio r')"
    and "fle (rRatio r) (rRatio r')" "set (rPrefixes r) \<subseteq> set (rPrefixes r')" "InRange (Some r) key = Inr True"
  shows "InRange (Some r') key = Inr True"
  using assms by (rule InRange_mono)

theorem ramp_monotone_witness:
  "InRange (Some \<lparr>rHash = RampHash, rRatio = Fin 1, rPrefixes = [''logs/''], rRange = None, rHold = None\<rparr>) ''logs/a'' = Inr True"
proof -
  let ?r = "\<lparr>rHash = RampHash, rRatio = Fin 0, rPrefixes = [''logs/''], rRange = None, rHold = None\<rparr>"
  have a: "InRange (Some ?r) ''logs/a'' = Inr True" "fle (Fin 0) (Fin 1)" by code_simp+
  show ?thesis
    by (rule ramp_monotone [OF _ _ _ _ _ _ _ a(1)]) (simp_all add: ex_ratio a(2))
qed

text \<open>C28. A client reads its own writes: the cluster a write of a key goes to is the cluster a read of it asks first.\<close>

theorem reads_follow_writes:
  assumes "Decide p ClassWrite key = Inr w" "\<not> rtHeld w"
  shows "\<exists>r. Decide p ClassRead key = Inr r \<and> rtCluster r = rtCluster w"
  using assms by (rule Decide_read_follows_write)

theorem reads_follow_writes_witness:
  "\<exists>w r. Decide ex_ramping ClassWrite ''logs/a'' = Inr w \<and> Decide ex_ramping ClassRead ''logs/a'' = Inr r \<and> rtCluster r = rtCluster w"
proof -
  have "case Decide ex_ramping ClassWrite ''logs/a'' of Inr w \<Rightarrow> \<not> rtHeld w | Inl _ \<Rightarrow> False" by code_simp
  then obtain w where w: "Decide ex_ramping ClassWrite ''logs/a'' = Inr w" "\<not> rtHeld w" by (auto split: sum.splits)
  from reads_follow_writes [OF w] show ?thesis using w by blast
qed

text \<open>C29. An upload id given to a client names its cluster and the backend's id: decoding the encoded id gives both back.\<close>

theorem upload_id_roundtrip:
  assumes "uploadPrefix pre" "backendID \<noteq> ''''"
  shows "DecodeUploadID (encodeUploadID pre backendID) = (pre, backendID, True)"
  using assms by (rule DecodeUploadID_encode)

theorem upload_id_roundtrip_witness: "DecodeUploadID (encodeUploadID ''0a1b2c'' ''xyz'') = (''0a1b2c'', ''xyz'', True)"
proof -
  have "isLowerHex ''0a1b2c''" by code_simp
  then have "uploadPrefix ''0a1b2c''" by (simp add: uploadPrefix_def)
  then show ?thesis by (rule upload_id_roundtrip) simp
qed

section \<open>Names and requests\<close>

text \<open>C30. Only a reserved word makes a generated backend name invalid: for a valid tenant and a valid client bucket, the name
  \<^verbatim>\<open>BackendName\<close> makes has the length, the bytes and the shape of a bucket name at every attempt.\<close>

theorem backend_name_valid:
  assumes "validTenant t" "ValidBucketName b"
    and "\<not> list_ex (\<lambda>p. prefix p (BackendName t b n)) reservedBucketPrefixes"
    and "\<not> list_ex (\<lambda>s. suffix s (BackendName t b n)) reservedBucketSuffixes"
  shows "ValidBucketName (BackendName t b n)"
  using assms by (rule BackendName_valid)

theorem backend_name_valid_witness: "ValidBucketName (BackendName ''t'' ''data'' 0)"
proof -
  have n: "BackendName ''t'' ''data'' 0 = ''t-'' @ hexEncode (take 2 (sha256 ''t/data'')) @ ''-data''"
    by (simp add: BackendName_def toLower_def isUpper_def less_eq_char_def Let_def)
  have v: "validTenant ''t''" "ValidBucketName ''data''" by code_simp+
  show ?thesis
    by (rule backend_name_valid [OF v])
      (simp_all add: n reservedBucketPrefixes_def reservedBucketSuffixes_def suffix_to_prefix)
qed

text \<open>C31. A tenant name can bring a reserved prefix: the tenant \<^verbatim>\<open>sthree\<close> is valid, and no name generated for it is.\<close>

theorem backend_name_reserved:
  assumes "ValidBucketName b"
  shows "validTenant ''sthree'' \<and> \<not> ValidBucketName (BackendName ''sthree'' b n)"
proof -
  have t: "validTenant ''sthree''" by code_simp
  have "''sthree-'' \<in> set reservedBucketPrefixes" by (simp add: reservedBucketPrefixes_def)
  from BackendName_reserved [OF t assms this] t show ?thesis by simp
qed

theorem backend_name_reserved_witness: "\<not> ValidBucketName (BackendName ''sthree'' ''data'' 0)"
proof -
  have "ValidBucketName ''data''" by code_simp
  from backend_name_reserved [OF this] show ?thesis by blast
qed

text \<open>C32. The classifier answers within the level of the request: an operation is unknown, a preflight, or an operation of the
  level (service, bucket or object) its path names.\<close>

theorem classify_in_level:
  "riOp (Parse r d) = OpUnknown \<or> riOp (Parse r d) = OpPreflight \<or> opLevel (riOp (Parse r d)) = riLevel (Parse r d)"
  using classify_level_cases by (simp only: Parse_cases(4))

text \<open>C33. A PUT of an object is read by the first of its marks, in this order: tagging, retention, legal hold, ACL, a part of an
  upload, a copy; with none it is a plain put.\<close>

theorem classify_put:
  "classify ''PUT'' LevelObject q h =
     (if hasKey q ''tagging'' then OpPutObjectTagging
      else if hasKey q ''retention'' then OpPutObjectRetention
      else if hasKey q ''legal-hold'' then OpPutObjectLegalHold
      else if hasKey q ''acl'' then OpPutObjectAcl
      else if hasKey q ''uploadId'' \<and> hasKey q ''partNumber''
      then (if getFirst h hdrCopySource \<noteq> '''' then OpUploadPartCopy else OpUploadPart)
      else if getFirst h hdrCopySource \<noteq> '''' then OpCopyObject
      else OpPutObject)"
  by (rule classify_object_PUT)

section \<open>Maintenance, fenced steps and the control plane\<close>



text \<open>C35. A ramp or migrate step of the control plane never moves an accepted write: of everything one fenced step writes
  to the directory (the step itself when it needs no fence, its hold, its completion, the release of its hold, the
  measured profile of a cluster), each from a valid directory, a write of any key that the version before and the
  version after both accept goes to one bucket. The hold and the completion may be judged on a read older than the
  directory they are written to; the step without a fence meets the placement it read, which its operation has
  reserved.\<close>

theorem fenced_step_keeps_writes:
  assumes "step_write be drawn order i key t create acceptLoss g g'" "validate g = []" "step_request t"
    and "key = Key tenant bucket" "SplitKey key = (tenant, bucket, ok)"
    and "getPlacement g k = Some q" "getPlacement g' k = Some q'" "routable q"
    and "placeWrite q obj = Some b" "placeWrite q' obj = Some b'"
  shows "b' = b"
  using assms by (rule step_write_keeps)

theorem fenced_step_keeps_writes_witness:
  "step_write ex_backends (None, None) [] ''op-1'' ''t/data'' ex_ramp False False ex_file_held ex_file_ramping \<and>
   placeWrite ex_ramping ''a'' = Some (''east'', ''data-east'')"
proof -
  have s: "step_write ex_backends (None, None) [] ''op-1'' ''t/data'' ex_ramp False False ex_file_held ex_file_ramping"
    by (rule step_write.commit [of _ _ _ _ _ StateActive _ _ ex_file_held _ "fst (commitStep ex_backends (None, None) [] ''op-1'' ''t/data'' StateActive ex_ramp False ex_file_held ex_file_held)"])
       (metis ex_commit prod.collapse)
  have k: "''t/data'' = Key ''t'' ''data''" "SplitKey ''t/data'' = (''t'', ''data'', True)"
    "getPlacement ex_file_ramping ''t/data'' = Some ex_ramping" by code_simp+
  have t: "step_request ex_ramp" using ex_ratio by (simp add: step_request_def ex_ramp_def ex_step_def)
  have "placeWrite ex_ramping ''a'' \<noteq> None" by code_simp
  then obtain b where "placeWrite ex_ramping ''a'' = Some b" by blast
  then show ?thesis
    using fenced_step_keeps_writes [OF s ex_file_valid(2) t k(1,2) ex_placements(2) k(3) ex_routable(2) ex_writes(2)] s by blast
qed



text \<open>C37. A barrier that can drain commits: when nobody ends the operation, the hold can be written, the fleet is found
  drained at some evaluation and the node keeps waiting until then, and the first attempt to commit succeeds, a run
  of the barrier returns, with the barrier committed at the version the commit was written at.\<close>

theorem barrier_commits:
  assumes "quiet_run w k" "wHold w = Inr h" "wCarried w = Inr c" "wCommit w 0 = CommitDone v already"
    and "\<And>b. st = Some b \<Longrightarrow> \<not> bsCommitted b"
  shows "\<exists>st' evs. runBarrier w i scope kind prior st = Some (Inr st', evs) \<and> bsCommitted st' \<and> bsCommitVersion st' = v"
  using assms by (rule runBarrier_commits)

theorem barrier_commits_witness:
  "\<exists>st' evs. runBarrier ex_world ''op-1'' ''placement:t/data'' ''mutations'' None None = Some (Inr st', evs) \<and>
     bsCommitted st' \<and> bsCommitVersion st' = 6"
proof -
  have "quiet_run ex_world (Suc 0)" using ex_eval(2) by (simp add: quiet_run_def)
  then show ?thesis using barrier_commits [of ex_world "Suc 0" "(5, 5, 100)" True 6 False None] by simp
qed

text \<open>C38. The operations of the control plane exclude each other: however operations are started, written, finished,
  cancelled, resumed, taken over, orphaned and corrected, two records that have not ended never claim one resource,
  and none claims a cluster that the other's change touches.\<close>

theorem operations_exclusive:
  assumes "op_step\<^sup>*\<^sup>* (newOperations limit capacity node, []) (m, ts)" "i \<noteq> j"
    and "fmlookup (moByID m) i = Some a" "fmlookup (moByID m) j = Some b" "\<not> Terminal a" "\<not> Terminal b"
    and "opScope a = Some sa" "opScope b = Some sb"
  shows "\<not> overlap sa sb"
proof -
  have "exclusive m" using op_run_ok [OF assms(1)] by (simp add: controlOK_def storeOK_def)
  then show ?thesis using assms(2-8) unfolding exclusive_def by blast
qed

theorem operations_exclusive_witness:
  "\<not> overlap \<lparr>scResource = ''placement:t/data'', scGeneration = 0, scClusters = [''east'', ''west'']\<rparr>
     \<lparr>scResource = ''placement:t/wide'', scGeneration = 0, scClusters = [''east'', ''west'']\<rparr>"
  by (rule operations_exclusive [OF ex_operations_run(2) _ ex_records(1,2,3,4,5,6)]) simp

text \<open>C39. A cancellation stops the owner at its next write: when the record of a running operation is cancelled, the
  record's barrier was neither dispatched nor committed, and the owner's next write of the record, such as the one
  that enters its commit phase before it touches the directory, changes nothing and tells the owner that the
  operation was cancelled.\<close>

theorem cancel_stops_owner:
  assumes "op_step\<^sup>*\<^sup>* (newOperations limit capacity node, []) (m, ts)" "tr \<in> set ts" "\<not> trLost tr" "opID (trOp tr) = i"
    and "updateRecord now i (cancelEnd actor fromNode term gone) m = Inr (m', op, True)" "Get m' i = Some x" "opKind x \<noteq> OpControlJoin"
  shows "(\<forall>b. opBarrier x = Some b \<longrightarrow> \<not> bsCommitted b \<and> \<not> bsDispatchStarted b) \<and>
    fst (put later (m', tr)) = m' \<and>
    check m' (snd (put later (m', tr))) = Some (Canceled (''the operation was canceled before its change was committed'', []))"
proof -
  have ok: "storeOK m" "linked m tr" using op_run_ok [OF assms(1)] assms(2) by (auto simp: controlOK_def)
  note c = cancelled_record [OF ok(1) assms(5-7)]
  obtain cur where cur: "Get m i = Some cur" "opSequence x = opSequence cur + 1" using c(4) by blast
  have "opSequence (trOp tr) \<le> opSequence cur" using linkedD(3) [OF ok(2) _ assms(3)] cur(1) assms(4) by simp
  then have s: "opSequence x \<noteq> opSequence (trOp tr)" using cur(2) by simp
  have t: "Terminal x" using c(2) by (simp add: Terminal_def)
  have g: "Get m' (opID (trOp tr)) = Some x" using assms(4,6) by simp
  show ?thesis using c(3) put_ended [OF g t s assms(3), of later] put_id [of later m' tr] g c(2) by (simp add: check_def)
qed

theorem cancel_stops_owner_witness:
  "fst (put 300 (fst ex_canceled, snd ex_first)) = fst ex_canceled \<and>
   check (fst ex_canceled) (snd (put 300 (fst ex_canceled, snd ex_first)))
     = Some (Canceled (''the operation was canceled before its change was committed'', []))"
  using cancel_stops_owner [OF ex_operations_run(1) _ ex_begun(4,3) ex_cancel] by simp

text \<open>C40. The fleet never forgets a process that may still write: however proxies report, restart, retire, are resolved,
  expire and are forgotten, a process that registered with a heartbeat, or that a successor reported as having ended uncleanly,
  and that neither retired cleanly nor was resolved by an operator, is named by the proxy's record as unproven, the record names at most eight processes besides the current one, and forgetting
  the proxy is refused.\<close>

theorem fleet_keeps_evidence:
  assumes "fleet_step\<^sup>*\<^sup>* (newFleet, newHistory) (fl, h)" "(i, j) \<in> hyStarted h" "(i, j) \<notin> hyEnded h"
  shows "j \<in> icID ` set (unproven (recordAt fl i)) \<and> length (mrUnresolved (recordAt fl i)) \<le> 8 \<and> isl (Forget node i fl)"
proof -
  have r: "recOK (startedOf h i) (endedOf h i) (recordAt fl i)"
    using fleet_run_ok [OF assms(1)] by (simp add: fleetOK_def recordsOK_def)
  then have u: "j \<in> icID ` set (unproven (recordAt fl i))" using assms(2,3) by (auto simp: recOK_def startedOf_def endedOf_def)
  then have n: "unproven (recordAt fl i) \<noteq> []" by auto
  then obtain rv rec where l: "fmlookup (flMembers fl) i = Some (rv, rec)" "recordAt fl i = rec"
    by (cases "fmlookup (flMembers fl) i") (auto simp: recordAt_def zeroRecord_def unproven_def)
  then have "isl (Forget node i fl)" using n by (simp add: Forget_def)
  then show ?thesis using r u by (simp add: recOK_def MaxUnresolvedIncarnations_def)
qed

theorem fleet_keeps_evidence_witness:
  "ex_incarnation \<in> icID ` set (unproven (recordAt (ex_fleet 1) ''p1'')) \<and> isl (Forget ''n1'' ''p1'' (ex_fleet 1))"
  using fleet_keeps_evidence [OF ex_fleet_run ex_process] by blast

end
